(* ===== verification/Prelude.thy ===== *)
theory Prelude
  imports Main "HOL-Library.Word"
begin

text \<open>
  Shared vocabulary of the development: Go's integer types, the outcome of a Go
  call, the parts of \<^verbatim>\<open>fmt\<close> and \<^verbatim>\<open>strconv\<close> the program uses, \<^verbatim>\<open>range\<close> loops over maps,
  and the collections of rewrite rules the component theories fill.
\<close>

section \<open>Types\<close>

type_synonym u8 = "8 word"
type_synonym u16 = "16 word"
type_synonym u32 = "32 word"
type_synonym u64 = "64 word"

text \<open>A Go \<^verbatim>\<open>error\<close> is known to the program by its text only (\<^verbatim>\<open>fmt.Sprintf("%s",err)\<close>).\<close>

type_synonym go_error = string

text \<open>
  How a call ends: it returns, it panics (a nil dereference, an index out of range,
  \<^verbatim>\<open>l.Panicf\<close>), it ends the process (\<^verbatim>\<open>os.Exit\<close>, \<^verbatim>\<open>l.Fatal\<close>), or it never returns.
\<close>

datatype 'a outcome = Ret 'a | Panic string | Exit int | Diverge

primrec obind :: "'a outcome \<Rightarrow> ('a \<Rightarrow> 'b outcome) \<Rightarrow> 'b outcome" where
  "obind (Ret x) f = f x"
| "obind (Panic m) f = Panic m"
| "obind (Exit n) f = Exit n"
| "obind Diverge f = Diverge"

definition of_option :: "string \<Rightarrow> 'a option \<Rightarrow> 'a outcome" where
  "of_option m x = (case x of None \<Rightarrow> Panic m | Some v \<Rightarrow> Ret v)"

named_theorems outcome_simps

lemma obind_Ret_iff [outcome_simps]: "obind x f = Ret y \<longleftrightarrow> (\<exists>z. x = Ret z \<and> f z = Ret y)"
  by (cases x) auto

lemma obind_assoc [outcome_simps]: "obind (obind x f) g = obind x (\<lambda>z. obind (f z) g)"
  by (cases x) auto

lemma of_option_Ret_iff [outcome_simps]: "of_option m x = Ret v \<longleftrightarrow> x = Some v"
  by (auto simp: of_option_def split: option.splits)

lemma case_sum_Panic_Ret_iff [outcome_simps]:
  "(case x of Inl e \<Rightarrow> Panic (m e) | Inr v \<Rightarrow> f v) = Ret y \<longleftrightarrow> (\<exists>v. x = Inr v \<and> f v = Ret y)"
  by (cases x) auto

lemma case_sum_Exit_Ret_iff [outcome_simps]:
  "(case x of Inl e \<Rightarrow> Exit (m e) | Inr v \<Rightarrow> f v) = Ret y \<longleftrightarrow> (\<exists>v. x = Inr v \<and> f v = Ret y)"
  by (cases x) auto

lemma of_option_simps [simp]:
  "of_option m None = Panic m" "of_option m (Some v) = Ret v"
  by (simp_all add: of_option_def)

section \<open>Strings\<close>

text \<open>\<^verbatim>\<open>strings.Contains\<close> and \<^verbatim>\<open>strings.ToUpper\<close> (on ASCII text).\<close>

fun str_contains :: "string \<Rightarrow> string \<Rightarrow> bool" where
  "str_contains [] sub = (sub = [])"
| "str_contains (c # s) sub = (take (length sub) (c # s) = sub \<or> str_contains s sub)"

definition char_upper :: "char \<Rightarrow> char" where
  "char_upper c =
     (if 97 \<le> (of_char c :: nat) \<and> (of_char c :: nat) \<le> 122 then char_of (of_char c - 32 :: nat) else c)"

definition ToUpper :: "string \<Rightarrow> string" where
  "ToUpper s = map char_upper s"

section \<open>Go maps\<close>

text \<open>
  A Go map with \<^verbatim>\<open>uint32\<close> keys: an association list without repeated keys, so that \<^verbatim>\<open>len\<close> is
  its length. Its order is no iteration order; loops get theirs from the environment.
\<close>

type_synonym 'v gomap = "(u32 \<times> 'v) list"

definition gm_put :: "u32 \<Rightarrow> 'v \<Rightarrow> 'v gomap \<Rightarrow> 'v gomap" where
  "gm_put k v m = (k, v) # filter (\<lambda>e. fst e \<noteq> k) m"

definition gm_del :: "u32 \<Rightarrow> 'v gomap \<Rightarrow> 'v gomap" where
  "gm_del k m = filter (\<lambda>e. fst e \<noteq> k) m"

definition gm_ok :: "'v gomap \<Rightarrow> bool" where
  "gm_ok m \<longleftrightarrow> distinct (map fst m)"

lemma map_of_gm_del [simp]: "map_of (gm_del k m) = (map_of m)(k := None)"
  by (induction m) (auto simp: gm_del_def fun_eq_iff)

lemma map_of_gm_put [simp]: "map_of (gm_put k v m) = (map_of m)(k \<mapsto> v)"
  using map_of_gm_del [of k m] by (simp add: gm_put_def gm_del_def)

lemma gm_ok_del [simp]: "gm_ok m \<Longrightarrow> gm_ok (gm_del k m)"
  by (simp add: gm_ok_def gm_del_def distinct_map_filter)

lemma gm_ok_put [simp]: "gm_ok m \<Longrightarrow> gm_ok (gm_put k v m)"
  by (auto simp: gm_ok_def gm_put_def distinct_map_filter)

lemma gm_ok_Nil [simp]: "gm_ok []"
  by (simp add: gm_ok_def)

lemma gm_len: "gm_ok m \<Longrightarrow> length m = card (dom (map_of m))"
  using distinct_card [of "map fst m"] by (simp add: gm_ok_def dom_map_of_conv_image_fst)

section \<open>Decimal and hexadecimal numbers\<close>

definition digit_char :: "nat \<Rightarrow> char" where
  "digit_char d = char_of (48 + d)"

text \<open>\<^verbatim>\<open>fmt.Sprintf("%d", n)\<close> for an unsigned value.\<close>

fun dec_of :: "nat \<Rightarrow> string" where
  "dec_of n = (if n < 10 then [digit_char n] else dec_of (n div 10) @ [digit_char (n mod 10)])"

declare dec_of.simps [simp del]

definition dec_u32 :: "u32 \<Rightarrow> string" where
  "dec_u32 w = dec_of (unat w)"

text \<open>\<^verbatim>\<open>%d\<close> for an \<^verbatim>\<open>int\<close>.\<close>

definition dec_int :: "int \<Rightarrow> string" where
  "dec_int i = (if i < 0 then ''-'' @ dec_of (nat (- i)) else dec_of (nat i))"

definition hex_char :: "nat \<Rightarrow> char" where
  "hex_char d = (if d < 10 then char_of (48 + d) else char_of (87 + d))"

text \<open>\<^verbatim>\<open>fmt.Sprintf("%x", b)\<close> for one byte: lower case, no leading zero.\<close>

definition hex_u8 :: "u8 \<Rightarrow> string" where
  "hex_u8 b = (if unat b < 16 then [hex_char (unat b)]
               else [hex_char (unat b div 16), hex_char (unat b mod 16)])"

definition is_digit :: "char \<Rightarrow> bool" where
  "is_digit c \<longleftrightarrow> 48 \<le> (of_char c :: nat) \<and> (of_char c :: nat) \<le> 57"

definition digit_val :: "char \<Rightarrow> nat" where
  "digit_val c = of_char c - 48"

fun digits_val :: "nat \<Rightarrow> string \<Rightarrow> nat option" where
  "digits_val acc [] = Some acc"
| "digits_val acc (c # cs) =
     (if is_digit c then digits_val (acc * 10 + digit_val c) cs else None)"

text \<open>
  \<^verbatim>\<open>strconv.Atoi\<close> on a machine whose \<^verbatim>\<open>int\<close> has \<open>w\<close> bits: the value and the error. The
  program is built for 64-bit and for 32-bit (mips) targets, so the width is an argument.
\<close>

definition atoi :: "nat \<Rightarrow> string \<Rightarrow> int \<times> go_error option" where
  "atoi w s =
     (let neg = (s \<noteq> [] \<and> hd s = CHR ''-'');
          t = (if s \<noteq> [] \<and> (hd s = CHR ''-'' \<or> hd s = CHR ''+'') then tl s else s)
      in if t = [] then (0, Some ''invalid syntax'')
         else case digits_val 0 t of
                None \<Rightarrow> (0, Some ''invalid syntax'')
              | Some n \<Rightarrow>
                  (let v = (if neg then - int n else int n)
                   in if v \<ge> 2 ^ (w - 1) then (2 ^ (w - 1) - 1, Some ''value out of range'')
                      else if v < - (2 ^ (w - 1)) then (- (2 ^ (w - 1)), Some ''value out of range'')
                      else (v, None)))"

lemma digit_char_code [simp]: "d < 10 \<Longrightarrow> of_char (digit_char d) = (48 + d :: nat)"
  by (simp add: digit_char_def)

lemma is_digit_digit_char [simp]: "d < 10 \<Longrightarrow> is_digit (digit_char d)"
  by (simp add: is_digit_def)

lemma digit_val_digit_char [simp]: "d < 10 \<Longrightarrow> digit_val (digit_char d) = d"
  by (simp add: digit_val_def)

lemma digits_val_append:
  "digits_val acc (xs @ ys) = Option.bind (digits_val acc xs) (\<lambda>a. digits_val a ys)"
  by (induction xs arbitrary: acc) auto

lemma dec_of_nonempty [simp]: "dec_of n \<noteq> []"
  by (subst dec_of.simps) simp

lemma dec_of_digits: "c \<in> set (dec_of n) \<Longrightarrow> is_digit c"
proof (induction n rule: dec_of.induct)
  case (1 n)
  then show ?case
    by (cases "n < 10") (auto simp: dec_of.simps [of n])
qed

lemma digits_val_dec_of: "digits_val 0 (dec_of n) = Some n"
proof (induction n rule: dec_of.induct)
  case (1 n)
  show ?case
  proof (cases "n < 10")
    case True
    then show ?thesis by (simp add: dec_of.simps [of n])
  next
    case False
    with 1 have "digits_val 0 (dec_of (n div 10)) = Some (n div 10)" by simp
    with False show ?thesis
      by (simp add: dec_of.simps [of n] digits_val_append)
  qed
qed

lemma is_digit_not_sign: "is_digit c \<Longrightarrow> c \<noteq> CHR ''-'' \<and> c \<noteq> CHR ''+''"
  by (auto simp: is_digit_def)

lemma hd_dec_of_digit: "is_digit (hd (dec_of n))"
  by (rule dec_of_digits [of _ n]) simp

lemma atoi_dec_of:
  assumes "int n < 2 ^ (w - 1)"
  shows "atoi w (dec_of n) = (int n, None)"
proof -
  have "hd (dec_of n) \<noteq> CHR ''-'' \<and> hd (dec_of n) \<noteq> CHR ''+''"
    by (rule is_digit_not_sign) (rule hd_dec_of_digit)
  moreover have "- (2 ^ (w - 1)) \<le> int n"
    by (rule order.trans [of _ 0]) simp_all
  ultimately show ?thesis
    using assms by (simp add: atoi_def digits_val_dec_of)
qed

lemma atoi_dec_of_big:
  assumes "int n \<ge> 2 ^ (w - 1)"
  shows "atoi w (dec_of n) = (2 ^ (w - 1) - 1, Some ''value out of range'')"
proof -
  have "hd (dec_of n) \<noteq> CHR ''-'' \<and> hd (dec_of n) \<noteq> CHR ''+''"
    by (rule is_digit_not_sign) (rule hd_dec_of_digit)
  then show ?thesis
    using assms by (simp add: atoi_def digits_val_dec_of)
qed

lemma dec_of_inject [simp]: "dec_of m = dec_of n \<longleftrightarrow> m = n"
  by (metis digits_val_dec_of option.inject)

lemma dec_u32_inject [simp]: "dec_u32 a = dec_u32 b \<longleftrightarrow> a = b"
  by (simp add: dec_u32_def word_unat_eq_iff)

lemma inj_dec_u32: "inj dec_u32"
  by (simp add: inj_def)

end
