(* ===== verification/Range_Loop.thy ===== *)
theory Range_Loop
  imports Prelude
begin

text \<open>
  Go's \<^verbatim>\<open>for k, v := range m\<close> over a map, whose order the language leaves open, and the
  contract of the loops that close some of the entries they visit. The loop is defined
  once; its contract is the locale \<open>closing_loop\<close>, which the client and the server
  interpret on their own loop bodies.
\<close>

section \<open>What the environment decides\<close>

text \<open>
  An oracle answers, for every point of a call, what the program does not decide itself: the
  order of the next \<^verbatim>\<open>range\<close> over a map, the error of the next write to a KCP session, the time
  (in nanoseconds). A point is the list of loop keys (and call numbers) that lead to it, so two loops, or two
  rounds of one loop, may get different answers.
\<close>

record answer =
  a_order :: "u32 list"
  a_write :: "go_error option"
  a_now :: int

type_synonym answers = "u32 list \<Rightarrow> answer"

definition sub_oracle :: "u32 \<Rightarrow> answers \<Rightarrow> answers" where
  "sub_oracle k orc = (\<lambda>p. orc (k # p))"

definition covers :: "answers \<Rightarrow> u32 set \<Rightarrow> bool" where
  "covers orc K \<longleftrightarrow> (\<forall>p. distinct (a_order (orc p)) \<and> K \<subseteq> set (a_order (orc p)))"

lemma covers_sub [simp, intro]: "covers orc K \<Longrightarrow> covers (sub_oracle k orc) K"
  by (simp add: covers_def sub_oracle_def)

lemma covers_mono: "covers orc K \<Longrightarrow> L \<subseteq> K \<Longrightarrow> covers orc L"
  by (auto simp: covers_def)

lemma covers_order: "covers orc K \<Longrightarrow> K \<subseteq> set (a_order (orc p))"
  by (simp add: covers_def)

lemma covers_distinct: "covers orc K \<Longrightarrow> distinct (a_order (orc p))"
  by (simp add: covers_def)

section \<open>The loop\<close>

text \<open>
  \<open>tbl s\<close> is the map in state \<open>s\<close>. A key that is no longer in the map when its turn
  comes is skipped, which is what Go does with entries deleted during the iteration.
\<close>

fun for_range ::
  "('s \<Rightarrow> u32 \<rightharpoonup> 'v) \<Rightarrow> (u32 \<Rightarrow> 'v \<Rightarrow> 's \<Rightarrow> 's outcome) \<Rightarrow> u32 list \<Rightarrow> 's \<Rightarrow> 's outcome"
where
  "for_range tbl body [] s = Ret s"
| "for_range tbl body (k # ks) s =
     (case tbl s k of
        None \<Rightarrow> for_range tbl body ks s
      | Some v \<Rightarrow> obind (body k v s) (for_range tbl body ks))"

text \<open>A loop whose body does nothing, and a loop whose body acts on one key only.\<close>

lemma for_range_idle:
  assumes "\<And>j w. tbl s j = Some w \<Longrightarrow> body j w s = Ret s"
  shows "for_range tbl body ks s = Ret s"
  using assms by (induction ks) (auto split: option.splits)

lemma for_range_single:
  assumes "k \<in> set ks" "tbl s k = Some v" "body k v s = Ret s'"
    and before: "\<And>j w. j \<noteq> k \<Longrightarrow> tbl s j = Some w \<Longrightarrow> body j w s = Ret s"
    and after: "\<And>j w. tbl s' j = Some w \<Longrightarrow> body j w s' = Ret s'"
  shows "for_range tbl body ks s = Ret s'"
  using assms(1)
proof (induction ks)
  case Nil
  then show ?case by simp
next
  case (Cons j ks)
  show ?case
  proof (cases "j = k")
    case True
    then show ?thesis using assms(2,3) for_range_idle [of tbl s' body ks] after by simp
  next
    case False
    then show ?thesis using Cons before [of j] by (auto split: option.splits)
  qed
qed

text \<open>What every round keeps, the loop keeps.\<close>

lemma for_range_keeps:
  assumes "\<And>k v s s'. I s \<Longrightarrow> tbl s k = Some v \<Longrightarrow> body k v s = Ret s' \<Longrightarrow> I s'"
    and "I s" "for_range tbl body ks s = Ret s'"
  shows "I s'"
  using assms(2,3)
proof (induction ks arbitrary: s)
  case Nil
  then show ?case by simp
next
  case (Cons k ks)
  show ?case
  proof (cases "tbl s k")
    case None
    with Cons show ?thesis by simp
  next
    case (Some v)
    with Cons.prems(2) obtain t where "body k v s = Ret t" "for_range tbl body ks t = Ret s'"
      by (auto simp: outcome_simps)
    with Cons Some assms(1) show ?thesis by blast
  qed
qed

lemma for_range_total:
  assumes "\<And>k v s. I s \<Longrightarrow> tbl s k = Some v \<Longrightarrow> \<exists>s'. body k v s = Ret s' \<and> I s'" and "I s"
  shows "\<exists>s'. for_range tbl body ks s = Ret s' \<and> I s'"
  using assms(2)
proof (induction ks arbitrary: s)
  case Nil
  then show ?case by simp
next
  case (Cons k ks)
  then show ?case
    using assms(1) [OF Cons.prems, of k] by (cases "tbl s k") auto
qed

section \<open>Loops that close what they select\<close>

text \<open>
  \<open>keep_unless K sel m\<close> is the map without the entries with key in \<open>K\<close> that \<open>sel\<close> selects.
\<close>

definition keep_unless :: "u32 set \<Rightarrow> (u32 \<Rightarrow> 'v \<Rightarrow> bool) \<Rightarrow> (u32 \<rightharpoonup> 'v) \<Rightarrow> (u32 \<rightharpoonup> 'v)" where
  "keep_unless K sel m =
     (\<lambda>k. case m k of None \<Rightarrow> None | Some v \<Rightarrow> if k \<in> K \<and> sel k v then None else Some v)"

lemma keep_unless_empty [simp]: "keep_unless {} sel m = m"
  by (rule ext) (simp add: keep_unless_def split: option.splits)

lemma keep_unless_apply:
  "keep_unless K sel m k = Some v \<longleftrightarrow> m k = Some v \<and> \<not> (k \<in> K \<and> sel k v)"
  by (auto simp: keep_unless_def split: option.splits)

lemma dom_keep_unless_subset: "dom (keep_unless K sel m) \<subseteq> dom m"
  by (auto simp: keep_unless_def split: option.splits)

lemma keep_unless_cover:
  "dom m \<subseteq> K \<Longrightarrow> keep_unless K sel m = keep_unless UNIV sel m"
  by (rule ext) (auto simp: keep_unless_def split: option.splits)

locale closing_loop =
  fixes tbl :: "'s \<Rightarrow> u32 \<rightharpoonup> 'v"
    and sel :: "'s \<Rightarrow> u32 \<Rightarrow> 'v \<Rightarrow> bool"
    and body :: "u32 \<Rightarrow> 'v \<Rightarrow> 's \<Rightarrow> 's outcome"
    and inv :: "'s \<Rightarrow> bool"
    and frame :: "'s \<Rightarrow> 's \<Rightarrow> bool"
  assumes frame_refl: "frame s s"
    and frame_trans: "frame s t \<Longrightarrow> frame t u \<Longrightarrow> frame s u"
    and body_total: "inv s \<Longrightarrow> tbl s k = Some v \<Longrightarrow> \<exists>s'. body k v s = Ret s'"
    and body_inv: "inv s \<Longrightarrow> tbl s k = Some v \<Longrightarrow> body k v s = Ret s' \<Longrightarrow> inv s'"
    and body_frame: "inv s \<Longrightarrow> tbl s k = Some v \<Longrightarrow> body k v s = Ret s' \<Longrightarrow> frame s s'"
    and body_tbl: "inv s \<Longrightarrow> tbl s k = Some v \<Longrightarrow> body k v s = Ret s' \<Longrightarrow>
      tbl s' = (if sel s k v then (tbl s)(k := None) else tbl s)"
    and body_sel: "inv s \<Longrightarrow> tbl s k = Some v \<Longrightarrow> body k v s = Ret s' \<Longrightarrow>
      tbl s' k' = Some v' \<Longrightarrow> sel s' k' v' = sel s k' v'"
begin

lemma keep_unless_step:
  assumes "inv s" "tbl s k = Some v" "body k v s = Ret s'"
  shows "keep_unless K (sel s') (tbl s') = keep_unless (insert k K) (sel s) (tbl s)"
proof
  fix j
  show "keep_unless K (sel s') (tbl s') j = keep_unless (insert k K) (sel s) (tbl s) j"
    using assms body_tbl [OF assms] body_sel [OF assms, of j]
    by (cases "tbl s' j") (auto simp: keep_unless_def split: option.splits if_splits)
qed

lemma loop_closes:
  "inv s \<Longrightarrow> \<exists>s'. for_range tbl body ks s = Ret s' \<and> inv s' \<and> frame s s' \<and>
     tbl s' = keep_unless (set ks) (sel s) (tbl s)"
proof (induction ks arbitrary: s)
  case Nil
  then show ?case by (simp add: frame_refl)
next
  case (Cons k ks)
  show ?case
  proof (cases "tbl s k")
    case None
    then have "keep_unless (set (k # ks)) (sel s) (tbl s) = keep_unless (set ks) (sel s) (tbl s)"
      by (intro ext) (auto simp: keep_unless_def split: option.splits)
    with Cons None show ?thesis by simp
  next
    case (Some v)
    then obtain t where t: "body k v s = Ret t" using body_total Cons.prems by blast
    note step = Cons.prems Some t
    from Cons.IH [OF body_inv [OF step]] obtain s' where
      "for_range tbl body ks t = Ret s'" "inv s'" "frame t s'"
      "tbl s' = keep_unless (set ks) (sel t) (tbl t)" by blast
    then show ?thesis
      using Some t keep_unless_step [OF step, of "set ks"] frame_trans [OF body_frame [OF step]]
      by simp
  qed
qed

lemma loop_closes_all:
  assumes "inv s" "dom (tbl s) \<subseteq> set ks"
  shows "\<exists>s'. for_range tbl body ks s = Ret s' \<and> inv s' \<and> frame s s' \<and>
     tbl s' = keep_unless UNIV (sel s) (tbl s)"
  using loop_closes [OF assms(1), of ks] keep_unless_cover [OF assms(2), of "sel s"] by simp

end

section \<open>Such a loop for every tunnel\<close>

text \<open>
  The HELLO rounds: an outer loop over the tunnels whose body is a closing loop over the
  connections of one tunnel, in the order \<open>order t\<close>.
\<close>

locale nested_rounds =
  fixes outer :: "'s \<Rightarrow> u32 \<rightharpoonup> 'b"
    and tbl :: "u32 \<Rightarrow> 's \<Rightarrow> u32 \<rightharpoonup> 'v"
    and sel :: "u32 \<Rightarrow> 's \<Rightarrow> u32 \<Rightarrow> 'v \<Rightarrow> bool"
    and body :: "u32 \<Rightarrow> u32 \<Rightarrow> 'v \<Rightarrow> 's \<Rightarrow> 's outcome"
    and inv :: "'s \<Rightarrow> bool"
    and frame :: "u32 \<Rightarrow> 's \<Rightarrow> 's \<Rightarrow> bool"
    and order :: "u32 \<Rightarrow> u32 list"
  assumes rounds: "closing_loop (tbl t) (sel t) (body t) inv (frame t)"
    and frame_tbl: "frame t s s' \<Longrightarrow> t' \<noteq> t \<Longrightarrow> tbl t' s' = tbl t' s"
    and frame_sel: "frame t s s' \<Longrightarrow> sel t' s' = sel t' s"
    and order_covers: "inv s \<Longrightarrow> dom (tbl t s) \<subseteq> set (order t)"
    and no_tunnel: "outer s t = None \<Longrightarrow> tbl t s = Map.empty"
begin

lemma one_round:
  "inv s \<Longrightarrow> \<exists>s'. for_range (tbl t) (body t) (order t) s = Ret s' \<and> inv s' \<and> frame t s s' \<and>
     tbl t s' = keep_unless UNIV (sel t s) (tbl t s)"
  using closing_loop.loop_closes_all [OF rounds] order_covers by blast

lemma some_rounds:
  assumes "inv s" "distinct ts"
  shows "\<exists>s'. for_range outer (\<lambda>t b. for_range (tbl t) (body t) (order t)) ts s = Ret s' \<and> inv s' \<and>
     (\<forall>t. tbl t s' = (if t \<in> set ts then keep_unless UNIV (sel t s) (tbl t s) else tbl t s))"
  using assms
proof (induction ts arbitrary: s)
  case Nil
  then show ?case by simp
next
  case (Cons t ts)
  show ?case
  proof (cases "outer s t")
    case None
    then have "keep_unless UNIV (sel t s) (tbl t s) = tbl t s"
      by (simp add: no_tunnel keep_unless_def)
    moreover obtain v where "for_range outer (\<lambda>t b. for_range (tbl t) (body t) (order t)) ts s = Ret v"
      "inv v" "\<forall>t. tbl t v = (if t \<in> set ts then keep_unless UNIV (sel t s) (tbl t s) else tbl t s)"
      using Cons by auto
    ultimately show ?thesis using None by auto
  next
    case (Some b)
    obtain u where u: "for_range (tbl t) (body t) (order t) s = Ret u" "inv u" "frame t s u"
      "tbl t u = keep_unless UNIV (sel t s) (tbl t s)"
      using one_round [OF Cons.prems(1), of t] by blast
    obtain v where v: "for_range outer (\<lambda>t b. for_range (tbl t) (body t) (order t)) ts u = Ret v" "inv v"
      "\<forall>t. tbl t v = (if t \<in> set ts then keep_unless UNIV (sel t u) (tbl t u) else tbl t u)"
      using Cons.IH [OF u(2)] Cons.prems(2) by auto
    have "tbl t' v = (if t' \<in> set (t # ts) then keep_unless UNIV (sel t' s) (tbl t' s) else tbl t' s)" for t'
      using v(3) u(4) Cons.prems(2) frame_sel [OF u(3), of t'] frame_tbl [OF u(3), of t']
      by (cases "t' = t") auto
    with Some u(1) v show ?thesis by auto
  qed
qed

lemma all_rounds:
  assumes "inv s" "distinct ts" "dom (outer s) \<subseteq> set ts"
  shows "\<exists>s'. for_range outer (\<lambda>t b. for_range (tbl t) (body t) (order t)) ts s = Ret s' \<and> inv s' \<and>
     (\<forall>t. tbl t s' = keep_unless UNIV (sel t s) (tbl t s))"
proof -
  obtain s' where s': "for_range outer (\<lambda>t b. for_range (tbl t) (body t) (order t)) ts s = Ret s'" "inv s'"
    "\<forall>t. tbl t s' = (if t \<in> set ts then keep_unless UNIV (sel t s) (tbl t s) else tbl t s)"
    using some_rounds [OF assms(1,2)] by blast
  have "tbl t s' = keep_unless UNIV (sel t s) (tbl t s)" for t
  proof (cases "t \<in> set ts")
    case False
    then have "tbl t s = Map.empty" using assms(3) no_tunnel by blast
    with False s'(3) show ?thesis by (simp add: keep_unless_def)
  qed (use s'(3) in simp)
  with s' show ?thesis by blast
qed

end

end
