(* ===== verification/Go_Net.thy ===== *)
theory Go_Net
  imports Prelude
begin

text \<open>
  The part of Go's standard packages \<^verbatim>\<open>net\<close> and \<^verbatim>\<open>net/netip\<close> the program relies on: addresses
  as byte slices, their text form and its parser, masks and networks, private ranges, and the
  text of a UDP address. Parsing and printing of IPv6 text are arguments of the functions
  that meet them.
\<close>

unbundle bit_operations_syntax

section \<open>Addresses and their text\<close>

type_synonym ip = "u8 list"

definition v4InV6Prefix :: "u8 list" where
  "v4InV6Prefix = replicate 10 0 @ [255, 255]"

definition To4 :: "ip \<Rightarrow> ip option" where
  "To4 a = (if length a = 4 then Some a
            else if length a = 16 \<and> take 12 a = v4InV6Prefix then Some (drop 12 a)
            else None)"

definition hex2 :: "u8 \<Rightarrow> string" where
  "hex2 b = [hex_char (unat b div 16), hex_char (unat b mod 16)]"

definition hexString :: "u8 list \<Rightarrow> string" where
  "hexString bs = concat (map hex2 bs)"

fun dotted :: "u8 list \<Rightarrow> string" where
  "dotted [] = ''''"
| "dotted [b] = dec_of (unat b)"
| "dotted (b # bs) = dec_of (unat b) @ ''.'' @ dotted bs"

definition IP_String :: "(ip \<Rightarrow> string) \<Rightarrow> ip \<Rightarrow> string" where
  "IP_String v6 a =
     (if a = [] then ''<nil>''
      else if length a \<noteq> 4 \<and> length a \<noteq> 16 then ''?'' @ hexString a
      else case To4 a of Some q \<Rightarrow> dotted q | None \<Rightarrow> v6 a)"

lemma length_To4: "To4 a = Some q \<Longrightarrow> length q = 4"
  by (auto simp: To4_def split: if_splits)

lemma To4_4 [simp]: "length a = 4 \<Longrightarrow> To4 a = Some a"
  by (simp add: To4_def)

lemma IP_String_4 [simp]: "length a = 4 \<Longrightarrow> IP_String v6 a = dotted a"
  by (auto simp: IP_String_def)

section \<open>Parsing\<close>

text \<open>
  \<^verbatim>\<open>netip.parseIPv4Fields\<close>: \<open>val\<close> is the value of the current octet, \<open>n\<close> how many digits it has
  so far and \<open>fs\<close> the octets before it.
\<close>

fun ipv4_fields :: "nat \<Rightarrow> nat \<Rightarrow> u8 list \<Rightarrow> string \<Rightarrow> u8 list option" where
  "ipv4_fields val n fs [] = (if length fs < 3 then None else Some (fs @ [of_nat val]))"
| "ipv4_fields val n fs (c # cs) =
     (if is_digit c then
        (if n = 1 \<and> val = 0 then None
         else if val * 10 + digit_val c > 255 then None
         else ipv4_fields (val * 10 + digit_val c) (Suc n) fs cs)
      else if c = CHR ''.'' then
        (if n = 0 \<or> cs = [] then None
         else if length fs = 3 then None
         else ipv4_fields 0 0 (fs @ [of_nat val]) cs)
      else None)"

definition parseIPv4 :: "string \<Rightarrow> ip option" where
  "parseIPv4 s = ipv4_fields 0 0 [] s"

text \<open>
  \<^verbatim>\<open>netip.ParseAddr\<close>: the first of the characters dot, colon and percent decides how to go
  on. The result is the 4 or 16 bytes of the address.
\<close>

fun parse_addr_scan :: "(string \<Rightarrow> ip option) \<Rightarrow> string \<Rightarrow> string \<Rightarrow> ip option" where
  "parse_addr_scan p6 s [] = None"
| "parse_addr_scan p6 s (c # cs) =
     (if c = CHR ''.'' then parseIPv4 s
      else if c = CHR '':'' then p6 s
      else if c = CHR ''%'' then None
      else parse_addr_scan p6 s cs)"

definition ParseAddr :: "(string \<Rightarrow> ip option) \<Rightarrow> string \<Rightarrow> ip option" where
  "ParseAddr p6 s = parse_addr_scan p6 s s"

text \<open>\<^verbatim>\<open>net.ParseIP\<close>: nil (\<open>None\<close>) when the text is not an address; an IPv4 address is returned in
  its 16-byte form.\<close>

definition As16 :: "ip \<Rightarrow> ip" where
  "As16 a = (if length a = 4 then v4InV6Prefix @ a else a)"

definition ParseIP :: "(string \<Rightarrow> ip option) \<Rightarrow> string \<Rightarrow> ip option" where
  "ParseIP p6 s = map_option As16 (ParseAddr p6 s)"

text \<open>\<^verbatim>\<open>IP.IsPrivate\<close>; a nil IP is not private.\<close>

definition IsPrivate :: "ip option \<Rightarrow> bool" where
  "IsPrivate a =
     (case a of
        None \<Rightarrow> False
      | Some x \<Rightarrow>
          (case To4 x of
             Some q \<Rightarrow> q ! 0 = 10 \<or> (q ! 0 = 172 \<and> q ! 1 AND 0xf0 = 16) \<or> (q ! 0 = 192 \<and> q ! 1 = 168)
           | None \<Rightarrow> length x = 16 \<and> x ! 0 AND 0xfe = 0xfc))"

section \<open>The text of a UDP address\<close>

text \<open>\<^verbatim>\<open>UDPAddr.String\<close> through \<^verbatim>\<open>JoinHostPort\<close>: hosts with a colon are put in brackets.\<close>

definition JoinHostPort :: "string \<Rightarrow> string \<Rightarrow> string" where
  "JoinHostPort host port =
     (if CHR '':'' \<in> set host \<or> CHR ''%'' \<in> set host then ''['' @ host @ '']:'' @ port
      else host @ '':'' @ port)"

definition UDPAddr_String :: "(ip \<Rightarrow> string) \<Rightarrow> ip \<Rightarrow> u16 \<Rightarrow> string" where
  "UDPAddr_String v6 a port =
     JoinHostPort (if a = [] then '''' else IP_String v6 a) (dec_of (unat port))"

section \<open>Masks and networks\<close>

text \<open>\<^verbatim>\<open>net.CIDRMask\<close> for \<open>len\<close> bytes: \<open>n\<close> leading one bits.\<close>

fun cidr_bytes :: "nat \<Rightarrow> nat \<Rightarrow> u8 list" where
  "cidr_bytes n 0 = []"
| "cidr_bytes n (Suc len) =
     (if n \<ge> 8 then 255 # cidr_bytes (n - 8) len
      else NOT (drop_bit n 255) # cidr_bytes 0 len)"

definition IP_Mask :: "ip \<Rightarrow> u8 list \<Rightarrow> ip" where
  "IP_Mask a m0 =
     (let m = (if length m0 = 16 \<and> length a = 4 \<and> take 12 m0 = replicate 12 255 then drop 12 m0 else m0);
          b = (if length m = 4 \<and> length a = 16 \<and> take 12 a = v4InV6Prefix then drop 12 a else a)
      in if length b \<noteq> length m then [] else map2 (AND) b m)"

record ipnet =
  net_IP :: ip
  net_Mask :: "u8 list"

text \<open>\<^verbatim>\<open>IPNet.Contains\<close> for a network whose number and mask have the same length, which is what
  \<^verbatim>\<open>ParseCIDR\<close> returns.\<close>

definition Contains :: "ipnet \<Rightarrow> ip \<Rightarrow> bool" where
  "Contains nt a =
     (let nn = (case To4 (net_IP nt) of Some q \<Rightarrow> q | None \<Rightarrow> net_IP nt);
          x = (case To4 a of Some q \<Rightarrow> q | None \<Rightarrow> a)
      in length x = length nn \<and> length nn = length (net_Mask nt) \<and>
         map2 (AND) nn (net_Mask nt) = map2 (AND) x (net_Mask nt))"

definition IPMask_String :: "u8 list \<Rightarrow> string" where
  "IPMask_String m = (if m = [] then ''<nil>'' else hexString m)"

text \<open>
  \<^verbatim>\<open>net.ParseCIDR\<close>: the address and the network, or an error. \<open>dtoi\<close> reads the
  prefix length (the limit is \<^verbatim>\<open>0xFFFFFF\<close>).
\<close>

fun dtoi :: "nat \<Rightarrow> string \<Rightarrow> nat option" where
  "dtoi acc [] = Some acc"
| "dtoi acc (c # cs) =
     (if is_digit c then
        (if acc * 10 + digit_val c \<ge> 0xFFFFFF then None else dtoi (acc * 10 + digit_val c) cs)
      else None)"

definition ParseCIDR :: "(string \<Rightarrow> ip option) \<Rightarrow> string \<Rightarrow> go_error + (ip \<times> ipnet)" where
  "ParseCIDR p6 s =
     (if CHR ''/'' \<notin> set s then Inl ''invalid CIDR address''
      else let addr = takeWhile (\<lambda>c. c \<noteq> CHR ''/'') s;
               mask = tl (dropWhile (\<lambda>c. c \<noteq> CHR ''/'') s)
      in case ParseAddr p6 addr of
           None \<Rightarrow> Inl ''invalid CIDR address''
         | Some a \<Rightarrow>
             (if mask = [] then Inl ''invalid CIDR address''
              else case dtoi 0 mask of
                None \<Rightarrow> Inl ''invalid CIDR address''
              | Some n \<Rightarrow>
                  (if n > 8 * length a then Inl ''invalid CIDR address''
                   else let m = cidr_bytes n (length a)
                        in Inr (As16 a, \<lparr>net_IP = IP_Mask (As16 a) m, net_Mask = m\<rparr>))))"

section \<open>Lemmas\<close>

lemma ipv4_fields_bad:
  assumes "c \<in> set s" "\<not> is_digit c" "c \<noteq> CHR ''.''"
  shows "ipv4_fields v n fs s = None"
  using assms
proof (induction s arbitrary: v n fs)
  case Nil
  then show ?case by simp
next
  case (Cons d s)
  then show ?case by (cases "c = d") auto
qed

lemma length_ipv4_fields:
  "ipv4_fields v n fs s = Some q \<Longrightarrow> length fs \<le> 3 \<Longrightarrow> length q = 4"
  by (induction v n fs s rule: ipv4_fields.induct) (auto split: if_splits)

lemma length_parseIPv4: "parseIPv4 s = Some q \<Longrightarrow> length q = 4"
  by (simp add: parseIPv4_def length_ipv4_fields)

lemma parse_addr_scan_dot:
  assumes "\<forall>c \<in> set xs. is_digit c"
  shows "parse_addr_scan p6 s (xs @ CHR ''.'' # ys) = parseIPv4 s"
  using assms by (induction xs) (auto simp: is_digit_def)

lemma length_cidr_bytes [simp]: "length (cidr_bytes n len) = len"
  by (induction n len rule: cidr_bytes.induct) auto

lemma IsPrivate_None [simp]: "\<not> IsPrivate None"
  by (simp add: IsPrivate_def)

lemma dotted_4:
  "dotted [a, b, c, d] =
     dec_of (unat a) @ ''.'' @ dec_of (unat b) @ ''.'' @ dec_of (unat c) @ ''.'' @ dec_of (unat d)"
  by simp

lemma length_4_cases:
  assumes "length xs = 4"
  obtains a b c d where "xs = [a, b, c, d]"
  using assms by (auto simp: length_Suc_conv numeral_eq_Suc)

lemma dotted_chars:
  assumes "length q = 4" "x \<in> set (dotted q)"
  shows "is_digit x \<or> x = CHR ''.''"
  using assms(1)
proof (rule length_4_cases)
  fix a b c d
  assume "q = [a, b, c, d]"
  with assms(2) show ?thesis by (auto dest: dec_of_digits)
qed

lemma dotted_no_colon:
  assumes "length q = 4"
  shows "CHR '':'' \<notin> set (dotted q)" "CHR ''%'' \<notin> set (dotted q)"
  using dotted_chars [OF assms, of "CHR '':''"] dotted_chars [OF assms, of "CHR ''%''"]
  by (auto simp: is_digit_def)

lemma UDPAddr_String_4:
  "length q = 4 \<Longrightarrow> UDPAddr_String v6 q port = dotted q @ '':'' @ dec_of (unat port)"
  by (auto simp: UDPAddr_String_def JoinHostPort_def dotted_no_colon)

text \<open>The text of an IPv4 UDP address is never the text of an IP address.\<close>

lemma ParseIP_UDPAddr:
  assumes "length q = 4"
  shows "ParseIP p6 (UDPAddr_String v6 q port) = None"
  using assms
proof (rule length_4_cases)
  fix a b c d
  assume q: "q = [a, b, c, d]"
  let ?s = "UDPAddr_String v6 q port"
  obtain rest where s: "?s = dec_of (unat a) @ CHR ''.'' # rest"
    using UDPAddr_String_4 [OF assms, of v6 port] by (simp add: q)
  have "parse_addr_scan p6 ?s (dec_of (unat a) @ CHR ''.'' # rest) = parseIPv4 ?s"
    by (rule parse_addr_scan_dot) (auto dest: dec_of_digits)
  then have "parse_addr_scan p6 ?s ?s = parseIPv4 ?s"
    by (simp only: s)
  moreover have "parseIPv4 ?s = None"
    unfolding parseIPv4_def
    by (rule ipv4_fields_bad [of "CHR '':''"]) (auto simp: UDPAddr_String_4 [OF assms] is_digit_def)
  ultimately show ?thesis by (simp add: ParseIP_def ParseAddr_def)
qed

section \<open>The text of a network\<close>

text \<open>\<^verbatim>\<open>net.networkNumberAndMask\<close>, \<^verbatim>\<open>net.simpleMaskLength\<close> and \<^verbatim>\<open>IPNet.String\<close>; \<open>None\<close> is a nil \<^verbatim>\<open>*IPNet\<close>.\<close>

definition networkNumberAndMask :: "ipnet \<Rightarrow> (ip \<times> u8 list) option" where
  "networkNumberAndMask n =
     (let a = (case To4 (net_IP n) of Some q \<Rightarrow> q | None \<Rightarrow> net_IP n); m = net_Mask n
      in if length a \<noteq> 4 \<and> length a \<noteq> 16 then None
         else if length m = 4 then (if length a \<noteq> 4 then None else Some (a, m))
         else if length m = 16 then Some (a, if length a = 4 then drop 12 m else m)
         else None)"

text \<open>The loop that counts the leading ones of a byte and shifts them out; eight rounds suffice.\<close>

fun lead_ones :: "nat \<Rightarrow> u8 \<Rightarrow> nat \<times> u8" where
  "lead_ones 0 v = (0, v)"
| "lead_ones (Suc fuel) v =
     (if v AND 0x80 \<noteq> 0 then (let (n, w) = lead_ones fuel (push_bit 1 v) in (Suc n, w)) else (0, v))"

fun simpleMaskLength :: "nat \<Rightarrow> u8 list \<Rightarrow> int" where
  "simpleMaskLength n [] = int n"
| "simpleMaskLength n (v # vs) =
     (if v = 0xff then simpleMaskLength (n + 8) vs
      else let (k, w) = lead_ones 8 v
           in if w \<noteq> 0 \<or> list_ex (\<lambda>x. x \<noteq> 0) vs then - 1 else int (n + k))"

definition IPNet_String :: "(ip \<Rightarrow> string) \<Rightarrow> ipnet option \<Rightarrow> string" where
  "IPNet_String v6 nt =
     (case nt of
        None \<Rightarrow> ''<nil>''
      | Some n \<Rightarrow>
          (case networkNumberAndMask n of
             None \<Rightarrow> ''<nil>''
           | Some (a, m) \<Rightarrow>
               (let k = simpleMaskLength 0 m
                in IP_String v6 a @ ''/'' @ (if k = - 1 then IPMask_String m else dec_of (nat k)))))"

section \<open>Printing and parsing IPv4 addresses\<close>

lemma dec_of_0: "dec_of 0 = ''0''"
  by code_simp

lemma code_48: "of_char c = (48 :: nat) \<Longrightarrow> c = CHR ''0''"
proof -
  assume "of_char c = (48 :: nat)"
  then have "of_char c = (of_char (CHR ''0'') :: nat)" by simp
  then show ?thesis by (simp only: of_char_eq_iff)
qed

lemma digits_val_mono: "digits_val v ds = Some x \<Longrightarrow> v \<le> x"
proof (induction ds arbitrary: v)
  case Nil
  then show ?case by simp
next
  case (Cons c ds)
  then have "v * 10 + digit_val c \<le> x" by (auto split: if_splits)
  then show ?case by simp
qed

text \<open>Reading the digits of one octet; the octet starts with no digit read.\<close>

lemma ipv4_fields_digits:
  assumes "digits_val v ds = Some x" "x \<le> 255" "v \<noteq> 0 \<or> n \<noteq> 1"
    and "v = 0 \<longrightarrow> n = 0 \<and> (ds \<noteq> [] \<and> hd ds = CHR ''0'' \<longrightarrow> ds = ''0'')"
  shows "ipv4_fields v n fs (ds @ rest) = ipv4_fields x (n + length ds) fs rest"
  using assms
proof (induction ds arbitrary: v n)
  case Nil
  then show ?case by simp
next
  case (Cons c ds)
  have d: "is_digit c" and e: "digits_val (v * 10 + digit_val c) ds = Some x"
    using Cons.prems(1) by (auto split: if_splits)
  have le: "v * 10 + digit_val c \<le> x" using digits_val_mono [OF e] .
  show ?case
  proof (cases "v * 10 + digit_val c = 0")
    case True
    then have "c = CHR ''0''" using d by (intro code_48) (auto simp: is_digit_def digit_val_def)
    with Cons.prems True e show ?thesis by (auto simp: is_digit_def digit_val_def)
  next
    case False
    then show ?thesis
      using Cons.prems d e le Cons.IH [OF e Cons.prems(2), of "Suc n"] by auto
  qed
qed

lemma dec_of_no_leading_zero: "hd (dec_of n) = CHR ''0'' \<Longrightarrow> dec_of n = ''0''"
proof (induction n rule: dec_of.induct)
  case (1 n)
  show ?case
  proof (cases "n < 10")
    case True
    have "of_char (digit_char n) = 48 + n" using True by simp
    moreover have "digit_char n = CHR ''0''" using 1(2) True by (simp add: dec_of.simps [of n])
    ultimately have "n = 0" by simp
    then show ?thesis by (simp add: dec_of_0)
  next
    case False
    then have "hd (dec_of (n div 10)) = CHR ''0''" using 1(2) by (simp add: dec_of.simps [of n])
    with 1(1) False have "dec_of (n div 10) = ''0''" by simp
    then have "dec_of (n div 10) = dec_of 0" by (simp add: dec_of_0)
    with False show ?thesis by simp
  qed
qed

lemma ipv4_fields_octet:
  assumes "n \<le> 255"
  shows "ipv4_fields 0 0 fs (dec_of n @ rest) = ipv4_fields n (length (dec_of n)) fs rest"
  using ipv4_fields_digits [OF digits_val_dec_of assms, of 0 fs rest] dec_of_no_leading_zero [of n] by simp

text \<open>\<^verbatim>\<open>ParseIP\<close> reads back what \<^verbatim>\<open>IP.String\<close> prints.\<close>

lemma parseIPv4_dotted:
  assumes "length q = 4"
  shows "parseIPv4 (dotted q) = Some q"
  using assms
proof (rule length_4_cases)
  fix a b c d
  assume q: "q = [a, b, c, d]"
  have le: "unat x \<le> 255" for x :: u8 using unsigned_less [of x, where ?'a = nat] by simp
  have dot: "ipv4_fields (unat x) (length (dec_of (unat x))) fs (CHR ''.'' # dec_of m @ ys) =
      ipv4_fields 0 0 (fs @ [x]) (dec_of m @ ys)" if "length fs < 3" for x :: u8 and fs m ys
    using that by (simp add: is_digit_def)
  have step: "ipv4_fields 0 0 fs (dec_of (unat x) @ CHR ''.'' # dec_of m @ ys) = ipv4_fields 0 0 (fs @ [x]) (dec_of m @ ys)"
    if "length fs < 3" for x :: u8 and fs m ys
    by (simp only: ipv4_fields_octet [OF le] dot [OF that])
  have last: "ipv4_fields 0 0 fs (dec_of (unat x)) = Some (fs @ [x])" if "length fs = 3" for x :: u8 and fs
    using ipv4_fields_octet [OF le, of fs x "[]"] that by simp
  have "parseIPv4 (dotted q) =
      ipv4_fields 0 0 [] (dec_of (unat a) @ CHR ''.'' # dec_of (unat b) @ CHR ''.'' # dec_of (unat c) @ CHR ''.'' # dec_of (unat d))"
    by (simp add: parseIPv4_def q del: ipv4_fields.simps)
  also have "\<dots> = ipv4_fields 0 0 [a, b, c] (dec_of (unat d))"
    using step [of "[]" a] step [of "[a]" b] step [of "[a, b]" c "unat d" "[]"] by (simp del: ipv4_fields.simps)
  finally show ?thesis using last [of "[a, b, c]" d] by (simp add: q del: ipv4_fields.simps)
qed

lemma dotted_inject: "length q = 4 \<Longrightarrow> length r = 4 \<Longrightarrow> dotted q = dotted r \<longleftrightarrow> q = r"
  by (metis parseIPv4_dotted option.inject)

lemma simpleMaskLength_cidr:
  assumes "n \<le> 32"
  shows "simpleMaskLength 0 (cidr_bytes n 4) = int n"
proof -
  have "list_all (\<lambda>n. simpleMaskLength 0 (cidr_bytes n 4) = int n) [0..<33]" by code_simp
  with assms show ?thesis by (auto simp: list_all_iff)
qed

lemma split_at_slash:
  assumes "c \<notin> set xs" "c \<notin> set ys"
  shows "xs @ c # us = ys @ c # vs \<longleftrightarrow> xs = ys \<and> us = vs"
proof
  assume e: "xs @ c # us = ys @ c # vs"
  have "takeWhile (\<lambda>x. x \<noteq> c) (xs @ c # us) = xs" using assms(1) by (induction xs) auto
  moreover have "takeWhile (\<lambda>x. x \<noteq> c) (ys @ c # vs) = ys" using assms(2) by (induction ys) auto
  ultimately have "xs = ys" using e by simp
  with e show "xs = ys \<and> us = vs" by simp
qed simp

text \<open>Only the default route prints as \<^verbatim>\<open>0.0.0.0/0\<close>.\<close>

lemma IPNet_String_default:
  assumes "length q = 4" "n \<le> 32"
  shows "IPNet_String v6 (Some \<lparr>net_IP = q, net_Mask = cidr_bytes n 4\<rparr>) = ''0.0.0.0/0'' \<longleftrightarrow>
    q = [0, 0, 0, 0] \<and> n = 0"
proof -
  have z: "''0.0.0.0/0'' = dotted [0, 0, 0, 0] @ ''/'' @ dec_of 0"
    by (simp add: dec_of_0)
  have ns: "CHR ''/'' \<notin> set (dotted r)" if "length r = 4" for r
    using dotted_chars [OF that, of "CHR ''/''"] by (auto simp: is_digit_def)
  have "IPNet_String v6 (Some \<lparr>net_IP = q, net_Mask = cidr_bytes n 4\<rparr>) = dotted q @ ''/'' @ dec_of n"
    using assms by (simp add: IPNet_String_def networkNumberAndMask_def simpleMaskLength_cidr)
  moreover have "dotted q @ ''/'' @ dec_of n = dotted [0, 0, 0, 0] @ ''/'' @ dec_of 0 \<longleftrightarrow>
      dotted q = dotted [0, 0, 0, 0] \<and> dec_of n = dec_of 0"
    using split_at_slash [of "CHR ''/''" "dotted q" "dotted [0, 0, 0, 0]" "dec_of n" "dec_of 0"]
      ns [OF assms(1)] ns [of "[0, 0, 0, 0]"] by (simp del: dotted.simps)
  ultimately show ?thesis using z dotted_inject [OF assms(1), of "[0, 0, 0, 0]"] by simp
qed

end
