(* ===== verification/Session.thy ===== *)
theory Session
  imports Range_Loop Go_Net
begin

text \<open>
  What the components share: the program's global settings (\<^verbatim>\<open>main.go\<close>), the third-party
  functions it calls (as a record of functions, an argument of the model), the effects it
  has on the outside, and \<^verbatim>\<open>r_tunnel.go\<close>: a \<^verbatim>\<open>RatSession\<close>, its methods, its construction and the
  KCP options of both ends.
\<close>

section \<open>Global settings\<close>

record globals =
  g_run_client :: bool
  g_run_server :: bool
  g_run_aggregator :: bool
  g_use_syslog :: bool
  g_debug :: bool
  g_trace :: bool
  g_use_consistent_hashing :: bool
  g_use_kcp :: bool
  g_connect_addr :: string
  g_listen_addr :: string
  g_mqtt_broker_addr :: string
  g_mqtt_username :: string
  g_mqtt_password :: string
  g_buffer_size :: int
  g_tunnel_id :: u32
  g_tunnel_name :: string
  g_server_tun_ip :: string
  g_client_tun_ip :: string
  g_http_listen_addr :: string
  g_secret :: string
  g_use_aes :: bool
  g_mux_max :: int
  g_kcp_mtu :: int
  g_tunnel_mtu :: int
  g_reorder_buffer_size :: int

definition init_globals :: globals where
  "init_globals = \<lparr>
     g_run_client = False, g_run_server = False, g_run_aggregator = True,
     g_use_syslog = True, g_debug = False, g_trace = False,
     g_use_consistent_hashing = True, g_use_kcp = True,
     g_connect_addr = '''', g_listen_addr = ''0.0.0.0:12345'',
     g_mqtt_broker_addr = '''', g_mqtt_username = '''', g_mqtt_password = '''',
     g_buffer_size = 2165535, g_tunnel_id = 0, g_tunnel_name = '''',
     g_server_tun_ip = ''10.10.10.2'', g_client_tun_ip = ''10.10.10.1'',
     g_http_listen_addr = ''0.0.0.0:8091'', g_secret = ''ratbond'', g_use_aes = False,
     g_mux_max = 1, g_kcp_mtu = 1360, g_tunnel_mtu = 1360 - 24,
     g_reorder_buffer_size = 128\<rparr>"

definition g_write_deadline :: int where
  "g_write_deadline = 2000"

definition g_client_max_rxtimeouts :: nat where
  "g_client_max_rxtimeouts = 20"

text \<open>Seconds; times of the model are in nanoseconds.\<close>

definition g_max_hello :: int where
  "g_max_hello = 5"

section \<open>Third-party functions\<close>

text \<open>
  \<^verbatim>\<open>stathat.com/c/consistent\<close> (the hash ring, with states of type \<open>'r\<close>), \<^verbatim>\<open>x/crypto/pbkdf2\<close>,
  \<^verbatim>\<open>x/net/ipv4.ParseHeader\<close> (a nil header comes with an error), \<^verbatim>\<open>water\<close>'s \<^verbatim>\<open>Name\<close> on a nil
  interface; beside them the width of \<^verbatim>\<open>int\<close> on the target and the text of IPv6 addresses.
\<close>

record ipv4_header =
  hd_Protocol :: int
  hd_Src :: ip
  hd_Dst :: ip

record 'r ext =
  ring_new :: "'r"
  ring_add :: "'r \<Rightarrow> string \<Rightarrow> 'r"
  ring_remove :: "'r \<Rightarrow> string \<Rightarrow> 'r"
  ring_get :: "'r \<Rightarrow> string \<Rightarrow> go_error + string"
  ring_members :: "'r \<Rightarrow> string list"
  pbkdf2_Key :: "string \<Rightarrow> string \<Rightarrow> nat \<Rightarrow> nat \<Rightarrow> u8 list"
  ParseHeader :: "u8 list \<Rightarrow> go_error + ipv4_header"
  nil_iface_Name :: "string outcome"
  int_bits :: nat
  ipv6_String :: "ip \<Rightarrow> string"
  parseIPv6 :: "string \<Rightarrow> ip option"

text \<open>
  What the program relies on of the ring: \<^verbatim>\<open>Members\<close> lists what was added and not removed, and
  \<^verbatim>\<open>Get\<close> fails on the empty ring and otherwise names a member.
\<close>

definition ring_laws :: "'r ext \<Rightarrow> bool" where
  "ring_laws X \<longleftrightarrow>
     ring_members X (ring_new X) = [] \<and>
     (\<forall>r e. set (ring_members X (ring_add X r e)) = insert e (set (ring_members X r))) \<and>
     (\<forall>r e. set (ring_members X (ring_remove X r e)) = set (ring_members X r) - {e}) \<and>
     (\<forall>r n. ring_members X r = [] \<longrightarrow> (\<exists>err. ring_get X r n = Inl err)) \<and>
     (\<forall>r n. ring_members X r \<noteq> [] \<longrightarrow> (\<exists>e \<in> set (ring_members X r). ring_get X r n = Inr e))"

text \<open>The owner of a name depends on the members only, which is what the hashing is for.\<close>

definition ring_consistent :: "'r ext \<Rightarrow> bool" where
  "ring_consistent X \<longleftrightarrow>
     (\<forall>r r' n. set (ring_members X r) = set (ring_members X r') \<longrightarrow> ring_get X r n = ring_get X r' n)"

lemma ring_laws_new: "ring_laws X \<Longrightarrow> ring_members X (ring_new X) = []"
  by (simp add: ring_laws_def)

lemma ring_laws_add:
  "ring_laws X \<Longrightarrow> set (ring_members X (ring_add X r e)) = insert e (set (ring_members X r))"
  by (simp add: ring_laws_def)

lemma ring_laws_remove:
  "ring_laws X \<Longrightarrow> set (ring_members X (ring_remove X r e)) = set (ring_members X r) - {e}"
  by (simp add: ring_laws_def)

lemma ring_laws_get_empty:
  "ring_laws X \<Longrightarrow> set (ring_members X r) = {} \<Longrightarrow> \<exists>err. ring_get X r n = Inl err"
  by (simp add: ring_laws_def)

lemma ring_laws_get_member:
  "ring_laws X \<Longrightarrow> set (ring_members X r) \<noteq> {} \<Longrightarrow>
    \<exists>e \<in> set (ring_members X r). ring_get X r n = Inr e"
  by (simp add: ring_laws_def)

section \<open>Effects\<close>

text \<open>Handles of KCP sessions, UDP sockets and connection objects are numbers.\<close>

type_synonym handle = nat
type_synonym addr = nat
type_synonym iface = string

datatype block_crypt = AESBlock "u8 list" | NoneBlock "u8 list"

datatype kcp_option =
    StreamMode bool | WriteDelay bool | NoDelay int int int int | Mtu int
  | WindowSize int int | ACKNoDelay bool | Deadlink int

datatype goroutine =
    Go_client_handle_kcp u32 addr
  | Go_client_handle_tun u32
  | Go_client_send_hello addr u32
  | Go_server_handle_tun u32
  | Go_server_send_hello addr
  | Go_http_serve
  | Go_netlink_subscribe_ifaces u32
  | Go_netlink_subscribe_routes u32
  | Go_netlink_get_routes u32
  | Go_server_handle_kcp_listener u32
  | Go_server_accept_conn u32 u32 handle

datatype effect =
    KcpWrite handle "u8 list"
  | KcpClose handle
  | UdpClose handle
  | KcpWriteDeadline handle int
  | KcpReadDeadline handle int
  | KcpSet handle kcp_option
  | KcpNewConn u32 string block_crypt nat nat handle
  | KcpListen string block_crypt nat nat
  | TunNew string
  | TunWrite iface "u8 list"
  | RunThing "string list"
  | Spawn goroutine

section \<open>Data common to both ends\<close>

record packet =
  pk_sequence :: u64
  pk_buff :: "u8 list"

text \<open>A bandwidth is kept as the \<^verbatim>\<open>float32\<close> expression that computes it: bytes over nanoseconds.\<close>

datatype f32 = F32_zero | F32_mbps u64 int

definition ns_per_s :: int where
  "ns_per_s = 1000000000"

section \<open>\<open>RatSession\<close>\<close>

record RatSession =
  rs_convid :: u32
  rs_udp_conn :: "handle option"
  rs_remote :: "string option"
  rs_kcp :: handle

definition dataSize :: nat where "dataSize = 0"

definition paritySize :: nat where "paritySize = 0"

text \<open>
  A method is called on a pointer that may be nil (\<open>None\<close>); \<open>ans\<close> is what the KCP session
  answers when it is asked.
\<close>

definition RatSession_Read :: "RatSession option \<Rightarrow> go_error + u8 list \<Rightarrow> go_error + u8 list" where
  "RatSession_Read s ans = (case s of None \<Rightarrow> Inl ''nil session'' | Some _ \<Rightarrow> ans)"

definition RatSession_Write ::
  "RatSession option \<Rightarrow> u8 list \<Rightarrow> go_error option \<Rightarrow> effect list \<times> go_error option"
where
  "RatSession_Write s b ans =
     (case s of None \<Rightarrow> ([], Some ''nil session'') | Some r \<Rightarrow> ([KcpWrite (rs_kcp r) b], ans))"

definition RatSession_Close :: "RatSession option \<Rightarrow> go_error option \<Rightarrow> effect list \<times> go_error option" where
  "RatSession_Close s ans =
     (case s of
        None \<Rightarrow> ([], Some ''nil session'')
      | Some r \<Rightarrow>
          ((case rs_udp_conn r of None \<Rightarrow> [] | Some u \<Rightarrow> [UdpClose u]) @ [KcpClose (rs_kcp r)], ans))"

definition RatSession_GetState :: "RatSession option \<Rightarrow> u32 \<Rightarrow> u32" where
  "RatSession_GetState s ans = (case s of None \<Rightarrow> 0 | Some _ \<Rightarrow> ans)"

definition RatSession_SetBuffer :: "RatSession option \<Rightarrow> go_error option \<Rightarrow> go_error option" where
  "RatSession_SetBuffer s ans = (case s of None \<Rightarrow> Some ''nil session'' | Some _ \<Rightarrow> ans)"

definition RatSession_SetReadDeadline :: "RatSession option \<Rightarrow> int \<Rightarrow> effect list \<times> go_error option" where
  "RatSession_SetReadDeadline s ms =
     (case s of None \<Rightarrow> ([], Some ''nil session'') | Some r \<Rightarrow> ([KcpReadDeadline (rs_kcp r) ms], None))"

definition RatSession_SetWriteDeadline :: "RatSession option \<Rightarrow> int \<Rightarrow> effect list \<times> go_error option" where
  "RatSession_SetWriteDeadline s ms =
     (case s of None \<Rightarrow> ([], Some ''nil session'') | Some r \<Rightarrow> ([KcpWriteDeadline (rs_kcp r) ms], None))"

definition RatSession_RemoteAddr :: "RatSession option \<Rightarrow> string option" where
  "RatSession_RemoteAddr s = (case s of None \<Rightarrow> None | Some r \<Rightarrow> rs_remote r)"

definition RatSession_GetConv :: "RatSession option \<Rightarrow> u32" where
  "RatSession_GetConv s = (case s of None \<Rightarrow> 0 | Some r \<Rightarrow> rs_convid r)"

section \<open>KCP options\<close>

definition setKCPOptions :: "globals \<Rightarrow> handle option \<Rightarrow> effect list" where
  "setKCPOptions G k =
     (case k of
        None \<Rightarrow> []
      | Some h \<Rightarrow> map (KcpSet h)
          [StreamMode True, WriteDelay False, NoDelay 1 10 2 1, Mtu (g_kcp_mtu G),
           WindowSize 1024 1024, ACKNoDelay False, Deadlink 1000])"

definition setClientConnOptions :: "globals \<Rightarrow> handle \<Rightarrow> effect list" where
  "setClientConnOptions G h = map (KcpSet h)
     [StreamMode True, WriteDelay False, NoDelay 1 10 2 1, Mtu (g_kcp_mtu G),
      WindowSize 1024 1024, ACKNoDelay False]"

definition setServerConnOptions :: "globals \<Rightarrow> handle \<Rightarrow> effect list" where
  "setServerConnOptions G h = map (KcpSet h)
     [StreamMode True, WriteDelay False, NoDelay 1 10 2 1, Mtu (g_kcp_mtu G),
      WindowSize 1024 1024, ACKNoDelay False]"

section \<open>Construction\<close>

text \<open>The cipher both ends derive from the shared secret.\<close>

definition session_block :: "'r ext \<Rightarrow> globals \<Rightarrow> block_crypt" where
  "session_block X G =
     (let key = pbkdf2_Key X (g_secret G) ''ratbond salt'' 1024 32
      in if g_use_aes G then AESBlock key else NoneBlock key)"

text \<open>\<open>conn3\<close> is the answer of \<^verbatim>\<open>kcp.NewConn3\<close>. The \<^verbatim>\<open>remote\<close> field is never assigned.\<close>

definition NewSession ::
  "'r ext \<Rightarrow> globals \<Rightarrow> u32 \<Rightarrow> string \<Rightarrow> handle \<Rightarrow> go_error + handle \<Rightarrow>
     (RatSession option \<times> go_error option \<times> effect list) outcome"
where
  "NewSession X G convid udpaddr l_conn conn3 =
     (if convid = 0 then Panic ''convid = 0 !''
      else let new = [KcpNewConn convid udpaddr (session_block X G) dataSize paritySize l_conn]
      in case conn3 of
           Inl e \<Rightarrow> Ret (None, Some e, new)
         | Inr k \<Rightarrow>
             Ret (Some \<lparr>rs_convid = convid, rs_udp_conn = Some l_conn, rs_remote = None, rs_kcp = k\<rparr>,
                  None, new @ setKCPOptions G (Some k)))"

text \<open>\<^verbatim>\<open>createListener\<close> asks the KCP library to listen; the library's answer is passed on.\<close>

definition createListener :: "'r ext \<Rightarrow> globals \<Rightarrow> go_error + handle \<Rightarrow> (go_error + handle) \<times> effect list" where
  "createListener X G ans = (ans, [KcpListen (g_listen_addr G) (session_block X G) dataSize paritySize])"

text \<open>The answers \<^verbatim>\<open>create_session\<close> gets from the network stack.\<close>

record dial =
  d_server :: "go_error + string"
  d_local :: "go_error + string"
  d_listen :: "go_error + handle"
  d_conn3 :: "go_error + handle"

text \<open>
  \<^verbatim>\<open>main.go\<close>, \<^verbatim>\<open>create_session\<close>. The error of \<^verbatim>\<open>NewSession\<close> is not looked at: \<^verbatim>\<open>session.kcp\<close> of
  the nil session is dereferenced.
\<close>

definition create_session ::
  "'r ext \<Rightarrow> globals \<Rightarrow> dial \<Rightarrow> u32 \<Rightarrow> string \<Rightarrow>
     (go_error + RatSession \<times> effect list) outcome"
where
  "create_session X G D convid src =
     (case d_server D of
        Inl e \<Rightarrow> Ret (Inl e)
      | Inr saddr \<Rightarrow>
        (case d_local D of
           Inl e \<Rightarrow> Ret (Inl e)
         | Inr laddr \<Rightarrow>
           (case d_listen D of
              Inl e \<Rightarrow> Ret (Inl e)
            | Inr u \<Rightarrow>
                obind (NewSession X G convid saddr u (d_conn3 D)) (\<lambda>(s, err, eff).
                  case s of
                    None \<Rightarrow> Panic ''nil pointer dereference''
                  | Some r \<Rightarrow> Ret (Inr (r, eff @ setClientConnOptions G (rs_kcp r)))))))"

lemma create_session_Inr:
  assumes "create_session X G D convid src = Ret (Inr (r, eff))"
  shows "convid \<noteq> 0" "rs_convid r = convid" "rs_udp_conn r \<noteq> None" "d_conn3 D = Inr (rs_kcp r)"
  using assms
  by (auto simp: create_session_def NewSession_def Let_def outcome_simps
      split: sum.splits if_splits option.splits prod.splits)

text \<open>\<open>kcp_opts\<close> replays option calls: the last call for each option wins.\<close>

record kcp_opts =
  ko_stream :: bool
  ko_wdelay :: bool
  ko_nodelay :: "int \<times> int \<times> int \<times> int"
  ko_mtu :: int
  ko_wnd :: "int \<times> int"
  ko_acknodelay :: bool
  ko_deadlink :: int

primrec apply_option :: "kcp_option \<Rightarrow> kcp_opts \<Rightarrow> kcp_opts" where
  "apply_option (StreamMode b) s = s\<lparr>ko_stream := b\<rparr>"
| "apply_option (WriteDelay b) s = s\<lparr>ko_wdelay := b\<rparr>"
| "apply_option (NoDelay a b c d) s = s\<lparr>ko_nodelay := (a, b, c, d)\<rparr>"
| "apply_option (Mtu m) s = s\<lparr>ko_mtu := m\<rparr>"
| "apply_option (WindowSize a b) s = s\<lparr>ko_wnd := (a, b)\<rparr>"
| "apply_option (ACKNoDelay b) s = s\<lparr>ko_acknodelay := b\<rparr>"
| "apply_option (Deadlink d) s = s\<lparr>ko_deadlink := d\<rparr>"

fun replay_options :: "handle \<Rightarrow> effect list \<Rightarrow> kcp_opts \<Rightarrow> kcp_opts" where
  "replay_options h [] s = s"
| "replay_options h (KcpSet k opt # es) s =
     replay_options h es (if k = h then apply_option opt s else s)"
| "replay_options h (e # es) s = replay_options h es s"

end
