(* ===== verification/Wire.thy ===== *)
theory Wire
  imports Session
begin

text \<open>
  What travels over a KCP session and how a session is chosen for a packet (\<^verbatim>\<open>main.go\<close>): the
  HELLO and LINKDOWN messages and how the two ends tell them from tunnel packets, the key by
  which a packet is hashed (\<^verbatim>\<open>ExtractSrc\<close>, \<^verbatim>\<open>ExtractDst\<close>), and the two schedulers.
\<close>

unbundle bit_operations_syntax

section \<open>Messages\<close>

definition g_hello :: "u8 list" where
  "g_hello = replicate 40 0"

text \<open>\<^verbatim>\<open>binary.LittleEndian\<close>.\<close>

definition PutUint16 :: "u16 \<Rightarrow> u8 list" where
  "PutUint16 v = [ucast v, ucast (drop_bit 8 v)]"

definition Uint16 :: "u8 \<Rightarrow> u8 \<Rightarrow> u16" where
  "Uint16 b0 b1 = ucast b0 OR push_bit 8 (ucast b1)"

text \<open>\<^verbatim>\<open>client_send_linkdown_message\<close>: a zero byte and the low 16 bits of the conversation id.\<close>

definition linkdown_msg :: "u32 \<Rightarrow> u8 list" where
  "linkdown_msg disc_convid =
     (let b = PutUint16 (ucast disc_convid) in [0, b ! 0, b ! 1])"

text \<open>What the server does with a message it has read, and what the client does.\<close>

datatype message = Hello | Linkdown u32 | Data

definition is_hello :: "u8 list \<Rightarrow> bool" where
  "is_hello m \<longleftrightarrow> length m = length g_hello \<and> m ! 0 = 0 \<and> m ! 1 = 0"

definition server_message :: "u8 list \<Rightarrow> message" where
  "server_message m =
     (if is_hello m then Hello
      else if length m = 3 \<and> m ! 0 = 0 then Linkdown (ucast (Uint16 (m ! 1) (m ! 2)))
      else Data)"

definition client_message :: "u8 list \<Rightarrow> message" where
  "client_message m = (if is_hello m then Hello else Data)"

lemma Uint16_PutUint16: "Uint16 (PutUint16 v ! 0) (PutUint16 v ! 1) = v"
proof (rule bit_word_eqI)
  fix n
  assume "n < LENGTH(16)"
  then show "bit (Uint16 (PutUint16 v ! 0) (PutUint16 v ! 1)) n = bit v n"
    by (cases "n < 8") (auto simp: Uint16_def PutUint16_def bit_simps)
qed

lemma server_message_hello [simp]: "server_message g_hello = Hello"
  by (simp add: server_message_def is_hello_def g_hello_def)

lemma client_message_hello [simp]: "client_message g_hello = Hello"
  by (simp add: client_message_def is_hello_def g_hello_def)

lemma server_message_linkdown [simp]:
  "server_message (linkdown_msg c) = Linkdown (ucast (ucast c :: u16))"
proof -
  have "server_message (linkdown_msg c) =
      Linkdown (ucast (Uint16 (PutUint16 (ucast c) ! 0) (PutUint16 (ucast c) ! 1)))"
    by (simp add: server_message_def linkdown_msg_def is_hello_def g_hello_def Let_def)
  then show ?thesis by (simp only: Uint16_PutUint16)
qed

lemma ucast_u16_u32: "ucast (ucast (c :: u32) :: u16) = (of_nat (unat c mod 65536) :: u32)"
  by (rule word_unat_eq_iff [THEN iffD2]) (simp add: unat_of_nat unsigned_ucast_eq take_bit_eq_mod unat_mod)

section \<open>Flow keys\<close>

definition flow_key :: "u8 \<Rightarrow> u8 \<Rightarrow> u8 \<Rightarrow> u8 \<Rightarrow> string \<Rightarrow> string \<Rightarrow> string" where
  "flow_key a b c d s t =
     hex_u8 a @ hex_u8 b @ '':'' @ hex_u8 c @ hex_u8 d @ '':'' @ s @ '':'' @ t"

text \<open>
  The whole read buffer is handed over, with the length of the packet in it. A parse error is
  logged and the nil header dereferenced.
\<close>

definition ExtractDst :: "'r ext \<Rightarrow> u8 list \<Rightarrow> int \<Rightarrow> string outcome" where
  "ExtractDst X frame frame_len =
     (case ParseHeader X frame of
        Inl e \<Rightarrow> Panic ''nil pointer dereference''
      | Inr h \<Rightarrow>
          (let src = IP_String (ipv6_String X) (hd_Src h);
               dst = IP_String (ipv6_String X) (hd_Dst h)
           in if hd_Protocol h = 6 \<and> frame_len \<ge> 24 then
                (if length frame < 24 then Panic ''index out of range''
                 else Ret (flow_key (frame ! 22) (frame ! 23) (frame ! 20) (frame ! 21) src dst))
              else Ret (src @ '':'' @ dst)))"

definition ExtractSrc :: "'r ext \<Rightarrow> u8 list \<Rightarrow> int \<Rightarrow> string outcome" where
  "ExtractSrc X frame frame_len =
     (case ParseHeader X frame of
        Inl e \<Rightarrow> Panic ''nil pointer dereference''
      | Inr h \<Rightarrow>
          (let src = IP_String (ipv6_String X) (hd_Src h);
               dst = IP_String (ipv6_String X) (hd_Dst h)
           in if hd_Protocol h = 6 \<and> frame_len \<ge> 24 then
                (if length frame < 24 then Panic ''index out of range''
                 else Ret (flow_key (frame ! 20) (frame ! 21) (frame ! 22) (frame ! 23) dst src))
              else Ret (dst @ '':'' @ src)))"

text \<open>
  \<open>reply_of X p q\<close>: packet \<open>q\<close> answers packet \<open>p\<close>: addresses swapped, same protocol, and the four
  bytes at offset 20 (the TCP ports when the header has no options) swapped in pairs.
\<close>

definition reply_of :: "'r ext \<Rightarrow> u8 list \<Rightarrow> u8 list \<Rightarrow> bool" where
  "reply_of X p q \<longleftrightarrow>
     (case (ParseHeader X p, ParseHeader X q) of
        (Inr h, Inr h') \<Rightarrow>
          hd_Protocol h' = hd_Protocol h \<and> hd_Src h' = hd_Dst h \<and> hd_Dst h' = hd_Src h \<and>
          24 \<le> length p \<and> 24 \<le> length q \<and>
          q ! 20 = p ! 22 \<and> q ! 21 = p ! 23 \<and> q ! 22 = p ! 20 \<and> q ! 23 = p ! 21
      | _ \<Rightarrow> False)"

lemma ExtractDst_reply:
  assumes "reply_of X p q" "24 \<le> n" "24 \<le> n'"
  shows "\<exists>key. ExtractSrc X p n = Ret key \<and> ExtractDst X q n' = Ret key"
  using assms
  by (auto simp: reply_of_def ExtractSrc_def ExtractDst_def Let_def split: sum.splits)

section \<open>The schedulers\<close>

text \<open>
  Consistent hashing: the owner of the flow key, converted with \<^verbatim>\<open>strconv.Atoi\<close> and \<^verbatim>\<open>uint32\<close>. The
  two ends differ in the key they extract and in the error of an empty ring, which the client
  replaces by its own.
\<close>

definition owner_convid :: "'r ext \<Rightarrow> string \<Rightarrow> u32 \<times> go_error option" where
  "owner_convid X owner = (let (v, err) = atoi (int_bits X) owner in (word_of_int v, err))"

text \<open>
  Round robin: the first visited connection that is alive and is not the one used last; else
  the last one visited. \<open>alive\<close> maps each conversation id to its \<^verbatim>\<open>alive\<close> flag.
\<close>

fun rr_pick :: "(u32 \<rightharpoonup> bool) \<Rightarrow> u32 \<Rightarrow> u32 list \<Rightarrow> u32 \<Rightarrow> u32" where
  "rr_pick alive last_convid [] some_convid = some_convid"
| "rr_pick alive last_convid (k # ks) some_convid =
     (case alive k of
        None \<Rightarrow> rr_pick alive last_convid ks some_convid
      | Some ok \<Rightarrow>
          if k \<noteq> last_convid \<and> ok then k else rr_pick alive last_convid ks k)"

lemma rr_pick_cases:
  "rr_pick alive lc ks some = some \<or> alive (rr_pick alive lc ks some) \<noteq> None"
proof (induction ks arbitrary: some)
  case Nil
  then show ?case by simp
next
  case (Cons k ks)
  show ?case using Cons.IH [of k] Cons.IH [of some] by (auto split: option.splits)
qed

lemma rr_pick_dom:
  "\<exists>k \<in> set ks. alive k \<noteq> None \<Longrightarrow> alive (rr_pick alive lc ks some) \<noteq> None"
proof (induction ks arbitrary: some)
  case Nil
  then show ?case by simp
next
  case (Cons k ks)
  show ?case
  proof (cases "alive k")
    case None
    with Cons show ?thesis by auto
  next
    case (Some ok)
    then show ?thesis using rr_pick_cases [of alive lc ks k] by auto
  qed
qed

lemma rr_pick_rotates:
  assumes "k \<in> set ks" "alive k = Some True" "k \<noteq> lc"
  shows "alive (rr_pick alive lc ks some) = Some True \<and> rr_pick alive lc ks some \<noteq> lc"
  using assms by (induction ks arbitrary: some) (auto split: option.splits)

lemma rr_pick_only:
  assumes "dom alive = {k}" "k \<in> set ks"
  shows "rr_pick alive lc ks some = k"
proof -
  have "rr_pick alive lc ks some \<in> dom alive"
    using rr_pick_dom [of ks alive lc some] assms by blast
  with assms(1) show ?thesis by simp
qed

lemma rr_pick_none: "dom alive = {} \<Longrightarrow> rr_pick alive lc ks some = some"
  by (induction ks arbitrary: some) auto

lemma owner_convid_dec:
  assumes "int (unat c) < 2 ^ (int_bits X - 1)"
  shows "owner_convid X (dec_u32 c) = (c, None)"
  using assms by (simp add: owner_convid_def dec_u32_def atoi_dec_of)

lemma owner_convid_dec_64:
  assumes "int_bits X = 64"
  shows "owner_convid X (dec_u32 c) = (c, None)"
proof (rule owner_convid_dec)
  have "int (unat c) < 2 ^ 32" using unsigned_less [of c] by simp
  then show "int (unat c) < 2 ^ (int_bits X - 1)" using assms by simp
qed

section \<open>Bonds with a hash ring\<close>

text \<open>
  The contract between a bond and the scheduler that hashes packets onto it: the ring names
  exactly the conversations in the table. Both ends are instances.
\<close>

definition fits_int :: "'r ext \<Rightarrow> u32 set \<Rightarrow> bool" where
  "fits_int X K \<longleftrightarrow> (\<forall>k \<in> K. int (unat k) < 2 ^ (int_bits X - 1))"

lemma fits_int_64: "int_bits X = 64 \<Longrightarrow> fits_int X K"
  unfolding fits_int_def
proof (intro ballI)
  fix k :: u32
  assume "int_bits X = 64"
  moreover have "int (unat k) < 2 ^ 32" using unsigned_less [of k] by simp
  ultimately show "int (unat k) < 2 ^ (int_bits X - 1)" by simp
qed

locale hashed_bond =
  fixes X :: "'r ext"
    and tbl :: "'s \<Rightarrow> u32 \<rightharpoonup> addr"
    and ring :: "'s \<Rightarrow> 'r option"
    and choice :: "'r \<Rightarrow> string \<Rightarrow> u32 \<times> go_error option"
    and inv :: "'s \<Rightarrow> bool"
  assumes sync: "inv s \<Longrightarrow> tbl s k = Some a \<Longrightarrow>
      \<exists>r. ring s = Some r \<and> set (ring_members X r) = dec_u32 ` dom (tbl s)"
    and choice_owner: "ring_get X r key = Inr owner \<Longrightarrow> choice r key = owner_convid X owner"
begin

lemma choice_get:
  assumes "ring_laws X" "inv s" "tbl s k = Some a" "fits_int X (dom (tbl s))" "ring s = Some r"
  obtains c where "c \<in> dom (tbl s)" "ring_get X r key = Inr (dec_u32 c)" "choice r key = (c, None)"
proof -
  from sync [OF assms(2,3)] assms(5) have names: "set (ring_members X r) = dec_u32 ` dom (tbl s)"
    by simp
  then have "set (ring_members X r) \<noteq> {}" using assms(3) by auto
  from ring_laws_get_member [OF assms(1) this, of key] names obtain c where
    c: "c \<in> dom (tbl s)" "ring_get X r key = Inr (dec_u32 c)" by auto
  then have "choice r key = (c, None)"
    using choice_owner [OF c(2)] assms(4) by (simp add: owner_convid_dec fits_int_def)
  with c that show ?thesis by blast
qed

end

locale bond_pair =
  near: hashed_bond X tbl ring choice inv + far: hashed_bond X tbl' ring' choice' inv'
  for X :: "'r ext" and tbl :: "'s \<Rightarrow> u32 \<rightharpoonup> addr" and ring choice inv
    and tbl' :: "'t \<Rightarrow> u32 \<rightharpoonup> addr" and ring' choice' inv'
begin

lemma same_choice:
  assumes "ring_laws X" "ring_consistent X" "inv s" "inv' s'" "tbl s k = Some a"
    and "dom (tbl' s') = dom (tbl s)" "fits_int X (dom (tbl s))" "ring s = Some r" "ring' s' = Some r'"
  shows "\<exists>c \<in> dom (tbl s). choice r key = (c, None) \<and> choice' r' key = (c, None)"
proof -
  obtain a' where a': "tbl' s' k = Some a'" using assms(5,6) by (metis domD domI)
  have "set (ring_members X r) = dec_u32 ` dom (tbl s)"
    using near.sync [OF assms(3,5)] assms(8) by auto
  moreover have "set (ring_members X r') = dec_u32 ` dom (tbl' s')"
    using far.sync [OF assms(4) a'] assms(9) by auto
  ultimately have eq: "ring_get X r key = ring_get X r' key"
    using assms(2,6) by (simp add: ring_consistent_def)
  obtain c where c: "c \<in> dom (tbl s)" "ring_get X r key = Inr (dec_u32 c)" "choice r key = (c, None)"
    by (rule near.choice_get [OF assms(1,3,5,7,8)])
  obtain c' where c': "c' \<in> dom (tbl' s')" "ring_get X r' key = Inr (dec_u32 c')" "choice' r' key = (c', None)"
    by (rule far.choice_get [OF assms(1,4) a' _ assms(9)]) (use assms in simp)
  from c(2) c'(2) eq have "c' = c" by simp
  with c c' show ?thesis by blast
qed

end

end
