(* ===== verification/Network.thy ===== *)
theory Network
  imports Session
begin

text \<open>
  \<^verbatim>\<open>p_network.go\<close> (questions about the host's interfaces), \<^verbatim>\<open>p_runthings.go\<close> (commands), and
  \<^verbatim>\<open>get_wan_ip\<close> of \<^verbatim>\<open>p_utils.go\<close>. What the kernel answers (\<^verbatim>\<open>net.Interfaces\<close>) and what remote
  hosts answer are arguments.
\<close>

section \<open>Interfaces\<close>

text \<open>An address is a \<^verbatim>\<open>*net.IPNet\<close>, a \<^verbatim>\<open>*net.IPAddr\<close> or something else.\<close>

datatype net_addr = NetAddr ip | PlainAddr ip | OtherAddr

record net_iface =
  ni_name :: string
  ni_hw :: string
  ni_addrs :: "go_error + net_addr list"

definition network_getMacAddr :: "go_error + net_iface list \<Rightarrow> string \<Rightarrow> go_error + string list" where
  "network_getMacAddr ifas name =
     (case ifas of
        Inl e \<Rightarrow> Inl e
      | Inr is \<Rightarrow> Inr (map ni_hw (filter (\<lambda>i. ni_hw i \<noteq> '''' \<and> ni_name i = name) is)))"

definition network_interfaceExists :: "go_error + net_iface list \<Rightarrow> string \<Rightarrow> bool" where
  "network_interfaceExists ifas name =
     (case ifas of
        Inl e \<Rightarrow> False
      | Inr is \<Rightarrow> list_ex (\<lambda>i. ni_name i \<noteq> '''' \<and> ni_name i = name) is)"

text \<open>The type switch inside the address loops: the first address with an IP.\<close>

fun first_ip :: "net_addr list \<Rightarrow> ip option" where
  "first_ip [] = None"
| "first_ip (NetAddr a # as) = Some a"
| "first_ip (PlainAddr a # as) = Some a"
| "first_ip (OtherAddr # as) = first_ip as"

text \<open>
  \<^verbatim>\<open>network_getIpAddr\<close> returns after the first address that has an IP, whether or not it is an
  IPv4 address.
\<close>

fun getIpAddr_loop :: "string \<Rightarrow> net_iface list \<Rightarrow> string list" where
  "getIpAddr_loop name [] = []"
| "getIpAddr_loop name (i # is) =
     (if ni_name i \<noteq> '''' \<and> ni_name i = name then
        (case ni_addrs i of
           Inl e \<Rightarrow> getIpAddr_loop name is
         | Inr as \<Rightarrow>
             (case first_ip as of
                None \<Rightarrow> getIpAddr_loop name is
              | Some a \<Rightarrow> (case To4 a of Some q \<Rightarrow> [dotted q] | None \<Rightarrow> [])))
      else getIpAddr_loop name is)"

definition network_getIpAddr :: "go_error + net_iface list \<Rightarrow> string \<Rightarrow> go_error + string list" where
  "network_getIpAddr ifas name =
     (case ifas of Inl e \<Rightarrow> Inl e | Inr is \<Rightarrow> Inr (getIpAddr_loop name is))"

text \<open>The text of \<^verbatim>\<open>ip.To4()\<close>, nil included.\<close>

definition to4_text :: "ip \<Rightarrow> string" where
  "to4_text a = (case To4 a of Some q \<Rightarrow> dotted q | None \<Rightarrow> ''<nil>'')"

fun addr_matches :: "string \<Rightarrow> net_addr \<Rightarrow> bool" where
  "addr_matches find_addr (NetAddr a) = (to4_text a = find_addr)"
| "addr_matches find_addr (PlainAddr a) = (to4_text a = find_addr)"
| "addr_matches find_addr OtherAddr = False"

definition network_ifAddrExists :: "go_error + net_iface list \<Rightarrow> string \<Rightarrow> string \<Rightarrow> bool" where
  "network_ifAddrExists ifas name find_addr =
     (case ifas of
        Inl e \<Rightarrow> False
      | Inr is \<Rightarrow>
          list_ex (\<lambda>i. ni_name i \<noteq> '''' \<and> ni_name i = name \<and>
             (case ni_addrs i of Inl e \<Rightarrow> False | Inr as \<Rightarrow> list_ex (addr_matches find_addr) as)) is)"

text \<open>\<^verbatim>\<open>network_get_lan_ip\<close>: the new value of \<^verbatim>\<open>g_lan_ip\<close>; \<^verbatim>\<open>net.Interfaces\<close> is asked up to twice.\<close>

definition last_or :: "string \<Rightarrow> string list \<Rightarrow> string" where
  "last_or d xs = fold (\<lambda>x _. x) xs d"

definition network_get_lan_ip ::
  "go_error + net_iface list \<Rightarrow> go_error + net_iface list \<Rightarrow> string outcome"
where
  "network_get_lan_ip ifas1 ifas2 =
     (case network_getIpAddr ifas1 ''br1'' of
        Inl e \<Rightarrow> Exit 1
      | Inr ips \<Rightarrow>
          (let lan = last_or '''' ips
           in if lan \<noteq> '''' then Ret lan
              else case network_getIpAddr ifas2 ''br-lan'' of
                     Inl e \<Rightarrow> Exit 1
                   | Inr ips2 \<Rightarrow> Ret (last_or lan ips2)))"

text \<open>\<^verbatim>\<open>network_get_mac\<close>: the result and the new value of \<^verbatim>\<open>g_mac\<close>.\<close>

definition network_get_mac ::
  "go_error + net_iface list \<Rightarrow> string \<Rightarrow> (string \<times> string) outcome"
where
  "network_get_mac ifas g_mac =
     (case network_getMacAddr ifas ''eth0'' of
        Inl e \<Rightarrow> Exit 1
      | Inr as \<Rightarrow> (let m = last_or g_mac as in Ret (ToUpper m, m)))"

section \<open>Commands\<close>

text \<open>\<^verbatim>\<open>runthing\<close> returns the combined output, or the text \<^verbatim>\<open>error\<close> when the command fails.\<close>

definition runthing :: "go_error + string \<Rightarrow> string" where
  "runthing result = (case result of Inl e \<Rightarrow> ''error'' | Inr out \<Rightarrow> out)"

text \<open>
  \<^verbatim>\<open>runthing_async\<close>: the error, if any, and the output of the command go to the channel and the output is returned, also when the command has
  failed. The result: what is sent, what is returned once it has been received.
\<close>

record AsyncExecData =
  ae_output :: string
  ae_error :: "go_error option"

definition runthing_async :: "string \<times> go_error option \<Rightarrow> AsyncExecData \<times> string" where
  "runthing_async result =
     (case result of (data, err) \<Rightarrow> (\<lparr>ae_output = data, ae_error = err\<rparr>, data))"

definition network_sysctls :: "effect list" where
  "network_sysctls = map RunThing
     [[''sysctl'', ''net.core.rmem_max=26214400''],
      [''sysctl'', ''net.core.rmem_default=26214400''],
      [''sysctl'', ''net.core.wmem_max=26214400''],
      [''sysctl'', ''net.core.wmem_default=26214400''],
      [''sysctl'', ''net.core.netdev_max_backlog=2048'']]"

section \<open>The tun device\<close>

text \<open>\<^verbatim>\<open>main.go\<close>, \<^verbatim>\<open>createTun\<close>; \<open>ans\<close> is the answer of \<^verbatim>\<open>water.New\<close>, an interface being known by its name.\<close>

definition createTun ::
  "globals \<Rightarrow> go_error + iface \<Rightarrow> u32 \<Rightarrow> string \<Rightarrow> (iface option \<times> go_error option) \<times> effect list"
where
  "createTun G ans tunnelid addr =
     (let name = (if g_tunnel_name G \<noteq> '''' then g_tunnel_name G else ''tun'' @ dec_u32 tunnelid)
      in case ans of
           Inl e \<Rightarrow> ((None, Some e), [TunNew name])
         | Inr i \<Rightarrow>
             ((Some i, None),
              [TunNew name,
               RunThing [''ip'', ''addr'', ''add'', addr @ ''/30'', ''dev'', i],
               RunThing [''ip'', ''link'', ''set'', i, ''mtu'', dec_int (g_tunnel_mtu G)],
               RunThing [''ip'', ''link'', ''set'', i, ''up'']]))"

section \<open>The WAN address of an interface\<close>

text \<open>
  \<open>resolve\<close> answers \<^verbatim>\<open>net.ResolveTCPAddr\<close>, \<open>http\<close> the request to \<^verbatim>\<open>api.ipify.org\<close>. Indexing the
  list of addresses panics when the interface has none.
\<close>

definition get_wan_ip ::
  "go_error + net_iface list \<Rightarrow> (string \<Rightarrow> go_error option) \<Rightarrow> go_error + string \<Rightarrow> string \<Rightarrow>
     (string \<times> go_error option) outcome"
where
  "get_wan_ip ifas resolve http name =
     (case network_getIpAddr ifas name of
        Inl e \<Rightarrow> Ret ('''', Some e)
      | Inr [] \<Rightarrow> Panic ''index out of range''
      | Inr (p # ps) \<Rightarrow>
          (case resolve (p @ '':0'') of
             Some e \<Rightarrow> Ret ('''', Some e)
           | None \<Rightarrow>
               (case http of Inl e \<Rightarrow> Ret ('''', Some e) | Inr body \<Rightarrow> Ret (body, None))))"

lemma getIpAddr_loop_short: "length (getIpAddr_loop name is) \<le> 1"
  by (induction name "is" rule: getIpAddr_loop.induct) (auto split: sum.splits option.splits)

lemma getIpAddr_loop_unknown: "name \<notin> ni_name ` set is \<Longrightarrow> getIpAddr_loop name is = []"
  by (induction name "is" rule: getIpAddr_loop.induct) auto

end
