(* ===== verification/Client_State.thy ===== *)
theory Client_State
  imports Wire Network
begin

text \<open>
  The client's state (\<^verbatim>\<open>serverConnection\<close>, \<^verbatim>\<open>serverType\<close>, \<^verbatim>\<open>g_server_list\<close> of \<^verbatim>\<open>main.go\<close>), how it chooses a
  session for a packet, and how it takes sessions out of a bond: closing, the three
  disconnect operations and the LINKDOWN message they send.

  Connections are shared by pointer between the bond and the goroutine that reads them, so
  they live in a heap and the bond holds their addresses. A \<^verbatim>\<open>*serverType\<close> is named by its key in
  \<^verbatim>\<open>g_server_list\<close>. The sections between \<^verbatim>\<open>mu.Lock\<close> and \<^verbatim>\<open>mu.Unlock\<close> are atomic.
\<close>

section \<open>State\<close>

record serverConnection =
  sc_convid :: u32
  sc_session :: "RatSession option"
  sc_ifname :: string
  sc_rxloss :: u32
  sc_txloss :: u32
  sc_txcounter :: u64
  sc_txbytes :: u64
  sc_rxcounter :: u64
  sc_rxbytes :: u64
  sc_rxtimeouts :: u64
  sc_txtimeouts :: u64
  sc_priority :: u32
  sc_last_bw_update :: int
  sc_txbandwidth :: f32
  sc_rxbandwidth :: f32
  sc_last_hello :: int
  sc_up_since :: int
  sc_alive :: bool
  sc_src_address :: string
  sc_wan_ip :: string

record 'r serverType =
  sv_connections :: "addr gomap option"
  sv_consistent :: "'r option"
  sv_iface :: "iface option"
  sv_base_convid :: u32
  sv_last_convid :: u32
  sv_ifname :: string
  sv_my_tun_ip :: string
  sv_remote_tun_ip :: string
  sv_reorder_buffer :: "packet list option"

record 'r client =
  g_server_list :: "u32 \<rightharpoonup> 'r serverType"
  cl_heap :: "addr \<rightharpoonup> serverConnection"
  cl_next :: addr
  cl_out :: "effect list"

definition init_client :: "'r client" where
  "init_client = \<lparr>g_server_list = Map.empty, cl_heap = Map.empty, cl_next = 0, cl_out = []\<rparr>"

text \<open>Reading a nil map is reading an empty one.\<close>

definition sv_conns :: "'r serverType \<Rightarrow> addr gomap" where
  "sv_conns sv = (case sv_connections sv of None \<Rightarrow> [] | Some m \<Rightarrow> m)"

definition conn_tbl :: "u32 \<Rightarrow> 'r client \<Rightarrow> u32 \<rightharpoonup> addr" where
  "conn_tbl t s = (case g_server_list s t of None \<Rightarrow> Map.empty | Some sv \<Rightarrow> map_of (sv_conns sv))"

definition upd_sv :: "u32 \<Rightarrow> ('r serverType \<Rightarrow> 'r serverType) \<Rightarrow> 'r client \<Rightarrow> 'r client" where
  "upd_sv t f s = s\<lparr>g_server_list := (g_server_list s)(t := map_option f (g_server_list s t))\<rparr>"

definition upd_conn :: "addr \<Rightarrow> (serverConnection \<Rightarrow> serverConnection) \<Rightarrow> 'r client \<Rightarrow> 'r client" where
  "upd_conn a f s = s\<lparr>cl_heap := (cl_heap s)(a := map_option f (cl_heap s a))\<rparr>"

definition emit :: "effect list \<Rightarrow> 'r client \<Rightarrow> 'r client" where
  "emit es s = s\<lparr>cl_out := cl_out s @ es\<rparr>"

section \<open>Choosing a session\<close>

definition client_num_connections_by_src :: "string \<Rightarrow> 'r serverType \<Rightarrow> 'r client \<Rightarrow> nat" where
  "client_num_connections_by_src src sv s =
     length (filter (\<lambda>(k, a). map_option sc_src_address (cl_heap s a) = Some src) (sv_conns sv))"

definition alive_map :: "'r serverType \<Rightarrow> 'r client \<Rightarrow> u32 \<rightharpoonup> bool" where
  "alive_map sv s = (\<lambda>k. Option.bind (map_of (sv_conns sv) k) (\<lambda>a. map_option sc_alive (cl_heap s a)))"

definition client_hash_choice :: "'r ext \<Rightarrow> 'r \<Rightarrow> string \<Rightarrow> u32 \<times> go_error option" where
  "client_hash_choice X r dst =
     (case ring_get X r dst of
        Inl e \<Rightarrow> (0, Some ''consitent get failed'')
      | Inr owner \<Rightarrow> owner_convid X owner)"

definition client_choose_kcp_conn ::
  "'r ext \<Rightarrow> globals \<Rightarrow> answers \<Rightarrow> (u8 list \<times> int) option \<Rightarrow> u32 \<Rightarrow> 'r client \<Rightarrow>
     ((u32 \<times> go_error option) \<times> 'r client) outcome"
where
  "client_choose_kcp_conn X G orc packet t s =
     obind (of_option ''nil pointer dereference'' (g_server_list s t)) (\<lambda>sv.
       if packet \<noteq> None \<and> g_use_consistent_hashing G then
         obind (ExtractSrc X (fst (the packet)) (snd (the packet))) (\<lambda>dst.
           obind (of_option ''nil pointer dereference'' (sv_consistent sv)) (\<lambda>r.
             Ret (client_hash_choice X r dst, s)))
       else if length (sv_conns sv) = 0 then Ret ((0, Some ''no connections available''), s)
       else let c = rr_pick (alive_map sv s) (sv_last_convid sv) (a_order (orc [])) 0
            in Ret ((c, None), upd_sv t (\<lambda>sv. sv\<lparr>sv_last_convid := c\<rparr>) s))"

section \<open>Leaving the bond\<close>

definition client_close_connection ::
  "'r ext \<Rightarrow> u32 \<Rightarrow> addr \<Rightarrow> u32 \<Rightarrow> 'r client \<Rightarrow> 'r client outcome"
where
  "client_close_connection X t a convid s =
     obind (of_option ''nil pointer dereference'' (cl_heap s a)) (\<lambda>c.
     obind (of_option ''nil pointer dereference'' (g_server_list s t)) (\<lambda>sv.
     obind (of_option ''nil pointer dereference'' (sv_consistent sv)) (\<lambda>r.
       Ret (upd_sv t (\<lambda>sv. sv\<lparr>sv_last_convid := 0,
                                 sv_consistent := Some (ring_remove X r (dec_u32 convid)),
                                 sv_connections := map_option (gm_del convid) (sv_connections sv)\<rparr>)
             (upd_conn a (\<lambda>c. c\<lparr>sc_session := None\<rparr>)
               (emit (fst (RatSession_Close (sc_session c) None)) s))))))"

text \<open>
  \<^verbatim>\<open>client_send_linkdown_message\<close>. The byte counter grows by the length of the two-byte buffer,
  not of the three bytes sent.
\<close>

definition client_send_linkdown_message ::
  "'r ext \<Rightarrow> globals \<Rightarrow> answers \<Rightarrow> u32 \<Rightarrow> u32 \<Rightarrow> 'r client \<Rightarrow> 'r client outcome"
where
  "client_send_linkdown_message X G orc t disc_convid s =
     obind (client_choose_kcp_conn X G orc None t s) (\<lambda>((chose_convid, err), s1).
       if err \<noteq> None \<or> chose_convid = 0 then Ret s1
       else case conn_tbl t s1 chose_convid of
         None \<Rightarrow> Ret s1
       | Some a \<Rightarrow>
           obind (of_option ''nil pointer dereference'' (cl_heap s1 a)) (\<lambda>c.
             let (e1, _) = RatSession_SetWriteDeadline (sc_session c) g_write_deadline;
                 (e2, werr) = RatSession_Write (sc_session c) (linkdown_msg disc_convid) (a_write (orc []));
                 s2 = emit (e1 @ e2) s1
             in if werr \<noteq> None then Ret s2
                else Ret (upd_conn a (\<lambda>c. c\<lparr>sc_txcounter := sc_txcounter c + 1,
                                             sc_txbytes := sc_txbytes c + 2\<rparr>) s2)))"

text \<open>
  The loop the three disconnect operations share: close every connection that \<open>P\<close> selects and
  tell the server over what is left.
\<close>

definition client_disconnect_body ::
  "'r ext \<Rightarrow> globals \<Rightarrow> answers \<Rightarrow> u32 \<Rightarrow> (serverConnection \<Rightarrow> bool) \<Rightarrow> u32 \<Rightarrow> addr \<Rightarrow>
     'r client \<Rightarrow> 'r client outcome"
where
  "client_disconnect_body X G orc t P convid a s =
     obind (of_option ''nil pointer dereference'' (cl_heap s a)) (\<lambda>c.
       if P c then
         obind (client_close_connection X t a convid s)
           (client_send_linkdown_message X G (sub_oracle convid orc) t convid)
       else Ret s)"

definition client_disconnect_where ::
  "'r ext \<Rightarrow> globals \<Rightarrow> answers \<Rightarrow> u32 \<Rightarrow> (serverConnection \<Rightarrow> bool) \<Rightarrow> 'r client \<Rightarrow> 'r client outcome"
where
  "client_disconnect_where X G orc t P s =
     for_range (conn_tbl t) (client_disconnect_body X G orc t P) (a_order (orc [])) s"

definition client_disconnect_session_by_ifname ::
  "'r ext \<Rightarrow> globals \<Rightarrow> answers \<Rightarrow> u32 \<Rightarrow> string \<Rightarrow> 'r client \<Rightarrow> 'r client outcome"
where
  "client_disconnect_session_by_ifname X G orc tunnelid ifname s =
     (case g_server_list s tunnelid of
        None \<Rightarrow> Ret s
      | Some sv \<Rightarrow> client_disconnect_where X G orc tunnelid (\<lambda>c. sc_ifname c = ifname) s)"

text \<open>These two log a missing tunnel and then lock the mutex of a nil \<^verbatim>\<open>*serverType\<close>.\<close>

definition client_disconnect_session_by_src ::
  "'r ext \<Rightarrow> globals \<Rightarrow> answers \<Rightarrow> u32 \<Rightarrow> string \<Rightarrow> 'r client \<Rightarrow> 'r client outcome"
where
  "client_disconnect_session_by_src X G orc tunnelid src s =
     (case g_server_list s tunnelid of
        None \<Rightarrow> Panic ''nil pointer dereference''
      | Some sv \<Rightarrow> client_disconnect_where X G orc tunnelid (\<lambda>c. sc_src_address c = src) s)"

definition client_disconnect_session_by_convid ::
  "'r ext \<Rightarrow> globals \<Rightarrow> answers \<Rightarrow> u32 \<Rightarrow> u32 \<Rightarrow> 'r client \<Rightarrow> 'r client outcome"
where
  "client_disconnect_session_by_convid X G orc tunnelid disc_convid s =
     (case g_server_list s tunnelid of
        None \<Rightarrow> Panic ''nil pointer dereference''
      | Some sv \<Rightarrow> client_disconnect_where X G orc tunnelid (\<lambda>c. sc_convid c = disc_convid) s)"

section \<open>The invariant\<close>

text \<open>
  A tunnel is in order when its connection map and its hash ring name the same conversations,
  every entry leads to a live connection object of that conversation with an open session, and
  the scheduler's memory is empty or names a member.
\<close>

definition conn_ok :: "'r client \<Rightarrow> u32 \<Rightarrow> addr \<Rightarrow> bool" where
  "conn_ok s k a \<longleftrightarrow> k \<noteq> 0 \<and> a < cl_next s \<and>
     (case cl_heap s a of
        None \<Rightarrow> False
      | Some c \<Rightarrow> sc_convid c = k \<and> sc_alive c \<and>
          (case sc_session c of None \<Rightarrow> False | Some r \<Rightarrow> rs_convid r = k))"

definition bond_ok :: "'r ext \<Rightarrow> u32 \<Rightarrow> 'r serverType \<Rightarrow> bool" where
  "bond_ok X t sv \<longleftrightarrow>
     (case sv_connections sv of
        None \<Rightarrow> sv_consistent sv = None \<and> sv_last_convid sv = 0 \<and>
          (sv_iface sv = None \<or> sv_base_convid sv = t)
      | Some m \<Rightarrow>
          gm_ok m \<and> sv_base_convid sv = t \<and>
          (case sv_consistent sv of
             None \<Rightarrow> False
           | Some r \<Rightarrow> set (ring_members X r) = dec_u32 ` dom (map_of m)) \<and>
          (sv_last_convid sv = 0 \<or> map_of m (sv_last_convid sv) \<noteq> None))"

definition client_inv :: "'r ext \<Rightarrow> 'r client \<Rightarrow> bool" where
  "client_inv X s \<longleftrightarrow>
     (\<forall>t sv. g_server_list s t = Some sv \<longrightarrow> bond_ok X t sv) \<and>
     (\<forall>t k a. conn_tbl t s k = Some a \<longrightarrow> conn_ok s k a) \<and>
     (\<forall>t t' k k' a. conn_tbl t s k = Some a \<longrightarrow> conn_tbl t' s k' = Some a \<longrightarrow> t = t') \<and>
     (\<forall>a. cl_next s \<le> a \<longrightarrow> cl_heap s a = None)"

text \<open>What an operation on tunnel \<open>t\<close> may not touch.\<close>

definition same_identity :: "serverConnection \<Rightarrow> serverConnection \<Rightarrow> bool" where
  "same_identity c c' \<longleftrightarrow>
     sc_convid c' = sc_convid c \<and> sc_ifname c' = sc_ifname c \<and> sc_alive c' = sc_alive c \<and>
     sc_src_address c' = sc_src_address c \<and> sc_wan_ip c' = sc_wan_ip c \<and> sc_up_since c' = sc_up_since c \<and>
     sc_last_hello c' = sc_last_hello c"

definition client_frame :: "u32 \<Rightarrow> 'r client \<Rightarrow> 'r client \<Rightarrow> bool" where
  "client_frame t s s' \<longleftrightarrow>
     (\<forall>t'. t' \<noteq> t \<longrightarrow> g_server_list s' t' = g_server_list s t') \<and>
     (g_server_list s' t = None \<longleftrightarrow> g_server_list s t = None) \<and>
     cl_next s' = cl_next s \<and>
     (\<forall>a. rel_option same_identity (cl_heap s a) (cl_heap s' a)) \<and>
     (\<exists>es. cl_out s' = cl_out s @ es)"

end
