(* ===== verification/Client_Bond.thy ===== *)
theory Client_Bond
  imports Client_State
begin

text \<open>
  Correctness of the client's scheduler and of its disconnect operations. Each operation has
  one lemma that it returns, keeps the invariant and stays within its frame; the loop of the
  disconnect operations is an instance of \<open>closing_loop\<close>.
\<close>

section \<open>Field access after updates\<close>

lemma upd_sv_fields [simp]:
  "g_server_list (upd_sv t f s) = (g_server_list s)(t := map_option f (g_server_list s t))"
  "cl_heap (upd_sv t f s) = cl_heap s"
  "cl_next (upd_sv t f s) = cl_next s"
  "cl_out (upd_sv t f s) = cl_out s"
  by (simp_all add: upd_sv_def)

lemma upd_conn_fields [simp]:
  "g_server_list (upd_conn a f s) = g_server_list s"
  "cl_heap (upd_conn a f s) = (cl_heap s)(a := map_option f (cl_heap s a))"
  "cl_next (upd_conn a f s) = cl_next s"
  "cl_out (upd_conn a f s) = cl_out s"
  by (simp_all add: upd_conn_def)

lemma emit_fields [simp]:
  "g_server_list (emit es s) = g_server_list s"
  "cl_heap (emit es s) = cl_heap s"
  "cl_next (emit es s) = cl_next s"
  "cl_out (emit es s) = cl_out s @ es"
  by (simp_all add: emit_def)

lemma conn_tbl_emit [simp]: "conn_tbl t (emit es s) = conn_tbl t s"
  by (simp add: conn_tbl_def)

lemma conn_tbl_upd_conn [simp]: "conn_tbl t (upd_conn a f s) = conn_tbl t s"
  by (simp add: conn_tbl_def)

lemma conn_tbl_upd_sv:
  "conn_tbl t' (upd_sv t f s) =
     (if t' = t then case g_server_list s t of None \<Rightarrow> Map.empty | Some sv \<Rightarrow> map_of (sv_conns (f sv))
      else conn_tbl t' s)"
  by (simp add: conn_tbl_def split: option.splits)

lemma conn_tbl_Some: "g_server_list s t = Some sv \<Longrightarrow> conn_tbl t s = map_of (sv_conns sv)"
  by (simp add: conn_tbl_def)

section \<open>Consequences of the invariant\<close>

lemma client_inv_conn_ok: "client_inv X s \<Longrightarrow> conn_tbl t s k = Some a \<Longrightarrow> conn_ok s k a"
  by (simp add: client_inv_def)

lemma client_inv_bond_ok: "client_inv X s \<Longrightarrow> g_server_list s t = Some sv \<Longrightarrow> bond_ok X t sv"
  by (simp add: client_inv_def)

lemma client_inv_unshared:
  "client_inv X s \<Longrightarrow> conn_tbl t s k = Some a \<Longrightarrow> conn_tbl t' s k' = Some a \<Longrightarrow> t' = t"
  by (simp add: client_inv_def)

lemma client_inv_fresh: "client_inv X s \<Longrightarrow> cl_next s \<le> a \<Longrightarrow> cl_heap s a = None"
  by (simp add: client_inv_def)

lemma conn_okD:
  assumes "conn_ok s k a"
  obtains c r where "cl_heap s a = Some c" "sc_convid c = k" "sc_alive c"
    "sc_session c = Some r" "rs_convid r = k" "k \<noteq> 0" "a < cl_next s"
  using assms by (auto simp: conn_ok_def split: option.splits)

lemma client_inv_same_key:
  assumes "client_inv X s" "conn_tbl t s k = Some a" "conn_tbl t' s k' = Some a"
  shows "k' = k"
  using client_inv_conn_ok [OF assms(1,2)] client_inv_conn_ok [OF assms(1,3)]
  by (auto elim!: conn_okD)

lemma client_inv_ring:
  assumes "client_inv X s" "g_server_list s t = Some sv" "sv_connections sv = Some m"
  obtains r where "sv_consistent sv = Some r"
    "set (ring_members X r) = dec_u32 ` dom (conn_tbl t s)" "gm_ok m" "sv_base_convid sv = t"
  using client_inv_bond_ok [OF assms(1,2)] assms(2,3) that
  by (auto simp: bond_ok_def conn_tbl_Some sv_conns_def split: option.splits)

lemma conn_tbl_connections:
  "g_server_list s t = Some sv \<Longrightarrow> conn_tbl t s k = Some a \<Longrightarrow> \<exists>m. sv_connections sv = Some m"
  by (auto simp: conn_tbl_def sv_conns_def split: option.splits)

lemma client_inv_base:
  assumes "client_inv X s" "g_server_list s t = Some sv" "conn_tbl t s k = Some a"
  shows "sv_base_convid sv = t"
  using conn_tbl_connections [OF assms(2,3)] client_inv_ring [OF assms(1,2)] by metis

lemma alive_map_dom:
  assumes "client_inv X s" "g_server_list s t = Some sv"
  shows "alive_map sv s k = (case conn_tbl t s k of None \<Rightarrow> None | Some a \<Rightarrow> Some True)"
  using client_inv_conn_ok [OF assms(1), of t k] assms(2)
  by (auto simp: alive_map_def conn_tbl_Some elim!: conn_okD split: option.splits)

lemma alive_map_None:
  assumes "client_inv X s" "g_server_list s t = Some sv"
  shows "(alive_map sv s k = None) = (conn_tbl t s k = None)"
    "(\<exists>b. alive_map sv s k = Some b) = (\<exists>a. conn_tbl t s k = Some a)"
  using alive_map_dom [OF assms, of k] by (auto split: option.splits)

section \<open>Preservation by the building blocks\<close>

lemma client_inv_emit [simp]: "client_inv X (emit es s) = client_inv X s"
  by (simp add: client_inv_def conn_ok_def)

lemma client_inv_upd_conn:
  assumes "client_inv X s"
    and "\<And>c. sc_convid (f c) = sc_convid c \<and> sc_alive (f c) = sc_alive c \<and> sc_session (f c) = sc_session c"
  shows "client_inv X (upd_conn a f s)"
proof -
  have "conn_ok (upd_conn a f s) k b" if "conn_ok s k b" for k b
    using that by (cases "cl_heap s b") (auto simp: conn_ok_def assms(2))
  with assms(1) show ?thesis by (simp add: client_inv_def)
qed

lemma client_inv_set_last:
  assumes "client_inv X s" "c = 0 \<or> conn_tbl t s c \<noteq> None"
  shows "client_inv X (upd_sv t (\<lambda>sv. sv\<lparr>sv_last_convid := c\<rparr>) s)"
proof -
  have bond: "bond_ok X t (sv\<lparr>sv_last_convid := c\<rparr>)" if "g_server_list s t = Some sv" for sv
    using client_inv_bond_ok [OF assms(1) that] assms(2) that
    by (auto simp: bond_ok_def conn_tbl_def sv_conns_def split: option.splits)
  have tbl: "conn_tbl t' (upd_sv t (\<lambda>sv. sv\<lparr>sv_last_convid := c\<rparr>) s) = conn_tbl t' s" for t'
    by (auto simp: conn_tbl_upd_sv conn_tbl_def sv_conns_def split: option.splits)
  show ?thesis
    using assms(1) bond by (auto simp: client_inv_def tbl conn_ok_def)
qed

lemma same_identity_refl [simp]: "same_identity c c"
  by (simp add: same_identity_def)

lemma same_identity_trans: "same_identity a b \<Longrightarrow> same_identity b c \<Longrightarrow> same_identity a c"
  by (simp add: same_identity_def)

lemma rel_same_identity_refl [simp]: "rel_option same_identity x x"
  by (cases x) simp_all

lemma rel_same_identity_trans:
  "rel_option same_identity x y \<Longrightarrow> rel_option same_identity y z \<Longrightarrow> rel_option same_identity x z"
  by (cases x; cases y; cases z) (auto intro: same_identity_trans)

lemma client_frame_refl [simp]: "client_frame t s s"
  by (simp add: client_frame_def)

lemma client_frame_trans:
  assumes "client_frame t s u" "client_frame t u v"
  shows "client_frame t s v"
  using assms unfolding client_frame_def
  by (metis append.assoc rel_same_identity_trans)

lemma client_frame_emit [simp]: "client_frame t s (emit es s)"
  by (simp add: client_frame_def)

lemma client_frame_upd_sv [simp]: "client_frame t s (upd_sv t f s)"
  by (simp add: client_frame_def)

lemma client_frame_upd_conn:
  "(\<And>c. same_identity c (f c)) \<Longrightarrow> client_frame t s (upd_conn a f s)"
  by (auto simp: client_frame_def option.rel_map intro: option.rel_refl)

section \<open>Choosing\<close>

text \<open>Without a packet (and under round robin) the choice is \<open>rr_pick\<close> and is remembered.\<close>

lemma choose_rr:
  assumes "g_server_list s t = Some sv" "packet = None \<or> \<not> g_use_consistent_hashing G"
    "sv_conns sv \<noteq> []"
  shows "client_choose_kcp_conn X G orc packet t s =
    (let c = rr_pick (alive_map sv s) (sv_last_convid sv) (a_order (orc [])) 0
     in Ret ((c, None), upd_sv t (\<lambda>sv. sv\<lparr>sv_last_convid := c\<rparr>) s))"
  using assms by (auto simp: client_choose_kcp_conn_def)

lemma choose_rr_empty:
  assumes "g_server_list s t = Some sv" "packet = None \<or> \<not> g_use_consistent_hashing G"
    "sv_conns sv = []"
  shows "client_choose_kcp_conn X G orc packet t s = Ret ((0, Some ''no connections available''), s)"
  using assms by (auto simp: client_choose_kcp_conn_def)

lemma rr_pick_conn:
  assumes "client_inv X s" "g_server_list s t = Some sv"
  shows "rr_pick (alive_map sv s) lc ks 0 = 0 \<or> conn_tbl t s (rr_pick (alive_map sv s) lc ks 0) \<noteq> None"
  using rr_pick_cases [of "alive_map sv s" lc ks 0] by (auto simp: alive_map_dom [OF assms] split: option.splits)

lemma sv_last_tbl [simp]:
  "conn_tbl t' (upd_sv t (\<lambda>sv. sv\<lparr>sv_last_convid := c\<rparr>) s) = conn_tbl t' s"
  by (auto simp: conn_tbl_upd_sv conn_tbl_def sv_conns_def split: option.splits)

text \<open>Whatever the scheduler does, it changes nothing but the memory of the last choice.\<close>

lemma choose_keeps:
  assumes "client_inv X s"
    and "client_choose_kcp_conn X G orc packet t s = Ret ((c, err), s1)"
  shows "client_inv X s1 \<and> client_frame t s s1 \<and> conn_tbl t' s1 = conn_tbl t' s \<and> cl_heap s1 = cl_heap s \<and>
    cl_out s1 = cl_out s"
proof -
  from assms(2) obtain sv where sv: "g_server_list s t = Some sv"
    by (auto simp: client_choose_kcp_conn_def outcome_simps)
  let ?c = "rr_pick (alive_map sv s) (sv_last_convid sv) (a_order (orc [])) 0"
  consider "s1 = s" | "s1 = upd_sv t (\<lambda>sv. sv\<lparr>sv_last_convid := ?c\<rparr>) s"
    using assms(2) sv
    by (auto simp: client_choose_kcp_conn_def Let_def outcome_simps split: if_splits)
  then show ?thesis
  proof cases
    case 1
    with assms(1) show ?thesis by simp
  next
    case 2
    have "client_inv X s1"
      unfolding 2 by (rule client_inv_set_last [OF assms(1)]) (rule rr_pick_conn [OF assms(1) sv])
    with 2 show ?thesis by simp
  qed
qed

lemma choose_None_total:
  assumes "g_server_list s t = Some sv"
  shows "\<exists>c err s1. client_choose_kcp_conn X G orc None t s = Ret ((c, err), s1)"
  using choose_rr [OF assms, of None] choose_rr_empty [OF assms, of None]
  by (cases "sv_conns sv = []") (auto simp: Let_def)

section \<open>Closing\<close>

lemma client_close_connection_eq:
  assumes "cl_heap s a = Some c" "g_server_list s t = Some sv" "sv_consistent sv = Some r"
  shows "client_close_connection X t a k s = Ret (upd_sv t
      (\<lambda>sv. sv\<lparr>sv_last_convid := 0, sv_consistent := Some (ring_remove X r (dec_u32 k)),
                sv_connections := map_option (gm_del k) (sv_connections sv)\<rparr>)
      (upd_conn a (\<lambda>c. c\<lparr>sc_session := None\<rparr>) (emit (fst (RatSession_Close (sc_session c) None)) s)))"
  using assms by (simp add: client_close_connection_def)

lemma client_close_connection_ok:
  assumes inv: "client_inv X s" and laws: "ring_laws X" and k: "conn_tbl t s k = Some a"
  obtains s' c r where "client_close_connection X t a k s = Ret s'" "client_inv X s'"
    "client_frame t s s'" "conn_tbl t s' = (conn_tbl t s)(k := None)"
    "cl_heap s a = Some c" "sc_session c = Some r"
    "cl_heap s' = (cl_heap s)(a \<mapsto> c\<lparr>sc_session := None\<rparr>)"
    "cl_out s' = cl_out s @ fst (RatSession_Close (Some r) None)"
proof -
  obtain sv where sv: "g_server_list s t = Some sv"
    using k by (auto simp: conn_tbl_def split: option.splits)
  obtain m where m: "sv_connections sv = Some m" using conn_tbl_connections [OF sv k] by blast
  obtain r where r: "sv_consistent sv = Some r"
    "set (ring_members X r) = dec_u32 ` dom (conn_tbl t s)" "gm_ok m" "sv_base_convid sv = t"
    by (rule client_inv_ring [OF inv sv m])
  obtain c q where c: "cl_heap s a = Some c" "sc_session c = Some q"
    using client_inv_conn_ok [OF inv k] by (auto elim: conn_okD)
  let ?f = "\<lambda>sv. sv\<lparr>sv_last_convid := 0, sv_consistent := Some (ring_remove X r (dec_u32 k)),
                sv_connections := map_option (gm_del k) (sv_connections sv)\<rparr>"
  let ?s' = "upd_sv t ?f (upd_conn a (\<lambda>c. c\<lparr>sc_session := None\<rparr>)
                (emit (fst (RatSession_Close (sc_session c) None)) s))"
  have tbl_t: "conn_tbl t ?s' = (conn_tbl t s)(k := None)"
    using sv m by (simp add: conn_tbl_upd_sv conn_tbl_Some sv_conns_def)
  have tbl_o: "t' \<noteq> t \<Longrightarrow> conn_tbl t' ?s' = conn_tbl t' s" for t'
    by (simp add: conn_tbl_upd_sv)
  have sub: "conn_tbl t' ?s' k' = Some b \<Longrightarrow> conn_tbl t' s k' = Some b \<and> b \<noteq> a" for t' k' b
    using tbl_t tbl_o [of t'] client_inv_same_key [OF inv k, of t' k'] client_inv_unshared [OF inv k, of t' k']
    by (cases "t' = t") (auto split: if_splits)
  have bond: "bond_ok X t (?f sv)"
    using r m sv by (auto simp: bond_ok_def conn_tbl_Some sv_conns_def ring_laws_remove [OF laws])
  have "client_inv X ?s'"
    unfolding client_inv_def
  proof (intro conjI allI impI)
    fix t' sv' assume "g_server_list ?s' t' = Some sv'"
    then show "bond_ok X t' sv'"
      using bond sv client_inv_bond_ok [OF inv, of t' sv'] by (auto split: if_splits)
  next
    fix t' k' b assume "conn_tbl t' ?s' k' = Some b"
    with sub have "conn_tbl t' s k' = Some b" "b \<noteq> a" by auto
    with client_inv_conn_ok [OF inv] show "conn_ok ?s' k' b" by (simp add: conn_ok_def)
  next
    fix t' t'' k' k'' b
    assume "conn_tbl t' ?s' k' = Some b" "conn_tbl t'' ?s' k'' = Some b"
    then have "conn_tbl t' s k' = Some b" "conn_tbl t'' s k'' = Some b" using sub by blast+
    then show "t' = t''" using client_inv_unshared [OF inv] by blast
  next
    fix b assume "cl_next ?s' \<le> b"
    with client_inv_fresh [OF inv, of b] show "cl_heap ?s' b = None" by auto
  qed
  moreover have "client_frame t s ?s'"
    by (intro client_frame_trans [OF client_frame_trans [OF client_frame_emit client_frame_upd_conn]
          client_frame_upd_sv]) (simp add: same_identity_def)
  ultimately show ?thesis
    using that [of ?s' c q] client_close_connection_eq [OF c(1) sv r(1), of X k] tbl_t c by simp
qed

section \<open>The LINKDOWN message\<close>

lemma client_send_linkdown_ok:
  assumes inv: "client_inv X s" and sv: "g_server_list s t = Some sv"
  shows "\<exists>s'. client_send_linkdown_message X G orc t d s = Ret s' \<and> client_inv X s' \<and>
    client_frame t s s' \<and> conn_tbl t s' = conn_tbl t s"
proof -
  obtain c err s1 where ch: "client_choose_kcp_conn X G orc None t s = Ret ((c, err), s1)"
    using choose_None_total [OF sv] by blast
  note k = choose_keeps [OF inv ch, of t]
  show ?thesis
  proof (cases "err \<noteq> None \<or> c = 0 \<or> conn_tbl t s1 c = None")
    case True
    then show ?thesis
      using ch k by (auto simp: client_send_linkdown_message_def split: option.splits)
  next
    case False
    then obtain a where a: "conn_tbl t s1 c = Some a" by auto
    obtain e q where e: "cl_heap s1 a = Some e" "sc_session e = Some q"
      using client_inv_conn_ok [of X s1 t c a] k a by (auto elim: conn_okD)
    let ?s2 = "emit ([KcpWriteDeadline (rs_kcp q) g_write_deadline] @ [KcpWrite (rs_kcp q) (linkdown_msg d)]) s1"
    let ?s3 = "upd_conn a (\<lambda>c. c\<lparr>sc_txcounter := sc_txcounter c + 1, sc_txbytes := sc_txbytes c + 2\<rparr>) ?s2"
    have "client_send_linkdown_message X G orc t d s = Ret (if a_write (orc []) \<noteq> None then ?s2 else ?s3)"
      using False ch a e
      by (simp add: client_send_linkdown_message_def RatSession_SetWriteDeadline_def RatSession_Write_def)
    moreover have "client_inv X ?s2" "client_inv X ?s3"
      using k by (auto intro!: client_inv_upd_conn)
    moreover have "client_frame t s ?s2" "client_frame t s ?s3"
      using k
      by (auto intro!: client_frame_trans [OF _ client_frame_emit] client_frame_trans [OF _ client_frame_upd_conn]
          simp: same_identity_def)
    ultimately show ?thesis using k by simp
  qed
qed

text \<open>If the bond still has members, one of them carries the message.\<close>

lemma client_send_linkdown_sends:
  assumes inv: "client_inv X s" and sv: "g_server_list s t = Some sv"
    and left: "conn_tbl t s k = Some a" and cov: "covers orc (dom (conn_tbl t s))"
  shows "\<exists>s' k' a' c' r'. client_send_linkdown_message X G orc t d s = Ret s' \<and>
    conn_tbl t s k' = Some a' \<and> cl_heap s a' = Some c' \<and> sc_session c' = Some r' \<and>
    cl_out s' = cl_out s @ [KcpWriteDeadline (rs_kcp r') g_write_deadline, KcpWrite (rs_kcp r') (linkdown_msg d)]"
proof -
  let ?c = "rr_pick (alive_map sv s) (sv_last_convid sv) (a_order (orc [])) 0"
  let ?s1 = "upd_sv t (\<lambda>sv. sv\<lparr>sv_last_convid := ?c\<rparr>) s"
  have "sv_conns sv \<noteq> []" using left sv by (auto simp: conn_tbl_Some)
  then have ch: "client_choose_kcp_conn X G orc None t s = Ret ((?c, None), ?s1)"
    using choose_rr [OF sv, of None] by (simp add: Let_def)
  have "k \<in> set (a_order (orc []))" using covers_order [OF cov] left by blast
  then have "\<exists>j \<in> set (a_order (orc [])). alive_map sv s j \<noteq> None"
    using left by (auto simp: alive_map_None [OF inv sv])
  then have "alive_map sv s ?c \<noteq> None" by (rule rr_pick_dom)
  then obtain a' where a': "conn_tbl t s ?c = Some a'"
    by (auto simp: alive_map_None [OF inv sv])
  from client_inv_conn_ok [OF inv a'] obtain c' r' where
    c': "cl_heap s a' = Some c'" "sc_session c' = Some r'" "?c \<noteq> 0" by (rule conn_okD)
  obtain s' where s': "client_send_linkdown_message X G orc t d s = Ret s'"
    using client_send_linkdown_ok [OF inv sv] by blast
  then have "cl_out s' = cl_out s @
      [KcpWriteDeadline (rs_kcp r') g_write_deadline, KcpWrite (rs_kcp r') (linkdown_msg d)]"
    using ch a' c'
    by (auto simp: client_send_linkdown_message_def RatSession_SetWriteDeadline_def RatSession_Write_def
        Let_def split: if_splits)
  with s' a' c' show ?thesis by blast
qed

section \<open>Disconnecting\<close>

definition selects :: "(serverConnection \<Rightarrow> bool) \<Rightarrow> 'r client \<Rightarrow> u32 \<Rightarrow> addr \<Rightarrow> bool" where
  "selects P s k a \<longleftrightarrow> (case cl_heap s a of None \<Rightarrow> False | Some c \<Rightarrow> P c)"

definition by_identity :: "(serverConnection \<Rightarrow> bool) \<Rightarrow> bool" where
  "by_identity P \<longleftrightarrow> (\<forall>c c'. same_identity c c' \<longrightarrow> P c' = P c)"

lemma by_identity_fields [simp]:
  "by_identity (\<lambda>c. sc_ifname c = x)" "by_identity (\<lambda>c. sc_src_address c = x)"
  "by_identity (\<lambda>c. sc_convid c = y)"
  by (simp_all add: by_identity_def same_identity_def)

lemma frame_selects:
  assumes "client_frame t s s'" "by_identity P"
  shows "selects P s' k a = selects P s k a"
proof -
  have "rel_option same_identity (cl_heap s a) (cl_heap s' a)"
    using assms(1) by (simp add: client_frame_def)
  with assms(2) show ?thesis
    by (cases "cl_heap s a"; cases "cl_heap s' a") (auto simp: selects_def by_identity_def)
qed

lemma disconnect_body_ok:
  assumes laws: "ring_laws X" and inv: "client_inv X s" and k: "conn_tbl t s k = Some a"
  shows "\<exists>s'. client_disconnect_body X G orc t P k a s = Ret s' \<and> client_inv X s' \<and> client_frame t s s' \<and>
    conn_tbl t s' = (if selects P s k a then (conn_tbl t s)(k := None) else conn_tbl t s)"
proof -
  obtain s1 c where s1: "client_close_connection X t a k s = Ret s1" "client_inv X s1"
    "client_frame t s s1" "conn_tbl t s1 = (conn_tbl t s)(k := None)" and c: "cl_heap s a = Some c"
    using client_close_connection_ok [OF inv laws k] by metis
  obtain sv where sv: "g_server_list s1 t = Some sv"
    using s1(3) k by (auto simp: client_frame_def conn_tbl_def split: option.splits)
  obtain s2 where "client_send_linkdown_message X G (sub_oracle k orc) t k s1 = Ret s2"
    "client_inv X s2" "client_frame t s1 s2" "conn_tbl t s2 = conn_tbl t s1"
    using client_send_linkdown_ok [OF s1(2) sv] by blast
  then show ?thesis
    using s1 c inv client_frame_trans [OF s1(3)]
    by (cases "P c") (auto simp: client_disconnect_body_def selects_def)
qed

interpretation cd: closing_loop "conn_tbl t" "selects P" "client_disconnect_body X G orc t P"
  "\<lambda>s. ring_laws X \<and> client_inv X s \<and> by_identity P" "client_frame t"
  for X :: "'r ext" and G orc t P
proof unfold_locales
  show "client_frame t s s" for s :: "'r client" by simp
  show "client_frame t s v" if "client_frame t s u" "client_frame t u v" for s u v :: "'r client"
    using that by (rule client_frame_trans)
  fix s s' :: "'r client" and k a k' a'
  assume i: "ring_laws X \<and> client_inv X s \<and> by_identity P" and k: "conn_tbl t s k = Some a"
  note ok = disconnect_body_ok [of X s t k a G orc P]
  show "\<exists>s'. client_disconnect_body X G orc t P k a s = Ret s'"
    using ok i k by blast
  assume b: "client_disconnect_body X G orc t P k a s = Ret s'"
  then show "ring_laws X \<and> client_inv X s' \<and> by_identity P" "client_frame t s s'"
    and "conn_tbl t s' = (if selects P s k a then (conn_tbl t s)(k := None) else conn_tbl t s)"
    using ok i k by auto
  then show "selects P s' k' a' = selects P s k' a'"
    using frame_selects i by blast
qed

text \<open>The contract of the three disconnect operations.\<close>

lemma client_disconnect_where_ok:
  assumes "ring_laws X" "client_inv X s" "by_identity P" "covers orc (dom (conn_tbl t s))"
  shows "\<exists>s'. client_disconnect_where X G orc t P s = Ret s' \<and> client_inv X s' \<and> client_frame t s s' \<and>
    conn_tbl t s' = keep_unless UNIV (selects P s) (conn_tbl t s)"
  using cd.loop_closes_all [of X s P t "a_order (orc [])" G orc] assms covers_order [OF assms(4)]
  unfolding client_disconnect_where_def by blast

lemma keep_unless_selects:
  "keep_unless UNIV (selects P s) (conn_tbl t s) k = Some a \<longleftrightarrow>
     conn_tbl t s k = Some a \<and> (\<forall>c. cl_heap s a = Some c \<longrightarrow> \<not> P c)"
  by (auto simp: keep_unless_apply selects_def split: option.splits)

section \<open>The hash scheduler on the client's bond\<close>

interpretation ch: hashed_bond X "conn_tbl t" "\<lambda>s. Option.bind (g_server_list s t) sv_consistent"
  "client_hash_choice X" "client_inv X"
  for X :: "'r ext" and t
proof unfold_locales
  fix s :: "'r client" and k a
  assume inv: "client_inv X s" and k: "conn_tbl t s k = Some a"
  then obtain sv where sv: "g_server_list s t = Some sv"
    by (auto simp: conn_tbl_def split: option.splits)
  obtain m where "sv_connections sv = Some m" using conn_tbl_connections [OF sv k] by blast
  from client_inv_ring [OF inv sv this] obtain r where
    "sv_consistent sv = Some r" "set (ring_members X r) = dec_u32 ` dom (conn_tbl t s)" .
  with sv show "\<exists>r. Option.bind (g_server_list s t) sv_consistent = Some r \<and>
      set (ring_members X r) = dec_u32 ` dom (conn_tbl t s)" by simp
qed (simp add: client_hash_choice_def)

end
