(* ===== verification/Free_Id.thy ===== *)
theory Free_Id
  imports Prelude
begin

text \<open>
  The search for a free conversation id, which \<^verbatim>\<open>client_connect_server\<close> of \<^verbatim>\<open>main.go\<close> and of
  \<^verbatim>\<open>t/main_withchannels.go\<close> share.
\<close>

section \<open>The loop\<close>

text \<open>
  The search for a conversation id. \<open>used\<close> is membership in the connection map. The loop runs
  while \<^verbatim>\<open>avail <= tunnelid+10\<close> in 32-bit arithmetic, so it need not stop by itself.
\<close>

partial_function (option) find_avail :: "(u32 \<Rightarrow> bool) \<Rightarrow> u32 \<Rightarrow> u32 \<Rightarrow> u32 option" where
  "find_avail used limit avail =
     (if avail \<le> limit then (if used avail then find_avail used limit (avail + 1) else Some avail)
      else Some avail)"

declare find_avail.simps [code]

section \<open>What it finds\<close>

lemma find_avail_stop: "\<not> used a \<or> limit < a \<Longrightarrow> find_avail used limit a = Some a"
  by (subst find_avail.simps) auto

lemma find_avail_step: "used a \<Longrightarrow> a \<le> limit \<Longrightarrow> find_avail used limit a = find_avail used limit (a + 1)"
  by (subst find_avail.simps) auto

lemma find_avail_range:
  assumes "unat limit + 1 < 2 ^ 32" "unat a \<le> unat limit + 1"
  shows "\<exists>r. find_avail used limit a = Some r \<and> a \<le> r \<and> unat r \<le> unat limit + 1 \<and>
    (r \<le> limit \<longrightarrow> \<not> used r) \<and> (\<forall>k. a \<le> k \<and> k < r \<longrightarrow> used k)"
  using assms(2)
proof (induction "unat limit + 1 - unat a" arbitrary: a)
  case 0
  then have "limit < a" by (simp add: word_less_nat_alt)
  with 0 show ?case using find_avail_stop [of used a limit] by auto
next
  case (Suc d)
  show ?case
  proof (cases "used a")
    case False
    with Suc show ?thesis using find_avail_stop [of used a limit] by auto
  next
    case True
    from Suc(2) have le: "a \<le> limit" by (simp add: word_le_nat_alt)
    have un: "unat (a + 1) = unat a + 1"
      using Suc(2) assms(1) by (simp add: unat_word_ariths)
    have "d = unat limit + 1 - unat (a + 1)" "unat (a + 1) \<le> unat limit + 1"
      using Suc(2) un by auto
    from Suc(1) [OF this] obtain r where r: "find_avail used limit (a + 1) = Some r" "a + 1 \<le> r"
      "unat r \<le> unat limit + 1" "r \<le> limit \<longrightarrow> \<not> used r" "\<forall>k. a + 1 \<le> k \<and> k < r \<longrightarrow> used k" by blast
    have "a \<le> r" using r(2) un by (simp add: word_le_nat_alt)
    moreover have "used k" if "a \<le> k" "k < r" for k
    proof (cases "k = a")
      case False
      with that(1) un have "a + 1 \<le> k" by (simp add: word_le_nat_alt word_unat_eq_iff)
      with that(2) r(5) show ?thesis by blast
    qed (use True in simp)
    ultimately show ?thesis using r find_avail_step [of used a limit, OF True le] by auto
  qed
qed

lemma unat_plus_10: "unat (t :: u32) + 11 < 2 ^ 32 \<Longrightarrow> unat (t + 10) = unat t + 10"
  by (simp add: unat_word_ariths)

lemma lowest_free_id:
  assumes "find_avail used (t + 10) t = Some k" "unat t + 11 < 2 ^ 32"
  shows "t \<le> k \<and> unat k \<le> unat t + 11 \<and> (\<forall>j. t \<le> j \<and> j < k \<longrightarrow> used j) \<and> (unat k \<le> unat t + 10 \<longrightarrow> \<not> used k)"
proof -
  have lim: "unat (t + 10) = unat t + 10" by (rule unat_plus_10 [OF assms(2)])
  have "\<exists>r. find_avail used (t + 10) t = Some r \<and> t \<le> r \<and> unat r \<le> unat (t + 10) + 1 \<and>
    (r \<le> t + 10 \<longrightarrow> \<not> used r) \<and> (\<forall>j. t \<le> j \<and> j < r \<longrightarrow> used j)"
    by (rule find_avail_range) (use lim assms(2) in simp_all)
  then show ?thesis using assms(1) lim by (auto simp: word_le_nat_alt)
qed

end
