(* ===== verification/Client_Run.thy ===== *)
theory Client_Run
  imports Client_Bond Free_Id
begin

text \<open>
  The client at work (\<^verbatim>\<open>main.go\<close>): joining the bond (\<^verbatim>\<open>client_connect_server\<close>), the default route
  (\<^verbatim>\<open>client_check_paths\<close>), the goroutines that read a session and the tun device, and the HELLO
  round. A goroutine's loop is given by its body; the points where it blocks cut the body
  into steps between which other goroutines may run.
\<close>

section \<open>Joining the bond\<close>

text \<open>What the outside answers during one \<^verbatim>\<open>client_connect_server\<close>; \<open>ce_route\<close> is the output of \<^verbatim>\<open>ip route show\<close>.\<close>

record connect_env =
  ce_tun :: "go_error + iface"
  ce_ifaces :: "go_error + net_iface list"
  ce_resolve :: "string \<Rightarrow> go_error option"
  ce_http :: "go_error + string"
  ce_dial :: dial
  ce_now_bw :: int
  ce_now_hello :: int
  ce_now_up :: int
  ce_route :: "go_error + string"

definition new_serverType :: "'r serverType" where
  "new_serverType = \<lparr>sv_connections = None, sv_consistent = None, sv_iface = None,
     sv_base_convid = 0, sv_last_convid = 0, sv_ifname = '''', sv_my_tun_ip = '''',
     sv_remote_tun_ip = '''', sv_reorder_buffer = None\<rparr>"

text \<open>Create the tun device if the tunnel has none; the flag says whether its reader must be started.\<close>

definition client_ensure_tun ::
  "'r ext \<Rightarrow> globals \<Rightarrow> connect_env \<Rightarrow> u32 \<Rightarrow> 'r serverType \<Rightarrow> 'r client \<Rightarrow> ('r client \<times> bool) outcome"
where
  "client_ensure_tun X G E t sv s =
     (if sv_iface sv \<noteq> None then Ret (s, False)
      else let ((i, err), eff) = createTun G (ce_tun E) t (g_client_tun_ip G)
      in obind (case i of None \<Rightarrow> nil_iface_Name X | Some n \<Rightarrow> Ret n) (\<lambda>name.
           Ret (upd_sv t (\<lambda>sv. sv\<lparr>sv_iface := i, sv_my_tun_ip := g_client_tun_ip G,
                                    sv_remote_tun_ip := g_server_tun_ip G, sv_ifname := name,
                                    sv_base_convid := t\<rparr>) (emit eff s), True)))"

definition client_ensure_map :: "'r ext \<Rightarrow> 'r serverType \<Rightarrow> 'r serverType" where
  "client_ensure_map X sv =
     (if sv_connections sv = None
      then sv\<lparr>sv_connections := Some [], sv_consistent := Some (ring_new X)\<rparr> else sv)"

text \<open>
  The first half of \<^verbatim>\<open>client_connect_server\<close>: up to and including the slow lookup of the WAN
  address, which runs without the lock. \<open>Inl\<close>: the function has returned.
\<close>

definition client_connect_prepare ::
  "'r ext \<Rightarrow> globals \<Rightarrow> connect_env \<Rightarrow> u32 \<Rightarrow> string \<Rightarrow> string \<Rightarrow> 'r client \<Rightarrow>
     ('r client + 'r client \<times> u32 \<times> bool \<times> string) outcome"
where
  "client_connect_prepare X G E t src ifname s =
     (let sv = (case g_server_list s t of None \<Rightarrow> new_serverType | Some sv \<Rightarrow> sv);
          s0 = s\<lparr>g_server_list := (g_server_list s)(t \<mapsto> sv)\<rparr>
      in if int (client_num_connections_by_src src sv s) \<ge> g_mux_max G then Ret (Inl s0)
         else obind (client_ensure_tun X G E t sv s0) (\<lambda>(s1, spawn_tun).
           let s2 = upd_sv t (client_ensure_map X) s1
           in case find_avail (\<lambda>k. conn_tbl t s2 k \<noteq> None) (t + 10) t of
                None \<Rightarrow> Diverge
              | Some avail \<Rightarrow>
                  if avail = t + 100 then Ret (Inl s2)
                  else obind (get_wan_ip (ce_ifaces E) (ce_resolve E) (ce_http E) ifname)
                    (\<lambda>(wan_ip, err). Ret (Inr (s2, avail, spawn_tun, wan_ip)))))"

definition client_check_paths :: "globals \<Rightarrow> go_error + string \<Rightarrow> 'r client \<Rightarrow> 'r client" where
  "client_check_paths G route s =
     (case g_server_list s (g_tunnel_id G) of
        None \<Rightarrow> s
      | Some sv \<Rightarrow>
          (let check = runthing route;
               s1 = emit [RunThing [''ip'', ''route'', ''show'', ''match'', ''0.0.0.0'']] s
           in if length (sv_conns sv) > 0 then
                (if str_contains check (sv_remote_tun_ip sv) then s1
                 else emit [RunThing [''ip'', ''route'', ''add'', ''default'', ''via'', sv_remote_tun_ip sv]] s1)
              else
                (if str_contains check (sv_remote_tun_ip sv)
                 then emit [RunThing [''ip'', ''route'', ''delete'', ''default'', ''via'', sv_remote_tun_ip sv]] s1
                 else s1)))"

definition new_serverConnection ::
  "connect_env \<Rightarrow> u32 \<Rightarrow> string \<Rightarrow> string \<Rightarrow> string \<Rightarrow> RatSession \<Rightarrow> serverConnection"
where
  "new_serverConnection E avail src wan_ip ifname r = \<lparr>
     sc_convid = avail, sc_session = Some r, sc_ifname = ifname, sc_rxloss = 0, sc_txloss = 0,
     sc_txcounter = 0, sc_txbytes = 0, sc_rxcounter = 0, sc_rxbytes = 0, sc_rxtimeouts = 0,
     sc_txtimeouts = 0, sc_priority = 0, sc_last_bw_update = ce_now_bw E,
     sc_txbandwidth = F32_zero, sc_rxbandwidth = F32_zero, sc_last_hello = ce_now_hello E,
     sc_up_since = ce_now_up E, sc_alive = True, sc_src_address = src, sc_wan_ip = wan_ip\<rparr>"

text \<open>The second half: enter the connection, dial, greet the server, start the goroutines.\<close>

definition client_connect_commit ::
  "'r ext \<Rightarrow> globals \<Rightarrow> connect_env \<Rightarrow> u32 \<Rightarrow> string \<Rightarrow> string \<Rightarrow> u32 \<Rightarrow> bool \<Rightarrow> string \<Rightarrow> 'r client \<Rightarrow>
     'r client outcome"
where
  "client_connect_commit X G E t src ifname avail spawn_tun wan_ip s =
     obind (of_option ''nil pointer dereference'' (g_server_list s t)) (\<lambda>sv.
     obind (of_option ''assignment to entry in nil map'' (sv_connections sv)) (\<lambda>m.
     obind (create_session X G (ce_dial E) avail src) (\<lambda>res.
       case res of
         Inl e \<Rightarrow> Panic ''kcp conn create error:''
       | Inr (r, eff) \<Rightarrow>
           obind (of_option ''nil pointer dereference'' (sv_consistent sv)) (\<lambda>ring.
             let a = cl_next s;
                 s1 = s\<lparr>cl_heap := (cl_heap s)(a \<mapsto> new_serverConnection E avail src wan_ip ifname r),
                        cl_next := Suc a\<rparr>;
                 s2 = upd_sv t (\<lambda>sv. sv\<lparr>sv_last_convid := 0, sv_connections := Some (gm_put avail a m),
                        sv_consistent := Some (ring_add X ring (dec_u32 avail))\<rparr>) s1;
                 s3 = emit (eff @ fst (RatSession_SetWriteDeadline (Some r) g_write_deadline)
                        @ fst (RatSession_Write (Some r) g_hello None)
                        @ [Spawn (Go_client_handle_kcp t a)]
                        @ (if spawn_tun then [Spawn (Go_client_handle_tun t)] else [])) s2
             in Ret (client_check_paths G (ce_route E) s3)))))"

definition client_connect_server ::
  "'r ext \<Rightarrow> globals \<Rightarrow> connect_env \<Rightarrow> u32 \<Rightarrow> string \<Rightarrow> string \<Rightarrow> 'r client \<Rightarrow> 'r client outcome"
where
  "client_connect_server X G E tunnelid src ifname s =
     obind (client_connect_prepare X G E tunnelid src ifname s) (\<lambda>res.
       case res of
         Inl s' \<Rightarrow> Ret s'
       | Inr (s', avail, spawn_tun, wan_ip) \<Rightarrow>
           client_connect_commit X G E tunnelid src ifname avail spawn_tun wan_ip s')"

section \<open>The reader of a session\<close>

text \<open>Whether a loop goes on (with the goroutine's own timeout counter) or the goroutine ends.\<close>

datatype control = Again nat | Done

text \<open>
  \<^verbatim>\<open>client_handle_kcp\<close>, from the top of the loop to the call of \<^verbatim>\<open>Read\<close>. \<open>kcpstate\<close> is the answer of
  \<^verbatim>\<open>GetState\<close>.
\<close>

definition client_handle_kcp_begin ::
  "'r ext \<Rightarrow> globals \<Rightarrow> answers \<Rightarrow> u32 \<Rightarrow> addr \<Rightarrow> u32 \<Rightarrow> nat \<Rightarrow> 'r client \<Rightarrow> (control \<times> 'r client) outcome"
where
  "client_handle_kcp_begin X G orc t a kcpstate rxtimeouts s =
     obind (of_option ''nil pointer dereference'' (cl_heap s a)) (\<lambda>c.
     obind (of_option ''nil pointer dereference'' (g_server_list s t)) (\<lambda>sv.
       if sc_session c = None then Ret (Done, s)
       else if RatSession_GetState (sc_session c) kcpstate = 0xFFFFFFFF then
         obind (client_disconnect_session_by_convid X G orc (sv_base_convid sv) (sc_convid c) s)
           (\<lambda>s'. Ret (Done, s'))
       else Ret (Again rxtimeouts, emit (fst (RatSession_SetReadDeadline (sc_session c) 5000)) s)))"

text \<open>What happens when \<^verbatim>\<open>Read\<close> has returned; \<open>now1\<close> and \<open>now2\<close> are the two readings of the clock.\<close>

definition client_handle_kcp_read ::
  "'r ext \<Rightarrow> globals \<Rightarrow> answers \<Rightarrow> u32 \<Rightarrow> addr \<Rightarrow> go_error + u8 list \<Rightarrow> int \<Rightarrow> int \<Rightarrow> nat \<Rightarrow> 'r client \<Rightarrow>
     (control \<times> 'r client) outcome"
where
  "client_handle_kcp_read X G orc t a result now1 now2 rxtimeouts s =
     obind (of_option ''nil pointer dereference'' (cl_heap s a)) (\<lambda>c.
     obind (of_option ''nil pointer dereference'' (g_server_list s t)) (\<lambda>sv.
       case result of
         Inl e \<Rightarrow>
           (if e = ''timeout'' then
              (let s1 = upd_conn a (\<lambda>c. c\<lparr>sc_rxtimeouts := sc_rxtimeouts c + 1\<rparr>) s
               in if unat (sc_rxtimeouts c + 1) > g_client_max_rxtimeouts \<or>
                     Suc rxtimeouts > g_client_max_rxtimeouts
                  then obind (client_disconnect_session_by_convid X G orc (sv_base_convid sv) (sc_convid c) s1)
                         (\<lambda>s'. Ret (Done, s'))
                  else Ret (Again (Suc rxtimeouts), s1))
            else obind (client_disconnect_session_by_convid X G orc (sv_base_convid sv) (sc_convid c) s)
                   (\<lambda>s'. Ret (Done, s')))
       | Inr m \<Rightarrow>
           (let s1 = upd_conn a (\<lambda>c. c\<lparr>sc_rxcounter := sc_rxcounter c + 1,
                        sc_rxbytes := sc_rxbytes c + of_nat (length m), sc_last_hello := now1\<rparr>) s
            in if is_hello m then Ret (Again 0, upd_conn a (\<lambda>c. c\<lparr>sc_last_hello := now2\<rparr>) s1)
               else Ret (Again 0, case sv_iface sv of None \<Rightarrow> s1 | Some i \<Rightarrow> emit [TunWrite i m] s1))))"

section \<open>The HELLO round\<close>

definition client_send_hello ::
  "'r ext \<Rightarrow> globals \<Rightarrow> answers \<Rightarrow> addr \<Rightarrow> u32 \<Rightarrow> 'r client \<Rightarrow> 'r client outcome"
where
  "client_send_hello X G orc a base_convid s =
     obind (of_option ''nil pointer dereference'' (cl_heap s a)) (\<lambda>c.
       let (e1, _) = RatSession_SetWriteDeadline (sc_session c) 6000;
           (e2, err) = RatSession_Write (sc_session c) g_hello (a_write (orc []));
           s1 = emit (e1 @ e2) s
       in if err = Some ''timeout'' then
            client_disconnect_session_by_convid X G orc base_convid (sc_convid c)
              (upd_conn a (\<lambda>c. c\<lparr>sc_txtimeouts := sc_txtimeouts c + 1\<rparr>) s1)
          else Ret s1)"

definition client_ping_body ::
  "'r ext \<Rightarrow> globals \<Rightarrow> answers \<Rightarrow> u32 \<Rightarrow> u32 \<Rightarrow> addr \<Rightarrow> 'r client \<Rightarrow> 'r client outcome"
where
  "client_ping_body X G orc t convid a s =
     obind (of_option ''nil pointer dereference'' (cl_heap s a)) (\<lambda>c.
     obind (of_option ''nil pointer dereference'' (g_server_list s t)) (\<lambda>sv.
       let t1 = a_now (orc [convid])
       in if t1 - sc_last_hello c > g_max_hello * ns_per_s then
            client_disconnect_session_by_convid X G (sub_oracle convid orc) (sv_base_convid sv) (sc_convid c) s
          else
            Ret (upd_conn a (\<lambda>c. c\<lparr>
                   sc_txbandwidth := F32_mbps (sc_txbytes c) (t1 - sc_last_bw_update c), sc_txbytes := 0,
                   sc_rxbandwidth := F32_mbps (sc_rxbytes c) (t1 - sc_last_bw_update c), sc_rxbytes := 0,
                   sc_last_bw_update := t1\<rparr>)
                 (if sc_session c \<noteq> None then emit [Spawn (Go_client_send_hello a (sv_base_convid sv))] s
                  else s))))"

definition client_send_server_pings ::
  "'r ext \<Rightarrow> globals \<Rightarrow> answers \<Rightarrow> 'r client \<Rightarrow> 'r client outcome"
where
  "client_send_server_pings X G orc s =
     for_range g_server_list
       (\<lambda>t sv. for_range (conn_tbl t) (client_ping_body X G (sub_oracle t orc) t)
                 (a_order (sub_oracle t orc [])))
       (a_order (orc [])) s"

section \<open>The reader of the tun device\<close>

text \<open>
  Sending the bytes \<open>data\<close> over the connection at \<open>a\<close>. \<open>kcpstate\<close> and \<open>write\<close> are the answers of its
  session. A session that KCP has given up, and one whose write fails other than by timeout,
  leaves the bond; the packet is lost.
\<close>

definition client_tun_send ::
  "'r ext \<Rightarrow> globals \<Rightarrow> answers \<Rightarrow> u32 \<Rightarrow> addr \<Rightarrow> u8 list \<Rightarrow> u32 \<Rightarrow> go_error option \<Rightarrow> 'r client \<Rightarrow>
     'r client outcome"
where
  "client_tun_send X G orc t a data kcpstate write s =
     obind (of_option ''nil pointer dereference'' (cl_heap s a)) (\<lambda>c.
     obind (of_option ''nil pointer dereference'' (g_server_list s t)) (\<lambda>sv.
       if sc_session c = None then Ret s
       else if RatSession_GetState (sc_session c) kcpstate = 0xFFFFFFFF then
         client_disconnect_session_by_convid X G orc (sv_base_convid sv) (sc_convid c) s
       else
         let (e1, _) = RatSession_SetWriteDeadline (sc_session c) g_write_deadline;
             (e2, werr) = RatSession_Write (sc_session c) data write;
             s1 = emit (e1 @ e2) s
         in if werr = None then
              Ret (upd_conn a (\<lambda>c. c\<lparr>sc_txcounter := sc_txcounter c + 1,
                     sc_txbytes := sc_txbytes c + of_nat (length data)\<rparr>) s1)
            else if werr = Some ''timeout'' then
              Ret (upd_conn a (\<lambda>c. c\<lparr>sc_txtimeouts := sc_txtimeouts c + 1\<rparr>) s1)
            else client_disconnect_session_by_convid X G orc (sv_base_convid sv) (sc_convid c) s1))"

text \<open>
  One round of \<^verbatim>\<open>client_handle_tun\<close> after \<^verbatim>\<open>Read\<close> has returned the buffer and how many bytes of it
  were read.
\<close>

definition client_handle_tun_read ::
  "'r ext \<Rightarrow> globals \<Rightarrow> answers \<Rightarrow> u32 \<Rightarrow> go_error + u8 list \<times> nat \<Rightarrow> u32 \<Rightarrow> go_error option \<Rightarrow> 'r client \<Rightarrow>
     (control \<times> 'r client) outcome"
where
  "client_handle_tun_read X G orc t result kcpstate write s =
     (case result of
        Inl e \<Rightarrow> Ret (Done, s)
      | Inr (packet, n) \<Rightarrow>
          obind (client_choose_kcp_conn X G orc (Some (packet, int n)) t s) (\<lambda>((chose_convid, err), s1).
            if err \<noteq> None \<or> chose_convid = 0 then Ret (Again 0, s1)
            else case conn_tbl t s1 chose_convid of
              None \<Rightarrow> Ret (Again 0, s1)
            | Some a \<Rightarrow>
                obind (client_tun_send X G (sub_oracle 0 orc) t a (take n packet) kcpstate write s1)
                  (\<lambda>s2. Ret (Again 0, s2))))"

end
