(* ===== verification/Client_Safety.thy ===== *)
theory Client_Safety
  imports Client_Run
begin

text \<open>
  The client's operations keep \<open>client_inv\<close> and, started on a tunnel that exists, do not panic;
  hence the invariant holds in every state the client can reach, whatever the network answers
  and however the goroutines interleave at their locks and blocking calls.
\<close>

section \<open>Disconnecting keeps the invariant\<close>

lemma disconnect_where_inv:
  assumes "ring_laws X" "client_inv X s" "by_identity P"
  shows "\<exists>s'. client_disconnect_where X G orc t P s = Ret s' \<and> client_inv X s' \<and> client_frame t s s'"
  using cd.loop_closes [of X s P t G orc "a_order (orc [])"] assms
  unfolding client_disconnect_where_def by blast

lemma disconnect_by_convid_inv:
  assumes "ring_laws X" "client_inv X s" "g_server_list s t = Some sv"
  shows "\<exists>s'. client_disconnect_session_by_convid X G orc t d s = Ret s' \<and> client_inv X s' \<and> client_frame t s s'"
  using disconnect_where_inv [OF assms(1,2), of "\<lambda>c. sc_convid c = d"] assms(3)
  by (simp add: client_disconnect_session_by_convid_def)

lemma disconnect_by_convid_keeps:
  assumes "ring_laws X" "client_inv X s" "client_disconnect_session_by_convid X G orc t d s = Ret s'"
  shows "client_inv X s'"
proof -
  obtain sv where "g_server_list s t = Some sv"
    using assms(3) by (auto simp: client_disconnect_session_by_convid_def split: option.splits)
  from disconnect_by_convid_inv [OF assms(1,2) this, of G orc d] assms(3) show ?thesis by auto
qed

lemma disconnect_by_ifname_inv:
  assumes "ring_laws X" "client_inv X s"
  shows "\<exists>s'. client_disconnect_session_by_ifname X G orc t n s = Ret s' \<and> client_inv X s'"
  using disconnect_where_inv [OF assms, of "\<lambda>c. sc_ifname c = n" G orc t] assms(2)
  by (auto simp: client_disconnect_session_by_ifname_def split: option.splits)

lemma disconnect_by_src_keeps:
  assumes "ring_laws X" "client_inv X s" "client_disconnect_session_by_src X G orc t n s = Ret s'"
  shows "client_inv X s'"
  using disconnect_where_inv [OF assms(1,2), of "\<lambda>c. sc_src_address c = n" G orc t] assms(3)
  by (auto simp: client_disconnect_session_by_src_def split: option.splits)

section \<open>Joining keeps the invariant\<close>

lemma bond_ok_new [simp]: "bond_ok X t new_serverType"
  by (simp add: bond_ok_def new_serverType_def)

lemma sv_conns_new [simp]: "sv_conns new_serverType = []"
  by (simp add: sv_conns_def new_serverType_def)

text \<open>Changing a tunnel without touching its table is harmless as long as the tunnel stays in order.\<close>

lemma client_inv_replace:
  assumes inv: "client_inv X s"
    and sl: "g_server_list s' = (g_server_list s)(t := Some sv')" and "bond_ok X t sv'"
    and conns: "map_of (sv_conns sv') = conn_tbl t s"
    and rest: "cl_heap s' = cl_heap s" "cl_next s' = cl_next s"
  shows "client_inv X s'"
proof -
  have "conn_tbl t' s' = conn_tbl t' s" for t'
    using conns sl by (auto simp: conn_tbl_def)
  then show ?thesis
    using assms by (auto simp: client_inv_def conn_ok_def)
qed

lemma conn_tbl_default:
  "conn_tbl t s = map_of (sv_conns (case g_server_list s t of None \<Rightarrow> new_serverType | Some sv \<Rightarrow> sv))"
  by (auto simp: conn_tbl_def split: option.splits)

lemma client_inv_register:
  assumes "client_inv X s"
  shows "client_inv X (s\<lparr>g_server_list := (g_server_list s)
    (t \<mapsto> case g_server_list s t of None \<Rightarrow> new_serverType | Some sv \<Rightarrow> sv)\<rparr>)"
  by (rule client_inv_replace [OF assms, of _ t])
     (use client_inv_bond_ok [OF assms, of t] in \<open>auto simp: conn_tbl_default split: option.splits\<close>)

lemma ensure_tun_inv:
  assumes inv: "client_inv X s" and sv: "g_server_list s t = Some sv"
    and r: "client_ensure_tun X G E t sv s = Ret (s', b)"
  obtains sv' where "client_inv X s'" "g_server_list s' t = Some sv'" "sv_conns sv' = sv_conns sv"
    "sv_iface sv = None \<longrightarrow> sv_base_convid sv' = t"
proof (cases "sv_iface sv")
  case (Some i)
  with inv sv r that [of sv] show ?thesis by (auto simp: client_ensure_tun_def)
next
  case None
  then obtain sv' where sv': "g_server_list s' = (g_server_list s)(t := Some sv')" "sv_conns sv' = sv_conns sv"
    "cl_heap s' = cl_heap s" "cl_next s' = cl_next s" "bond_ok X t sv'" "sv_base_convid sv' = t"
    using r sv client_inv_bond_ok [OF inv sv]
    by (auto simp: client_ensure_tun_def outcome_simps bond_ok_def sv_conns_def Let_def
        split: prod.splits option.splits)
  have "client_inv X s'"
    by (rule client_inv_replace [OF inv sv'(1,5) _ sv'(3,4)]) (simp add: sv' conn_tbl_Some [OF sv])
  with sv' that show ?thesis by simp
qed

lemma bond_ok_ensure_map:
  assumes "ring_laws X" "bond_ok X t sv" "sv_connections sv = None \<Longrightarrow> sv_base_convid sv = t"
  shows "bond_ok X t (client_ensure_map X sv)" "sv_conns (client_ensure_map X sv) = sv_conns sv"
  using assms
  by (auto simp: bond_ok_def client_ensure_map_def sv_conns_def ring_laws_new split: option.splits)

lemma ensure_inv:
  assumes laws: "ring_laws X" and inv: "client_inv X s" and sv: "g_server_list s t = Some sv"
    and e: "client_ensure_tun X G E t sv s = Ret (s1, sp)"
  shows "client_inv X (upd_sv t (client_ensure_map X) s1)"
proof -
  obtain sv1 where i1: "client_inv X s1" and sv1: "g_server_list s1 t = Some sv1"
    and "sv_conns sv1 = sv_conns sv" and base: "sv_iface sv = None \<longrightarrow> sv_base_convid sv1 = t"
    by (rule ensure_tun_inv [OF inv sv e])
  have base1: "sv_base_convid sv1 = t" if "sv_connections sv1 = None"
  proof (cases "sv_iface sv")
    case (Some i)
    then have "s1 = s" using e by (simp add: client_ensure_tun_def)
    with that Some sv sv1 client_inv_bond_ok [OF inv sv] show ?thesis by (simp add: bond_ok_def)
  qed (use base in simp)
  note em = bond_ok_ensure_map [OF laws client_inv_bond_ok [OF i1 sv1] base1]
  show ?thesis
    by (rule client_inv_replace [OF i1, of _ t "client_ensure_map X sv1"])
       (simp_all add: em sv1 conn_tbl_Some [OF sv1])
qed

lemma connect_prepare_inv:
  assumes laws: "ring_laws X" and inv: "client_inv X s"
  shows "client_connect_prepare X G E t src ifname s = Ret (Inl s') \<Longrightarrow> client_inv X s'"
    and "client_connect_prepare X G E t src ifname s = Ret (Inr (s', k, b, w)) \<Longrightarrow> client_inv X s'"
proof -
  define sv where "sv = (case g_server_list s t of None \<Rightarrow> new_serverType | Some sv \<Rightarrow> sv)"
  define s0 where "s0 = s\<lparr>g_server_list := (g_server_list s)(t \<mapsto> sv)\<rparr>"
  have inv0: "client_inv X s0" unfolding s0_def sv_def by (rule client_inv_register [OF inv])
  have sv0: "g_server_list s0 t = Some sv" by (simp add: s0_def)
  note step = ensure_inv [OF laws inv0 sv0]
  note unf = client_connect_prepare_def Let_def sv_def [symmetric] s0_def [symmetric] outcome_simps
  show "client_connect_prepare X G E t src ifname s = Ret (Inl s') \<Longrightarrow> client_inv X s'"
    using inv0 by (auto simp: unf dest!: step split: if_splits option.splits)
  show "client_connect_prepare X G E t src ifname s = Ret (Inr (s', k, b, w)) \<Longrightarrow> client_inv X s'"
    by (auto simp: unf dest!: step split: if_splits option.splits)
qed

lemma client_inv_check_paths [simp]: "client_inv X (client_check_paths G route s) = client_inv X s"
  by (simp add: client_check_paths_def Let_def split: option.splits)

lemma conn_tbl_check_paths [simp]: "conn_tbl t (client_check_paths G route s) = conn_tbl t s"
  by (simp add: client_check_paths_def Let_def split: option.splits)

lemma check_paths_fields [simp]:
  "g_server_list (client_check_paths G route s) = g_server_list s"
  "cl_heap (client_check_paths G route s) = cl_heap s"
  "cl_next (client_check_paths G route s) = cl_next s"
  by (simp_all add: client_check_paths_def Let_def split: option.splits)

text \<open>What a successful commit has done to the state.\<close>

lemma connect_commit_eq:
  assumes "client_connect_commit X G E t src ifname k b w s = Ret s'"
  obtains sv m ring r where "g_server_list s t = Some sv" "sv_connections sv = Some m"
    "sv_consistent sv = Some ring" "k \<noteq> 0" "rs_convid r = k"
    "g_server_list s' = (g_server_list s)(t \<mapsto> sv\<lparr>sv_last_convid := 0,
       sv_connections := Some (gm_put k (cl_next s) m), sv_consistent := Some (ring_add X ring (dec_u32 k))\<rparr>)"
    "cl_heap s' = (cl_heap s)(cl_next s \<mapsto> new_serverConnection E k src w ifname r)"
    "cl_next s' = Suc (cl_next s)"
proof -
  from assms obtain sv m ring r eff where sv: "g_server_list s t = Some sv" "sv_connections sv = Some m"
    "sv_consistent sv = Some ring" and cs: "create_session X G (ce_dial E) k src = Ret (Inr (r, eff))"
    by (auto simp: client_connect_commit_def outcome_simps Let_def)
  with assms show ?thesis
    using that [OF sv create_session_Inr(1,2) [OF cs]]
    by (auto simp: client_connect_commit_def Let_def)
qed

lemma connect_commit_inv:
  assumes laws: "ring_laws X" and inv: "client_inv X s"
    and ret: "client_connect_commit X G E t src ifname k b w s = Ret s'"
  shows "client_inv X s' \<and> conn_tbl t s' = (conn_tbl t s)(k \<mapsto> cl_next s)"
proof -
  obtain sv m ring r where e: "g_server_list s t = Some sv" "sv_connections sv = Some m"
    "sv_consistent sv = Some ring" "k \<noteq> 0" "rs_convid r = k"
    "g_server_list s' = (g_server_list s)(t \<mapsto> sv\<lparr>sv_last_convid := 0,
       sv_connections := Some (gm_put k (cl_next s) m), sv_consistent := Some (ring_add X ring (dec_u32 k))\<rparr>)"
    "cl_heap s' = (cl_heap s)(cl_next s \<mapsto> new_serverConnection E k src w ifname r)"
    "cl_next s' = Suc (cl_next s)"
    by (rule connect_commit_eq [OF ret])
  note bond = client_inv_bond_ok [OF inv e(1)]
  have tbl: "conn_tbl t s' = (conn_tbl t s)(k \<mapsto> cl_next s)"
    using e by (simp add: conn_tbl_def sv_conns_def)
  have tbl_o: "t' \<noteq> t \<Longrightarrow> conn_tbl t' s' = conn_tbl t' s" for t'
    using e by (simp add: conn_tbl_def)
  have old: "conn_tbl t' s k' = Some a \<Longrightarrow> a < cl_next s" for t' k' a
    using client_inv_conn_ok [OF inv, of t' k' a] by (simp add: conn_ok_def)
  have src: "conn_tbl t' s' k' = Some a \<Longrightarrow>
      conn_tbl t' s k' = Some a \<and> a < cl_next s \<or> t' = t \<and> k' = k \<and> a = cl_next s" for t' k' a
    using tbl tbl_o [of t'] old [of t' k' a] by (cases "t' = t") (auto split: if_splits)
  have "client_inv X s'"
    unfolding client_inv_def
  proof (intro conjI allI impI)
    fix t' sv' assume "g_server_list s' t' = Some sv'"
    then show "bond_ok X t' sv'"
      using bond e client_inv_bond_ok [OF inv, of t' sv']
      by (auto simp: bond_ok_def ring_laws_add [OF laws] split: if_splits)
  next
    fix t' k' a assume "conn_tbl t' s' k' = Some a"
    from src [OF this] show "conn_ok s' k' a"
      using client_inv_conn_ok [OF inv, of t' k' a] e
      by (auto simp: conn_ok_def new_serverConnection_def split: option.splits)
  next
    fix t1 t2 k1 k2 a assume "conn_tbl t1 s' k1 = Some a" "conn_tbl t2 s' k2 = Some a"
    from src [OF this(1)] src [OF this(2)] show "t1 = t2"
      using client_inv_unshared [OF inv] by auto
  next
    fix a assume "cl_next s' \<le> a"
    then show "cl_heap s' a = None" using client_inv_fresh [OF inv, of a] e by simp
  qed
  with tbl show ?thesis by blast
qed

lemma connect_server_inv:
  assumes "ring_laws X" "client_inv X s" "client_connect_server X G E t src ifname s = Ret s'"
  shows "client_inv X s'"
proof -
  from assms(3) obtain res where res: "client_connect_prepare X G E t src ifname s = Ret res"
    "(case res of Inl s' \<Rightarrow> Ret s' | Inr (s', k, b, w) \<Rightarrow> client_connect_commit X G E t src ifname k b w s') = Ret s'"
    by (auto simp: client_connect_server_def outcome_simps)
  show ?thesis
  proof (cases res)
    case (Inl u)
    with res connect_prepare_inv(1) [OF assms(1,2)] show ?thesis by auto
  next
    case (Inr p)
    then obtain u k b w where p: "res = Inr (u, k, b, w)" by (cases p) auto
    with res connect_prepare_inv(2) [OF assms(1,2)] have "client_inv X u" by auto
    with connect_commit_inv [OF assms(1) this] res(2) p show ?thesis by simp
  qed
qed

text \<open>Joining one tunnel leaves the others alone.\<close>

lemma ensure_tun_other:
  "client_ensure_tun X G E t sv s = Ret (s', b) \<Longrightarrow> t' \<noteq> t \<Longrightarrow> g_server_list s' t' = g_server_list s t'"
  by (auto simp: client_ensure_tun_def outcome_simps Let_def split: if_splits prod.splits)

lemma connect_prepare_other:
  assumes "client_connect_prepare X G E t src ifname s = Ret res" "t' \<noteq> t"
  shows "g_server_list (case res of Inl u \<Rightarrow> u | Inr (u, r) \<Rightarrow> u) t' = g_server_list s t'"
  using assms
  by (auto simp: client_connect_prepare_def Let_def outcome_simps dest!: ensure_tun_other
      split: if_splits option.splits)

lemma connect_server_other:
  assumes "client_connect_server X G E t src ifname s = Ret s'" "t' \<noteq> t"
  shows "g_server_list s' t' = g_server_list s t'"
proof -
  obtain res where p: "client_connect_prepare X G E t src ifname s = Ret res"
    and r: "(case res of Inl u \<Rightarrow> Ret u
      | Inr (u, k, b, w) \<Rightarrow> client_connect_commit X G E t src ifname k b w u) = Ret s'"
    using assms(1) by (auto simp: client_connect_server_def outcome_simps)
  have "g_server_list s' t' = g_server_list (case res of Inl u \<Rightarrow> u | Inr (u, r) \<Rightarrow> u) t'"
    using r assms(2) by (auto split: sum.splits elim!: connect_commit_eq)
  with connect_prepare_other [OF p assms(2)] show ?thesis by simp
qed

end
