(* ===== verification/Client_Steps.thy ===== *)
theory Client_Steps
  imports Client_Safety
begin

text \<open>
  The client as a transition system: one rule per operation or, where a goroutine blocks, per
  part of an operation. The connect rules let any number of calls be between their two halves.
  The invariant of the bond holds in every reachable state.
\<close>

section \<open>The goroutines keep the invariant\<close>

lemma handle_kcp_begin_inv:
  assumes "ring_laws X" "client_inv X s" "client_handle_kcp_begin X G orc t a st n s = Ret (ctl, s')"
  shows "client_inv X s'"
  using assms(2,3)
  by (auto simp: client_handle_kcp_begin_def outcome_simps split: if_splits
      dest: disconnect_by_convid_keeps [OF assms(1)])

lemma handle_kcp_read_inv:
  assumes "ring_laws X" "client_inv X s"
    "client_handle_kcp_read X G orc t a result now1 now2 n s = Ret (ctl, s')"
  shows "client_inv X s'"
proof -
  have touch: "client_inv X (upd_conn a (\<lambda>c. c\<lparr>sc_rxtimeouts := sc_rxtimeouts c + 1\<rparr>) s)"
    "client_inv X (upd_conn a (\<lambda>c. c\<lparr>sc_rxcounter := sc_rxcounter c + 1,
        sc_rxbytes := sc_rxbytes c + l, sc_last_hello := now\<rparr>) s)"
    "client_inv X (upd_conn a (\<lambda>c. c\<lparr>sc_last_hello := now2\<rparr>)
      (upd_conn a (\<lambda>c. c\<lparr>sc_rxcounter := sc_rxcounter c + 1, sc_rxbytes := sc_rxbytes c + l,
        sc_last_hello := now1\<rparr>) s))" for l now
    using assms(2) by (auto intro!: client_inv_upd_conn)
  with assms(2,3) show ?thesis
    by (cases result)
       (auto simp: client_handle_kcp_read_def outcome_simps Let_def split: if_splits option.splits
         dest: disconnect_by_convid_keeps [OF assms(1)])
qed

lemma send_hello_inv:
  assumes "ring_laws X" "client_inv X s" "client_send_hello X G orc a base s = Ret s'"
  shows "client_inv X s'"
proof -
  have touch: "client_inv X (upd_conn a (\<lambda>c. c\<lparr>sc_txtimeouts := sc_txtimeouts c + 1\<rparr>) (emit es s))" for es
    using assms(2) by (auto intro!: client_inv_upd_conn)
  from assms(2,3) show ?thesis
    by (auto simp: client_send_hello_def outcome_simps Let_def case_prod_beta split: if_splits
        dest: disconnect_by_convid_keeps [OF assms(1) touch])
qed

lemma ping_body_inv:
  assumes "ring_laws X" "client_inv X s" "client_ping_body X G orc t k a s = Ret s'"
  shows "client_inv X s'"
proof -
  have touch: "client_inv X (upd_conn a (\<lambda>c. c\<lparr>sc_txbandwidth := f c, sc_txbytes := 0,
      sc_rxbandwidth := g c, sc_rxbytes := 0, sc_last_bw_update := now\<rparr>) u)" if "client_inv X u" for f g now u
    using that by (auto intro!: client_inv_upd_conn)
  from assms(2,3) show ?thesis
    by (auto simp: client_ping_body_def outcome_simps Let_def intro!: touch split: if_splits
        dest: disconnect_by_convid_keeps [OF assms(1)])
qed

lemma send_server_pings_inv:
  assumes "ring_laws X" "client_inv X s" "client_send_server_pings X G orc s = Ret s'"
  shows "client_inv X s'"
proof -
  have inner: "client_inv X u \<Longrightarrow> for_range (conn_tbl t) (client_ping_body X G o' t) ks u = Ret u' \<Longrightarrow>
      client_inv X u'" for o' t ks u u'
    by (erule for_range_keeps [rotated]) (use ping_body_inv [OF assms(1)] in blast)+
  show ?thesis
    by (rule for_range_keeps [where I = "client_inv X", OF _ assms(2) assms(3) [unfolded client_send_server_pings_def]])
       (rule inner)
qed

lemma tun_send_inv:
  assumes "ring_laws X" "client_inv X s" "client_tun_send X G orc t a data st wr s = Ret s'"
  shows "client_inv X s'"
proof -
  have touch: "client_inv X (upd_conn a (\<lambda>c. c\<lparr>sc_txcounter := sc_txcounter c + 1,
      sc_txbytes := sc_txbytes c + l\<rparr>) (emit es s))"
    "client_inv X (upd_conn a (\<lambda>c. c\<lparr>sc_txtimeouts := sc_txtimeouts c + 1\<rparr>) (emit es s))"
    "client_inv X (emit es s)" for l es
    using assms(2) by (auto intro!: client_inv_upd_conn)
  from assms(2,3) touch show ?thesis
    by (auto simp: client_tun_send_def outcome_simps Let_def case_prod_beta split: if_splits
        dest: disconnect_by_convid_keeps [OF assms(1,2)] disconnect_by_convid_keeps [OF assms(1) touch(3)])
qed

lemma handle_tun_read_inv:
  assumes laws: "ring_laws X" and inv: "client_inv X s"
    and ret: "client_handle_tun_read X G orc t result st wr s = Ret (ctl, s')"
  shows "client_inv X s'"
proof (cases result)
  case (Inl e)
  with inv ret show ?thesis by (simp add: client_handle_tun_read_def)
next
  case (Inr p)
  then obtain packet n where p: "result = Inr (packet, n)" by (cases p) auto
  from ret p obtain c err s1 where
    ch: "client_choose_kcp_conn X G orc (Some (packet, int n)) t s = Ret ((c, err), s1)"
    by (auto simp: client_handle_tun_read_def outcome_simps)
  have inv1: "client_inv X s1" using choose_keeps [OF inv ch] by blast
  from ret p ch inv1 show ?thesis
    by (auto simp: client_handle_tun_read_def outcome_simps dest: tun_send_inv [OF laws inv1]
        split: if_splits option.splits)
qed

section \<open>The transition system\<close>

inductive client_step :: "'r ext \<Rightarrow> globals \<Rightarrow> 'r client \<Rightarrow> 'r client \<Rightarrow> bool" for X G where
  refuse: "client_connect_prepare X G E t src ifname s = Ret (Inl s') \<Longrightarrow> client_step X G s s'"
| prepare: "client_connect_prepare X G E t src ifname s = Ret (Inr (s', k, b, w)) \<Longrightarrow> client_step X G s s'"
| commit: "client_connect_commit X G E t src ifname k b w s = Ret s' \<Longrightarrow> client_step X G s s'"
| paths: "client_step X G s (client_check_paths G route s)"
| ifname: "client_disconnect_session_by_ifname X G orc t ifname s = Ret s' \<Longrightarrow> client_step X G s s'"
| src: "client_disconnect_session_by_src X G orc t src s = Ret s' \<Longrightarrow> client_step X G s s'"
| kcp_begin: "client_handle_kcp_begin X G orc t a st n s = Ret (ctl, s') \<Longrightarrow> client_step X G s s'"
| kcp_read: "client_handle_kcp_read X G orc t a result now1 now2 n s = Ret (ctl, s') \<Longrightarrow> client_step X G s s'"
| tun_read: "client_handle_tun_read X G orc t result st wr s = Ret (ctl, s') \<Longrightarrow> client_step X G s s'"
| hello: "client_send_hello X G orc a base s = Ret s' \<Longrightarrow> client_step X G s s'"
| pings: "client_send_server_pings X G orc s = Ret s' \<Longrightarrow> client_step X G s s'"
| poll: "client_step X G s (emit [Spawn (Go_netlink_get_routes t)] s)"

inductive client_reachable :: "'r ext \<Rightarrow> globals \<Rightarrow> 'r client \<Rightarrow> bool" for X G where
  start: "client_reachable X G init_client"
| step: "client_reachable X G s \<Longrightarrow> client_step X G s s' \<Longrightarrow> client_reachable X G s'"

lemma client_inv_init: "client_inv X init_client"
  by (simp add: client_inv_def init_client_def conn_tbl_def)

lemma client_step_inv:
  assumes "ring_laws X" "client_inv X s" "client_step X G s s'"
  shows "client_inv X s'"
  using assms(3)
proof cases
  case ifname
  then show ?thesis using disconnect_by_ifname_inv [OF assms(1,2)] by (metis outcome.inject(1))
qed (use assms in \<open>auto intro: connect_prepare_inv disconnect_by_src_keeps handle_kcp_begin_inv
      handle_kcp_read_inv handle_tun_read_inv send_hello_inv send_server_pings_inv
      dest: connect_commit_inv\<close>)

lemma client_reachable_inv:
  assumes "ring_laws X" "client_reachable X G s"
  shows "client_inv X s"
  using assms(2)
  by induction (auto intro: client_inv_init client_step_inv [OF assms(1)])

section \<open>No panic on a tunnel that exists\<close>

lemma bond_ok_base: "bond_ok X t sv \<Longrightarrow> sv_connections sv \<noteq> None \<Longrightarrow> sv_base_convid sv = t"
  by (auto simp: bond_ok_def)

lemma handle_kcp_begin_total:
  assumes "ring_laws X" "client_inv X s" "cl_heap s a = Some c" "g_server_list s t = Some sv"
    "sv_connections sv \<noteq> None"
  shows "\<exists>r. client_handle_kcp_begin X G orc t a st n s = Ret r"
  using assms disconnect_by_convid_inv [OF assms(1,2,4), of G orc "sc_convid c"]
    bond_ok_base [OF client_inv_bond_ok [OF assms(2,4)] assms(5)]
  by (auto simp: client_handle_kcp_begin_def)

lemma ping_body_total:
  assumes "ring_laws X" "client_inv X s" "conn_tbl t s k = Some a"
  shows "\<exists>s'. client_ping_body X G orc t k a s = Ret s' \<and> client_inv X s'"
proof -
  obtain c where c: "cl_heap s a = Some c"
    using client_inv_conn_ok [OF assms(2,3)] by (auto elim: conn_okD)
  obtain sv where sv: "g_server_list s t = Some sv"
    using assms(3) by (auto simp: conn_tbl_def split: option.splits)
  have "\<exists>s'. client_ping_body X G orc t k a s = Ret s'"
    using c sv client_inv_base [OF assms(2) sv assms(3)]
      disconnect_by_convid_inv [OF assms(1,2) sv, of G "sub_oracle k orc" "sc_convid c"]
    by (auto simp: client_ping_body_def Let_def)
  with ping_body_inv [OF assms(1,2)] show ?thesis by blast
qed

end
