(* ===== verification/Client_Pings.thy ===== *)
theory Client_Pings
  imports Client_Steps
begin

text \<open>
  What a HELLO round of the client does to the bonds: it returns, and afterwards exactly the
  connections whose last message is at most \<open>g_max_hello\<close> seconds old are left. The loop over
  one tunnel is an instance of \<open>closing_loop\<close>, although each of its rounds may run the loop of
  a disconnect.
\<close>

definition stale :: "answers \<Rightarrow> 'r client \<Rightarrow> u32 \<Rightarrow> addr \<Rightarrow> bool" where
  "stale orc s k a \<longleftrightarrow>
     (case cl_heap s a of
        None \<Rightarrow> False
      | Some c \<Rightarrow> a_now (orc [k]) - sc_last_hello c > g_max_hello * ns_per_s)"

lemma frame_stale:
  assumes "client_frame t s s'"
  shows "stale orc s' k a = stale orc s k a"
proof -
  have "rel_option same_identity (cl_heap s a) (cl_heap s' a)"
    using assms by (simp add: client_frame_def)
  then show ?thesis
    by (cases "cl_heap s a"; cases "cl_heap s' a") (auto simp: stale_def same_identity_def)
qed

lemma keep_unless_own_convid:
  assumes "client_inv X s"
  shows "keep_unless UNIV (selects (\<lambda>c. sc_convid c = d) s) (conn_tbl t s) = (conn_tbl t s)(d := None)"
proof
  fix k
  show "keep_unless UNIV (selects (\<lambda>c. sc_convid c = d) s) (conn_tbl t s) k = ((conn_tbl t s)(d := None)) k"
    using client_inv_conn_ok [OF assms, of t k]
    by (cases "conn_tbl t s k") (auto simp: keep_unless_def selects_def elim!: conn_okD)
qed

text \<open>Disconnecting by conversation id is deletion of the key.\<close>

lemma disconnect_by_convid_ok:
  assumes "ring_laws X" "client_inv X s" "g_server_list s t = Some sv" "covers orc (dom (conn_tbl t s))"
  shows "\<exists>s'. client_disconnect_session_by_convid X G orc t d s = Ret s' \<and> client_inv X s' \<and>
    client_frame t s s' \<and> conn_tbl t s' = (conn_tbl t s)(d := None)"
  using client_disconnect_where_ok [OF assms(1,2) _ assms(4), of "\<lambda>c. sc_convid c = d" G] assms(3)
    keep_unless_own_convid [OF assms(2), of d t]
  by (simp add: client_disconnect_session_by_convid_def)

text \<open>Only the round of the connection itself acts.\<close>

lemma disconnect_body_idle:
  assumes "client_inv X s" "conn_tbl t s k = Some a" "k \<noteq> d"
  shows "client_disconnect_body X G orc t (\<lambda>c. sc_convid c = d) k a s = Ret s"
  using client_inv_conn_ok [OF assms(1,2)] assms(3)
  by (auto simp: client_disconnect_body_def elim!: conn_okD)

lemma disconnect_by_convid_single:
  assumes "client_inv X s" "covers orc (dom (conn_tbl t s))" "conn_tbl t s d = Some a"
    and "client_disconnect_body X G orc t (\<lambda>c. sc_convid c = d) d a s = Ret s'"
    and "client_inv X s'" "conn_tbl t s' d = None"
  shows "client_disconnect_session_by_convid X G orc t d s = Ret s'"
proof -
  have "d \<in> set (a_order (orc []))" using covers_order [OF assms(2)] assms(3) by blast
  then have "for_range (conn_tbl t) (client_disconnect_body X G orc t (\<lambda>c. sc_convid c = d)) (a_order (orc [])) s = Ret s'"
  proof (rule for_range_single [where tbl = "conn_tbl t" and k = d and v = a, OF _ assms(3)])
    show "client_disconnect_body X G orc t (\<lambda>c. sc_convid c = d) d a s = Ret s'" by (rule assms(4))
    show "client_disconnect_body X G orc t (\<lambda>c. sc_convid c = d) j w s = Ret s"
      if "j \<noteq> d" "conn_tbl t s j = Some w" for j w
      by (rule disconnect_body_idle [OF assms(1) that(2,1)])
    show "client_disconnect_body X G orc t (\<lambda>c. sc_convid c = d) j w s' = Ret s'"
      if "conn_tbl t s' j = Some w" for j w
      by (rule disconnect_body_idle [OF assms(5) that]) (use that assms(6) in auto)
  qed
  moreover have "g_server_list s t \<noteq> None" using assms(3) by (auto simp: conn_tbl_def split: option.splits)
  ultimately show ?thesis
    by (auto simp: client_disconnect_session_by_convid_def client_disconnect_where_def)
qed

lemma ping_body_ok:
  assumes laws: "ring_laws X" and inv: "client_inv X s" and k: "conn_tbl t s k = Some a"
    and cov: "covers orc (dom (conn_tbl t s))"
  shows "\<exists>s'. client_ping_body X G orc t k a s = Ret s' \<and> client_inv X s' \<and> client_frame t s s' \<and>
    conn_tbl t s' = (if stale orc s k a then (conn_tbl t s)(k := None) else conn_tbl t s)"
proof -
  obtain c where c: "cl_heap s a = Some c" "sc_convid c = k"
    using client_inv_conn_ok [OF inv k] by (auto elim: conn_okD)
  obtain sv where sv: "g_server_list s t = Some sv"
    using k by (auto simp: conn_tbl_def split: option.splits)
  have base: "sv_base_convid sv = t" by (rule client_inv_base [OF inv sv k])
  show ?thesis
  proof (cases "stale orc s k a")
    case True
    with c sv base disconnect_by_convid_ok [OF laws inv sv, of "sub_oracle k orc" G k] cov
    show ?thesis by (auto simp: client_ping_body_def stale_def Let_def)
  next
    case False
    let ?f = "\<lambda>c. c\<lparr>sc_txbandwidth := F32_mbps (sc_txbytes c) (a_now (orc [k]) - sc_last_bw_update c), sc_txbytes := 0,
                   sc_rxbandwidth := F32_mbps (sc_rxbytes c) (a_now (orc [k]) - sc_last_bw_update c), sc_rxbytes := 0,
                   sc_last_bw_update := a_now (orc [k])\<rparr>"
    define u where "u = (if sc_session c \<noteq> None then emit [Spawn (Go_client_send_hello a (sv_base_convid sv))] s else s)"
    have "client_ping_body X G orc t k a s = Ret (upd_conn a ?f u)"
      using False c sv by (simp add: client_ping_body_def stale_def Let_def u_def)
    moreover have "client_frame t u (upd_conn a ?f u)"
      by (rule client_frame_upd_conn) (simp add: same_identity_def)
    moreover have "client_frame t s u" "conn_tbl t u = conn_tbl t s" by (simp_all add: u_def)
    ultimately show ?thesis
      using False ping_body_inv [OF laws inv] client_frame_trans by auto
  qed
qed

text \<open>What the rounds rely on: the invariant, and loops that visit every connection.\<close>

definition client_rounds_inv :: "'r ext \<Rightarrow> answers \<Rightarrow> 'r client \<Rightarrow> bool" where
  "client_rounds_inv X orc s \<longleftrightarrow>
     ring_laws X \<and> client_inv X s \<and> (\<forall>t. covers orc (dom (conn_tbl t s)))"

lemma frame_conn_tbl: "client_frame t s s' \<Longrightarrow> t' \<noteq> t \<Longrightarrow> conn_tbl t' s' = conn_tbl t' s"
  by (simp add: client_frame_def conn_tbl_def)

interpretation cp: closing_loop "conn_tbl t" "stale (sub_oracle t orc)"
  "client_ping_body X G (sub_oracle t orc) t" "client_rounds_inv X orc" "client_frame t"
  for X :: "'r ext" and G orc t
proof unfold_locales
  show "client_frame t s s" for s :: "'r client" by simp
  show "client_frame t s v" if "client_frame t s u" "client_frame t u v" for s u v :: "'r client"
    using that by (rule client_frame_trans)
  fix s s' :: "'r client" and k a k' a'
  assume i: "client_rounds_inv X orc s" and k: "conn_tbl t s k = Some a"
  then obtain v where v: "client_ping_body X G (sub_oracle t orc) t k a s = Ret v" "client_inv X v"
    "client_frame t s v"
    "conn_tbl t v = (if stale (sub_oracle t orc) s k a then (conn_tbl t s)(k := None) else conn_tbl t s)"
    using ping_body_ok [of X s t k a "sub_oracle t orc" G] by (auto simp: client_rounds_inv_def)
  from v(1) show "\<exists>s'. client_ping_body X G (sub_oracle t orc) t k a s = Ret s'" by blast
  assume b: "client_ping_body X G (sub_oracle t orc) t k a s = Ret s'"
  with v show "conn_tbl t s' = (if stale (sub_oracle t orc) s k a then (conn_tbl t s)(k := None) else conn_tbl t s)"
    and fr: "client_frame t s s'" by auto
  have "dom (conn_tbl t' s') \<subseteq> dom (conn_tbl t' s)" for t'
    using b v frame_conn_tbl [OF fr, of t'] by (cases "t' = t") auto
  then have "covers orc (dom (conn_tbl t' s'))" for t'
    using i covers_mono by (simp add: client_rounds_inv_def) blast
  with i v b show "client_rounds_inv X orc s'"
    by (simp add: client_rounds_inv_def)
  from fr show "stale (sub_oracle t orc) s' k' a' = stale (sub_oracle t orc) s k' a'" by (rule frame_stale)
qed

interpretation cr: nested_rounds g_server_list conn_tbl "\<lambda>t. stale (sub_oracle t orc)"
  "\<lambda>t. client_ping_body X G (sub_oracle t orc) t" "client_rounds_inv X orc" client_frame
  "\<lambda>t. a_order (sub_oracle t orc [])"
  for X :: "'r ext" and G orc
proof unfold_locales
  show "dom (conn_tbl t s) \<subseteq> set (a_order (sub_oracle t orc []))" if "client_rounds_inv X orc s"
    for s :: "'r client" and t
    using that covers_order by (simp add: client_rounds_inv_def sub_oracle_def)
  show "conn_tbl t s = Map.empty" if "g_server_list s t = None" for s :: "'r client" and t
    using that by (simp add: conn_tbl_def)
qed (auto simp: frame_stale fun_eq_iff frame_conn_tbl cp.closing_loop_axioms)

lemma send_server_pings_ok:
  assumes "ring_laws X" "client_inv X s" "covers orc (dom (g_server_list s))"
    "\<forall>t. covers orc (dom (conn_tbl t s))"
  shows "\<exists>s'. client_send_server_pings X G orc s = Ret s' \<and> client_inv X s' \<and>
    (\<forall>t. conn_tbl t s' = keep_unless UNIV (stale (sub_oracle t orc) s) (conn_tbl t s))"
  using cr.all_rounds [of X orc s "a_order (orc [])" G] assms covers_order [OF assms(3)]
    covers_distinct [OF assms(3)]
  unfolding client_send_server_pings_def client_rounds_inv_def by blast

end
