(* ===== verification/Netlink.thy ===== *)
theory Netlink
  imports Client_Pings
begin

text \<open>
  \<^verbatim>\<open>p_netlink.go\<close>: what the client does when the kernel reports that an interface or a route has
  changed. The kernel's messages, the interface table and what the network answers to a join
  are arguments. Every reaction is a sequence of the client's own steps, so the invariant of the
  bonds holds after any sequence of messages.
\<close>

section \<open>Messages\<close>

record link_update =
  lu_Name :: string
  lu_OperState :: string

record route =
  rt_LinkIndex :: int
  rt_Dst :: "ipnet option"
  rt_Src :: "ip option"
  rt_Gw :: "ip option"
  rt_Table :: int

record route_update =
  ru_Type :: u16
  ru_Route :: route

text \<open>\<^verbatim>\<open>unix.RTM_NEWROUTE\<close> and \<^verbatim>\<open>unix.RTM_DELROUTE\<close>.\<close>

definition RTM_NEWROUTE :: u16 where "RTM_NEWROUTE = 0x18"

definition RTM_DELROUTE :: u16 where "RTM_DELROUTE = 0x19"

section \<open>Reactions\<close>

text \<open>The body of the loop of \<^verbatim>\<open>netlink_subscribe_ifaces\<close>, and the loop over the messages of the channel.\<close>

definition netlink_iface_update ::
  "'r ext \<Rightarrow> globals \<Rightarrow> u32 \<Rightarrow> link_update \<times> answers \<Rightarrow> 'r client \<Rightarrow> 'r client outcome"
where
  "netlink_iface_update X G tunnelid = (\<lambda>(update, orc) s.
     let ifname = lu_Name update
     in if str_contains ifname ''tun'' then Ret s
        else if lu_OperState update = ''down'' then
          client_disconnect_session_by_ifname X G orc tunnelid ifname s
        else Ret s)"

fun ofold :: "('e \<Rightarrow> 's \<Rightarrow> 's outcome) \<Rightarrow> 'e list \<Rightarrow> 's \<Rightarrow> 's outcome" where
  "ofold f [] s = Ret s"
| "ofold f (e # es) s = obind (f e s) (ofold f es)"

definition netlink_subscribe_ifaces ::
  "'r ext \<Rightarrow> globals \<Rightarrow> u32 \<Rightarrow> (link_update \<times> answers) list \<Rightarrow> 'r client \<Rightarrow> 'r client outcome"
where
  "netlink_subscribe_ifaces X G tunnelid updates s = ofold (netlink_iface_update X G tunnelid) updates s"

text \<open>
  What the outside answers while one route update is handled: \<^verbatim>\<open>net.InterfaceByIndex\<close> (the name of
  the interface), the answers to a join, and the order of the loops.
\<close>

record route_env =
  re_InterfaceByIndex :: "int \<Rightarrow> go_error + string"
  re_connect :: connect_env
  re_answers :: answers

text \<open>
  \<^verbatim>\<open>handle_route_update\<close>. The error of \<^verbatim>\<open>InterfaceByIndex\<close> is logged and the nil interface it comes
  with dereferenced. The gateway is only logged.
\<close>

definition handle_route_update ::
  "'r ext \<Rightarrow> globals \<Rightarrow> u32 \<Rightarrow> route_update \<times> route_env \<Rightarrow> 'r client \<Rightarrow> 'r client outcome"
where
  "handle_route_update X G tunnelid = (\<lambda>(update, E) s.
     let r = ru_Route update; dst = IPNet_String (ipv6_String X) (rt_Dst r)
     in if ru_Type update = RTM_NEWROUTE \<and> dst = ''0.0.0.0/0'' then
          (if rt_Table r = 254 then Ret s
           else case rt_Src r of
             None \<Rightarrow> Ret s
           | Some src \<Rightarrow>
               (case re_InterfaceByIndex E (rt_LinkIndex r) of
                  Inl e \<Rightarrow> Panic ''nil pointer dereference''
                | Inr ifname \<Rightarrow>
                    client_connect_server X G (re_connect E) tunnelid (IP_String (ipv6_String X) src) ifname s))
        else if ru_Type update = RTM_DELROUTE \<and> dst = ''0.0.0.0/0'' then
          (if rt_Table r = 254 then Ret s
           else case rt_Src r of
             None \<Rightarrow> Ret s
           | Some src \<Rightarrow>
               (case re_InterfaceByIndex E (rt_LinkIndex r) of
                  Inl e \<Rightarrow> Panic ''nil pointer dereference''
                | Inr ifname \<Rightarrow>
                    client_disconnect_session_by_src X G (re_answers E) tunnelid (IP_String (ipv6_String X) src) s))
        else Ret s)"

text \<open>
  \<^verbatim>\<open>netlink_subscribe_routes\<close> and, for the updates that arrive before its timer closes the
  channel, \<^verbatim>\<open>netlink_get_routes\<close>.
\<close>

definition netlink_subscribe_routes ::
  "'r ext \<Rightarrow> globals \<Rightarrow> u32 \<Rightarrow> (route_update \<times> route_env) list \<Rightarrow> 'r client \<Rightarrow> 'r client outcome"
where
  "netlink_subscribe_routes X G tunnelid updates s = ofold (handle_route_update X G tunnelid) updates s"

definition netlink_get_routes ::
  "'r ext \<Rightarrow> globals \<Rightarrow> u32 \<Rightarrow> (route_update \<times> route_env) list \<Rightarrow> 'r client \<Rightarrow> 'r client outcome"
where
  "netlink_get_routes X G tunnelid updates s = ofold (handle_route_update X G tunnelid) updates s"

section \<open>Reachability\<close>

lemma ofold_keeps:
  assumes "\<And>e s s'. I s \<Longrightarrow> f e s = Ret s' \<Longrightarrow> I s'" "I s" "ofold f es s = Ret s'"
  shows "I s'"
  using assms(2,3)
proof (induction es arbitrary: s)
  case Nil
  then show ?case by simp
next
  case (Cons e es)
  then obtain u where "f e s = Ret u" "ofold f es u = Ret s'" by (auto simp: outcome_simps)
  with Cons assms(1) show ?case by blast
qed

lemma client_reachable_connect:
  assumes "client_reachable X G s" "client_connect_server X G E t src ifname s = Ret s'"
  shows "client_reachable X G s'"
proof -
  obtain res where p: "client_connect_prepare X G E t src ifname s = Ret res"
    and r: "(case res of Inl u \<Rightarrow> Ret u
      | Inr (u, k, b, w) \<Rightarrow> client_connect_commit X G E t src ifname k b w u) = Ret s'"
    using assms(2) by (auto simp: client_connect_server_def outcome_simps)
  show ?thesis
  proof (cases res)
    case (Inl u)
    with p r assms(1) show ?thesis by (auto intro: client_reachable.step client_step.refuse)
  next
    case (Inr q)
    with p r assms(1) show ?thesis
      by (cases q) (auto intro: client_reachable.step client_step.commit client_step.prepare)
  qed
qed

lemma iface_update_reachable:
  assumes "client_reachable X G s" "netlink_iface_update X G t e s = Ret s'"
  shows "client_reachable X G s'"
  using assms
  by (cases e) (auto simp: netlink_iface_update_def Let_def split: if_splits
      intro: client_reachable.step client_step.ifname)

lemma route_update_reachable:
  assumes "client_reachable X G s" "handle_route_update X G t e s = Ret s'"
  shows "client_reachable X G s'"
  using assms
  by (cases e) (auto simp: handle_route_update_def Let_def split: if_splits option.splits sum.splits
      intro: client_reachable.step client_step.src client_reachable_connect)

end
