(* ===== verification/Server_State.thy ===== *)
theory Server_State
  imports Wire Network
begin

text \<open>
  The server (\<^verbatim>\<open>main.go\<close>): its state (\<^verbatim>\<open>clientConnection\<close>, \<^verbatim>\<open>clientType\<close>, \<^verbatim>\<open>g_client_list\<close>), accepting a
  connection, the goroutines that read a session and the tun device, disconnecting, and the
  HELLO round. Conventions are those of the client: connections live in a heap, a tunnel is
  named by its key, loop bodies are cut where the code blocks.
\<close>

section \<open>State\<close>

record clientConnection =
  cc_convid :: u32
  cc_session :: "RatSession option"
  cc_rxloss :: u32
  cc_txloss :: u32
  cc_txcounter :: u64
  cc_txbytes :: u64
  cc_rxcounter :: u64
  cc_rxbytes :: u64
  cc_rxtimeouts :: u64
  cc_txtimeouts :: u64
  cc_priority :: u32
  cc_last_bw_update :: int
  cc_txbandwidth :: f32
  cc_rxbandwidth :: f32
  cc_last_hello :: int
  cc_up_since :: int
  cc_alive :: bool
  cc_src_address :: string

record 'r clientType =
  ct_connections :: "addr gomap option"
  ct_consistent :: "'r option"
  ct_iface :: "iface option"
  ct_base_convid :: u32
  ct_last_convid :: u32
  ct_ifname :: string
  ct_my_tun_ip :: string
  ct_remote_tun_ip :: string
  ct_reorder_buffer :: "packet list option"

record 'r server =
  g_client_list :: "u32 \<rightharpoonup> 'r clientType"
  se_heap :: "addr \<rightharpoonup> clientConnection"
  se_next :: addr
  se_out :: "effect list"

definition init_server :: "'r server" where
  "init_server = \<lparr>g_client_list = Map.empty, se_heap = Map.empty, se_next = 0, se_out = []\<rparr>"

definition ct_conns :: "'r clientType \<Rightarrow> addr gomap" where
  "ct_conns ct = (case ct_connections ct of None \<Rightarrow> [] | Some m \<Rightarrow> m)"

definition link_tbl :: "u32 \<Rightarrow> 'r server \<Rightarrow> u32 \<rightharpoonup> addr" where
  "link_tbl t s = (case g_client_list s t of None \<Rightarrow> Map.empty | Some ct \<Rightarrow> map_of (ct_conns ct))"

definition upd_ct :: "u32 \<Rightarrow> ('r clientType \<Rightarrow> 'r clientType) \<Rightarrow> 'r server \<Rightarrow> 'r server" where
  "upd_ct t f s = s\<lparr>g_client_list := (g_client_list s)(t := map_option f (g_client_list s t))\<rparr>"

definition upd_link :: "addr \<Rightarrow> (clientConnection \<Rightarrow> clientConnection) \<Rightarrow> 'r server \<Rightarrow> 'r server" where
  "upd_link a f s = s\<lparr>se_heap := (se_heap s)(a := map_option f (se_heap s a))\<rparr>"

definition effects :: "effect list \<Rightarrow> 'r server \<Rightarrow> 'r server" where
  "effects es s = s\<lparr>se_out := se_out s @ es\<rparr>"

section \<open>Disconnecting\<close>

definition server_close_connection ::
  "u32 \<Rightarrow> addr \<Rightarrow> 'r server \<Rightarrow> 'r server outcome"
where
  "server_close_connection t a s =
     obind (of_option ''nil pointer dereference'' (se_heap s a)) (\<lambda>c.
       Ret (effects (fst (RatSession_Close (cc_session c) None))
             (upd_ct t (\<lambda>ct. ct\<lparr>ct_last_convid := 0\<rparr>) s)))"

definition server_disconnect_body ::
  "'r ext \<Rightarrow> u32 \<Rightarrow> u32 \<Rightarrow> u32 \<Rightarrow> addr \<Rightarrow> 'r server \<Rightarrow> 'r server outcome"
where
  "server_disconnect_body X t disc_convid convid a s =
     obind (of_option ''nil pointer dereference'' (se_heap s a)) (\<lambda>c.
       if cc_convid c = disc_convid then
         obind (of_option ''nil pointer dereference'' (Option.bind (g_client_list s t) ct_consistent)) (\<lambda>r.
           obind (server_close_connection t a
                   (upd_ct t (\<lambda>ct. ct\<lparr>ct_consistent := Some (ring_remove X r (dec_u32 convid))\<rparr>) s)) (\<lambda>s1.
             Ret (upd_ct t (\<lambda>ct. ct\<lparr>ct_connections := map_option (gm_del convid) (ct_connections ct)\<rparr>) s1)))
       else Ret s)"

definition server_disconnect_session_by_convid ::
  "'r ext \<Rightarrow> answers \<Rightarrow> u32 \<Rightarrow> u32 \<Rightarrow> 'r server \<Rightarrow> 'r server outcome"
where
  "server_disconnect_session_by_convid X orc tunnelid disc_convid s =
     (case g_client_list s tunnelid of
        None \<Rightarrow> Ret s
      | Some ct \<Rightarrow>
          for_range (link_tbl tunnelid) (server_disconnect_body X tunnelid disc_convid) (a_order (orc [])) s)"

section \<open>Accepting a connection\<close>

text \<open>
  What the outside answers when a session is accepted: the session, the text of its remote
  address, the tun device, three readings of the clock.
\<close>

record accept_env =
  ae_kcp :: handle
  ae_remote :: string
  ae_tun :: "go_error + iface"
  ae_now_bw :: int
  ae_now_hello :: int
  ae_now_up :: int

definition new_clientType :: "'r clientType" where
  "new_clientType = \<lparr>ct_connections = None, ct_consistent = None, ct_iface = None,
     ct_base_convid = 0, ct_last_convid = 0, ct_ifname = '''', ct_my_tun_ip = '''',
     ct_remote_tun_ip = '''', ct_reorder_buffer = None\<rparr>"

definition server_ensure_tun ::
  "'r ext \<Rightarrow> globals \<Rightarrow> accept_env \<Rightarrow> u32 \<Rightarrow> 'r clientType \<Rightarrow> 'r server \<Rightarrow> ('r server \<times> bool) outcome"
where
  "server_ensure_tun X G E t ct s =
     (if ct_iface ct \<noteq> None then Ret (s, False)
      else let ((i, err), eff) = createTun G (ae_tun E) t (g_server_tun_ip G)
      in obind (case i of None \<Rightarrow> nil_iface_Name X | Some n \<Rightarrow> Ret n) (\<lambda>name.
           Ret (upd_ct t (\<lambda>ct. ct\<lparr>ct_iface := i, ct_my_tun_ip := g_server_tun_ip G,
                                    ct_remote_tun_ip := g_client_tun_ip G, ct_ifname := name,
                                    ct_base_convid := t\<rparr>) (effects eff s), True)))"

definition new_clientConnection :: "accept_env \<Rightarrow> u32 \<Rightarrow> clientConnection" where
  "new_clientConnection E convid = \<lparr>
     cc_convid = convid,
     cc_session = Some \<lparr>rs_convid = convid, rs_udp_conn = None, rs_remote = None, rs_kcp = ae_kcp E\<rparr>,
     cc_rxloss = 0, cc_txloss = 0, cc_txcounter = 0, cc_txbytes = 0, cc_rxcounter = 0, cc_rxbytes = 0,
     cc_rxtimeouts = 0, cc_txtimeouts = 0, cc_priority = 0, cc_last_bw_update = ae_now_bw E,
     cc_txbandwidth = F32_zero, cc_rxbandwidth = F32_zero, cc_last_hello = ae_now_hello E,
     cc_up_since = ae_now_up E, cc_alive = True, cc_src_address = ae_remote E\<rparr>"

definition server_ensure_map :: "'r ext \<Rightarrow> 'r clientType \<Rightarrow> 'r clientType" where
  "server_ensure_map X ct =
     (if ct_connections ct = None
      then ct\<lparr>ct_connections := Some [], ct_consistent := Some (ring_new X)\<rparr> else ct)"

text \<open>Enter an accepted connection into the bond, its map and ring being there.\<close>

definition server_enter :: "'r ext \<Rightarrow> u32 \<Rightarrow> addr \<Rightarrow> 'r clientType \<Rightarrow> 'r clientType" where
  "server_enter X convid a ct =
     ct\<lparr>ct_connections := map_option (gm_put convid a) (ct_connections ct),
        ct_consistent := map_option (\<lambda>r. ring_add X r (dec_u32 convid)) (ct_consistent ct)\<rparr>"

text \<open>
  \<^verbatim>\<open>server_accept_conn\<close> up to its read loop. \<open>None\<close>: the connection was refused. The address of
  the remote end is parsed with its port.
\<close>

definition server_accept_conn ::
  "'r ext \<Rightarrow> globals \<Rightarrow> accept_env \<Rightarrow> u32 \<Rightarrow> u32 \<Rightarrow> 'r server \<Rightarrow> (addr option \<times> 'r server) outcome"
where
  "server_accept_conn X G E t convid s =
     (let ct = (case g_client_list s t of None \<Rightarrow> new_clientType | Some ct \<Rightarrow> ct);
          s0 = effects (setServerConnOptions G (ae_kcp E)) (s\<lparr>g_client_list := (g_client_list s)(t \<mapsto> ct)\<rparr>)
      in obind (server_ensure_tun X G E t ct s0) (\<lambda>(s1, spawn_tun).
           let s2 = upd_ct t (\<lambda>ct. ct\<lparr>ct_last_convid := 0\<rparr>) s1
           in if IsPrivate (ParseIP (parseIPv6 X) (ae_remote E)) then Ret (None, s2)
              else
                let a = se_next s2;
                    s3 = s2\<lparr>se_heap := (se_heap s2)(a \<mapsto> new_clientConnection E convid), se_next := Suc a\<rparr>;
                    s4 = upd_ct t (server_enter X convid a) (upd_ct t (server_ensure_map X) s3)
                in Ret (Some a, effects (setKCPOptions G (Some (ae_kcp E))
                          @ (if spawn_tun then [Spawn (Go_server_handle_tun t)] else [])) s4)))"

section \<open>The reader of a session\<close>

datatype server_control = Continue | Return

text \<open>From the top of the read loop to the call of \<^verbatim>\<open>Read\<close>; \<open>h\<close> is the session \<^verbatim>\<open>kcp_conn\<close>.\<close>

definition server_accept_begin ::
  "'r ext \<Rightarrow> answers \<Rightarrow> u32 \<Rightarrow> u32 \<Rightarrow> handle \<Rightarrow> u32 \<Rightarrow> 'r server \<Rightarrow> (server_control \<times> 'r server) outcome"
where
  "server_accept_begin X orc t convid h kcpstate s =
     obind (of_option ''nil pointer dereference'' (g_client_list s t)) (\<lambda>ct.
       if kcpstate = 0xFFFFFFFF then
         obind (server_disconnect_session_by_convid X orc (ct_base_convid ct) convid s) (\<lambda>s'. Ret (Return, s'))
       else Ret (Continue, effects [KcpReadDeadline h 5000] s))"

text \<open>After \<^verbatim>\<open>Read\<close>; \<open>tun_err\<close> is the answer of the tun device to a write.\<close>

definition server_accept_read ::
  "'r ext \<Rightarrow> answers \<Rightarrow> u32 \<Rightarrow> u32 \<Rightarrow> addr \<Rightarrow> go_error + u8 list \<Rightarrow> int \<Rightarrow> int \<Rightarrow> go_error option \<Rightarrow>
     'r server \<Rightarrow> (server_control \<times> 'r server) outcome"
where
  "server_accept_read X orc t convid a result now1 now2 tun_err s =
     obind (of_option ''nil pointer dereference'' (g_client_list s t)) (\<lambda>ct.
       case result of
         Inl e \<Rightarrow>
           (if e = ''timeout''
            then Ret (Continue, upd_link a (\<lambda>c. c\<lparr>cc_rxtimeouts := cc_rxtimeouts c + 1\<rparr>) s)
            else obind (server_disconnect_session_by_convid X orc t convid s) (\<lambda>s'. Ret (Return, s')))
       | Inr m \<Rightarrow>
           (let s1 = upd_link a (\<lambda>c. c\<lparr>cc_rxcounter := cc_rxcounter c + 1,
                        cc_rxbytes := cc_rxbytes c + of_nat (length m), cc_last_hello := now1\<rparr>) s
            in case server_message m of
                 Hello \<Rightarrow> Ret (Continue, upd_link a (\<lambda>c. c\<lparr>cc_last_hello := now2\<rparr>) s1)
               | Linkdown linkdown \<Rightarrow>
                   obind (server_disconnect_session_by_convid X orc t linkdown s1) (\<lambda>s'. Ret (Continue, s'))
               | Data \<Rightarrow>
                   (case ct_iface ct of
                      None \<Rightarrow> Ret (Continue, s1)
                    | Some i \<Rightarrow>
                        let s2 = effects [TunWrite i m] s1
                        in if tun_err \<noteq> None
                           then obind (server_disconnect_session_by_convid X orc t convid s2) (\<lambda>s'. Ret (Return, s'))
                           else Ret (Continue, s2))))"

section \<open>The HELLO round\<close>

definition server_send_hello :: "answers \<Rightarrow> addr \<Rightarrow> 'r server \<Rightarrow> 'r server outcome" where
  "server_send_hello orc a s =
     obind (of_option ''nil pointer dereference'' (se_heap s a)) (\<lambda>c.
       let (e1, _) = RatSession_SetWriteDeadline (cc_session c) 3000;
           (e2, err) = RatSession_Write (cc_session c) g_hello (a_write (orc []));
           s1 = effects (e1 @ e2) s
       in Ret (if err = Some ''timeout'' then upd_link a (\<lambda>c. c\<lparr>cc_txtimeouts := cc_txtimeouts c + 1\<rparr>) s1
               else s1))"

definition server_ping_body ::
  "'r ext \<Rightarrow> answers \<Rightarrow> u32 \<Rightarrow> u32 \<Rightarrow> addr \<Rightarrow> 'r server \<Rightarrow> 'r server outcome"
where
  "server_ping_body X orc t convid a s =
     obind (of_option ''nil pointer dereference'' (se_heap s a)) (\<lambda>c.
     obind (of_option ''nil pointer dereference'' (g_client_list s t)) (\<lambda>ct.
       let t1 = a_now (orc [convid])
       in if t1 - cc_last_hello c > g_max_hello * ns_per_s then
            server_disconnect_session_by_convid X (sub_oracle convid orc) (ct_base_convid ct) (cc_convid c) s
          else
            Ret (upd_link a (\<lambda>c. c\<lparr>
                   cc_txbandwidth := F32_mbps (cc_txbytes c) (t1 - cc_last_bw_update c), cc_txbytes := 0,
                   cc_rxbandwidth := F32_mbps (cc_rxbytes c) (t1 - cc_last_bw_update c), cc_rxbytes := 0,
                   cc_last_bw_update := t1\<rparr>)
                 (if cc_session c \<noteq> None then effects [Spawn (Go_server_send_hello a)] s else s))))"

definition server_send_client_pings :: "'r ext \<Rightarrow> answers \<Rightarrow> 'r server \<Rightarrow> 'r server outcome" where
  "server_send_client_pings X orc s =
     for_range g_client_list
       (\<lambda>t ct. for_range (link_tbl t) (server_ping_body X (sub_oracle t orc) t)
                 (a_order (sub_oracle t orc [])))
       (a_order (orc [])) s"

section \<open>The reader of the tun device\<close>

definition server_hash_choice :: "'r ext \<Rightarrow> 'r \<Rightarrow> string \<Rightarrow> u32 \<times> go_error option" where
  "server_hash_choice X r dst =
     (case ring_get X r dst of Inl e \<Rightarrow> (0, Some e) | Inr owner \<Rightarrow> owner_convid X owner)"

definition link_alive :: "'r clientType \<Rightarrow> 'r server \<Rightarrow> u32 \<rightharpoonup> bool" where
  "link_alive ct s = (\<lambda>k. Option.bind (map_of (ct_conns ct) k) (\<lambda>a. map_option cc_alive (se_heap s a)))"

definition server_choose_kcp_conn ::
  "'r ext \<Rightarrow> globals \<Rightarrow> answers \<Rightarrow> (u8 list \<times> int) option \<Rightarrow> u32 \<Rightarrow> 'r server \<Rightarrow>
     ((u32 \<times> go_error option) \<times> 'r server) outcome"
where
  "server_choose_kcp_conn X G orc packet t s =
     obind (of_option ''nil pointer dereference'' (g_client_list s t)) (\<lambda>ct.
       if packet \<noteq> None \<and> g_use_consistent_hashing G then
         obind (ExtractDst X (fst (the packet)) (snd (the packet))) (\<lambda>dst.
           obind (of_option ''nil pointer dereference'' (ct_consistent ct)) (\<lambda>r.
             Ret (server_hash_choice X r dst, s)))
       else let c = rr_pick (link_alive ct s) (ct_last_convid ct) (a_order (orc [])) 0
            in Ret ((c, None), upd_ct t (\<lambda>ct. ct\<lparr>ct_last_convid := c\<rparr>) s))"

definition server_tun_send ::
  "'r ext \<Rightarrow> answers \<Rightarrow> u32 \<Rightarrow> addr \<Rightarrow> u8 list \<Rightarrow> u32 \<Rightarrow> go_error option \<Rightarrow> 'r server \<Rightarrow> 'r server outcome"
where
  "server_tun_send X orc t a data kcpstate write s =
     obind (of_option ''nil pointer dereference'' (se_heap s a)) (\<lambda>c.
     obind (of_option ''nil pointer dereference'' (g_client_list s t)) (\<lambda>ct.
       if cc_session c = None then Ret s
       else if RatSession_GetState (cc_session c) kcpstate = 0xFFFFFFFF then
         server_disconnect_session_by_convid X orc (ct_base_convid ct) (cc_convid c) s
       else
         let (e1, _) = RatSession_SetWriteDeadline (cc_session c) g_write_deadline;
             (e2, werr) = RatSession_Write (cc_session c) data write;
             s1 = effects (e1 @ e2) s
         in if werr = None then
              Ret (upd_link a (\<lambda>c. c\<lparr>cc_txcounter := cc_txcounter c + 1,
                     cc_txbytes := cc_txbytes c + of_nat (length data)\<rparr>) s1)
            else if werr = Some ''timeout'' then
              Ret (upd_link a (\<lambda>c. c\<lparr>cc_txtimeouts := cc_txtimeouts c + 1\<rparr>) s1)
            else server_disconnect_session_by_convid X orc (ct_base_convid ct) (cc_convid c) s1))"

text \<open>A failing read of the tun device panics (\<^verbatim>\<open>l.Panicf\<close>).\<close>

definition server_handle_tun_read ::
  "'r ext \<Rightarrow> globals \<Rightarrow> answers \<Rightarrow> u32 \<Rightarrow> go_error + u8 list \<times> nat \<Rightarrow> u32 \<Rightarrow> go_error option \<Rightarrow> 'r server \<Rightarrow>
     'r server outcome"
where
  "server_handle_tun_read X G orc t result kcpstate write s =
     (case result of
        Inl e \<Rightarrow> Panic ''tun iface read error:''
      | Inr (packet, n) \<Rightarrow>
          obind (server_choose_kcp_conn X G orc (Some (packet, int n)) t s) (\<lambda>((chose_convid, err), s1).
            if err \<noteq> None then Ret s1
            else case link_tbl t s1 chose_convid of
              None \<Rightarrow> Ret s1
            | Some a \<Rightarrow> server_tun_send X (sub_oracle 0 orc) t a (take n packet) kcpstate write s1))"

end
