(* ===== verification/Server_Bond.thy ===== *)
theory Server_Bond
  imports Server_State
begin

text \<open>
  Correctness of the server: the invariant of its bond, the disconnect loop as an instance of
  \<open>closing_loop\<close>, the scheduler as an instance of \<open>hashed_bond\<close>, and the invariant in every
  reachable state.
\<close>

section \<open>Field access after updates\<close>

lemma upd_ct_fields [simp]:
  "g_client_list (upd_ct t f s) = (g_client_list s)(t := map_option f (g_client_list s t))"
  "se_heap (upd_ct t f s) = se_heap s" "se_next (upd_ct t f s) = se_next s" "se_out (upd_ct t f s) = se_out s"
  by (simp_all add: upd_ct_def)

lemma upd_link_fields [simp]:
  "g_client_list (upd_link a f s) = g_client_list s"
  "se_heap (upd_link a f s) = (se_heap s)(a := map_option f (se_heap s a))"
  "se_next (upd_link a f s) = se_next s" "se_out (upd_link a f s) = se_out s"
  by (simp_all add: upd_link_def)

lemma effects_fields [simp]:
  "g_client_list (effects es s) = g_client_list s" "se_heap (effects es s) = se_heap s"
  "se_next (effects es s) = se_next s" "se_out (effects es s) = se_out s @ es"
  by (simp_all add: effects_def)

lemma link_tbl_effects [simp]: "link_tbl t (effects es s) = link_tbl t s"
  by (simp add: link_tbl_def)

lemma link_tbl_upd_link [simp]: "link_tbl t (upd_link a f s) = link_tbl t s"
  by (simp add: link_tbl_def)

lemma link_tbl_Some: "g_client_list s t = Some ct \<Longrightarrow> link_tbl t s = map_of (ct_conns ct)"
  by (simp add: link_tbl_def)

section \<open>The invariant\<close>

definition link_ok :: "'r server \<Rightarrow> u32 \<Rightarrow> addr \<Rightarrow> bool" where
  "link_ok s k a \<longleftrightarrow> a < se_next s \<and>
     (case se_heap s a of
        None \<Rightarrow> False
      | Some c \<Rightarrow> cc_convid c = k \<and> cc_alive c \<and>
          (case cc_session c of None \<Rightarrow> False | Some r \<Rightarrow> rs_convid r = k))"

definition tunnel_ok :: "'r ext \<Rightarrow> u32 \<Rightarrow> 'r clientType \<Rightarrow> bool" where
  "tunnel_ok X t ct \<longleftrightarrow>
     (case ct_connections ct of
        None \<Rightarrow> ct_consistent ct = None \<and> ct_last_convid ct = 0 \<and>
          (ct_iface ct = None \<or> ct_base_convid ct = t)
      | Some m \<Rightarrow>
          gm_ok m \<and> ct_base_convid ct = t \<and>
          (case ct_consistent ct of
             None \<Rightarrow> False
           | Some r \<Rightarrow> set (ring_members X r) = dec_u32 ` dom (map_of m)) \<and>
          (ct_last_convid ct = 0 \<or> map_of m (ct_last_convid ct) \<noteq> None))"

definition server_inv :: "'r ext \<Rightarrow> 'r server \<Rightarrow> bool" where
  "server_inv X s \<longleftrightarrow>
     (\<forall>t ct. g_client_list s t = Some ct \<longrightarrow> tunnel_ok X t ct) \<and>
     (\<forall>t k a. link_tbl t s k = Some a \<longrightarrow> link_ok s k a) \<and>
     (\<forall>a. se_next s \<le> a \<longrightarrow> se_heap s a = None)"

text \<open>An operation on tunnel \<open>t\<close> leaves the other tunnels, the connection objects' ids and the past effects alone.\<close>

definition server_frame :: "u32 \<Rightarrow> 'r server \<Rightarrow> 'r server \<Rightarrow> bool" where
  "server_frame t s s' \<longleftrightarrow>
     (\<forall>t'. t' \<noteq> t \<longrightarrow> g_client_list s' t' = g_client_list s t') \<and>
     (g_client_list s' t = None \<longleftrightarrow> g_client_list s t = None) \<and>
     se_heap s' = se_heap s \<and> se_next s' = se_next s \<and> (\<exists>es. se_out s' = se_out s @ es)"

lemma server_inv_tunnel_ok: "server_inv X s \<Longrightarrow> g_client_list s t = Some ct \<Longrightarrow> tunnel_ok X t ct"
  by (simp add: server_inv_def)

lemma server_inv_link_ok: "server_inv X s \<Longrightarrow> link_tbl t s k = Some a \<Longrightarrow> link_ok s k a"
  by (simp add: server_inv_def)

lemma server_inv_fresh: "server_inv X s \<Longrightarrow> se_next s \<le> a \<Longrightarrow> se_heap s a = None"
  by (simp add: server_inv_def)

lemma link_okD:
  assumes "link_ok s k a"
  obtains c r where "se_heap s a = Some c" "cc_convid c = k" "cc_alive c"
    "cc_session c = Some r" "rs_convid r = k" "a < se_next s"
  using assms by (auto simp: link_ok_def split: option.splits)

lemma link_tbl_connections:
  assumes "server_inv X s" "link_tbl t s k = Some a"
  obtains ct m r where "g_client_list s t = Some ct" "ct_connections ct = Some m" "ct_consistent ct = Some r"
    "set (ring_members X r) = dec_u32 ` dom (link_tbl t s)" "gm_ok m" "ct_base_convid ct = t"
    "link_tbl t s = map_of m"
proof -
  obtain ct where ct: "g_client_list s t = Some ct" "map_of (ct_conns ct) k = Some a"
    using assms(2) by (auto simp: link_tbl_def split: option.splits)
  then obtain m where m: "ct_connections ct = Some m" "link_tbl t s = map_of m"
    by (auto simp: ct_conns_def link_tbl_Some split: option.splits)
  with server_inv_tunnel_ok [OF assms(1) ct(1)] ct(1) that show ?thesis
    by (auto simp: tunnel_ok_def split: option.splits)
qed

lemma server_inv_effects [simp]: "server_inv X (effects es s) = server_inv X s"
  by (simp add: server_inv_def link_ok_def)

lemma server_inv_upd_link:
  assumes "server_inv X s"
    and "\<And>c. cc_convid (f c) = cc_convid c \<and> cc_alive (f c) = cc_alive c \<and> cc_session (f c) = cc_session c"
  shows "server_inv X (upd_link a f s)"
proof -
  have "link_ok (upd_link a f s) k b" if "link_ok s k b" for k b
    using that by (cases "se_heap s b") (auto simp: link_ok_def assms(2))
  with assms(1) show ?thesis by (simp add: server_inv_def)
qed

text \<open>Replacing a tunnel by one in order whose table has no new entries.\<close>

lemma server_inv_replace:
  assumes inv: "server_inv X s"
    and sl: "g_client_list s' = (g_client_list s)(t := Some ct')" and "tunnel_ok X t ct'"
    and conns: "map_of (ct_conns ct') \<subseteq>\<^sub>m link_tbl t s"
    and rest: "se_heap s' = se_heap s" "se_next s' = se_next s"
  shows "server_inv X s'"
proof -
  have "link_tbl t' s k = Some a" if "link_tbl t' s' k = Some a" for t' k a
    using that sl conns by (cases "t' = t") (auto simp: link_tbl_def map_le_def dom_def)
  moreover have "link_ok s' k a = link_ok s k a" for k a
    using rest by (simp add: link_ok_def)
  ultimately have "link_tbl t' s' k = Some a \<Longrightarrow> link_ok s' k a" for t' k a
    using server_inv_link_ok [OF inv] by blast
  then show ?thesis
    using assms by (auto simp: server_inv_def)
qed

lemma server_frame_refl [simp]: "server_frame t s s"
  by (simp add: server_frame_def)

lemma server_frame_trans: "server_frame t s u \<Longrightarrow> server_frame t u v \<Longrightarrow> server_frame t s v"
  by (auto simp: server_frame_def)

section \<open>Disconnecting\<close>

definition has_convid :: "u32 \<Rightarrow> 'r server \<Rightarrow> u32 \<Rightarrow> addr \<Rightarrow> bool" where
  "has_convid d s k a \<longleftrightarrow> map_option cc_convid (se_heap s a) = Some d"

lemma server_disconnect_body_ok:
  assumes laws: "ring_laws X" and inv: "server_inv X s" and k: "link_tbl t s k = Some a"
  shows "\<exists>s'. server_disconnect_body X t d k a s = Ret s' \<and> server_inv X s' \<and> server_frame t s s' \<and>
    link_tbl t s' = (if has_convid d s k a then (link_tbl t s)(k := None) else link_tbl t s)"
proof -
  obtain c r where c: "se_heap s a = Some c" "cc_session c = Some r"
    using server_inv_link_ok [OF inv k] by (auto elim: link_okD)
  obtain ct m q where ct: "g_client_list s t = Some ct" "ct_connections ct = Some m" "ct_consistent ct = Some q"
    "set (ring_members X q) = dec_u32 ` dom (link_tbl t s)" "gm_ok m" "ct_base_convid ct = t" "link_tbl t s = map_of m"
    by (rule link_tbl_connections [OF inv k])
  show ?thesis
  proof (cases "cc_convid c = d")
    case False
    with c inv show ?thesis by (simp add: server_disconnect_body_def has_convid_def)
  next
    case True
    let ?ct = "ct\<lparr>ct_consistent := Some (ring_remove X q (dec_u32 k)), ct_last_convid := 0,
                  ct_connections := Some (gm_del k m)\<rparr>"
    define s' where "s' = upd_ct t (\<lambda>ct. ct\<lparr>ct_connections := map_option (gm_del k) (ct_connections ct)\<rparr>)
      (effects (fst (RatSession_Close (cc_session c) None)) (upd_ct t (\<lambda>ct. ct\<lparr>ct_last_convid := 0\<rparr>)
        (upd_ct t (\<lambda>ct. ct\<lparr>ct_consistent := Some (ring_remove X q (dec_u32 k))\<rparr>) s)))"
    have s': "server_disconnect_body X t d k a s = Ret s'"
      using True c ct by (simp add: server_disconnect_body_def server_close_connection_def s'_def)
    have f: "g_client_list s' = (g_client_list s)(t := Some ?ct)" "se_heap s' = se_heap s"
        "se_next s' = se_next s" "se_out s' = se_out s @ fst (RatSession_Close (cc_session c) None)"
      using ct by (simp_all add: s'_def)
    have tbl: "link_tbl t s' = (link_tbl t s)(k := None)"
      using f ct by (simp add: link_tbl_def ct_conns_def)
    have ok: "tunnel_ok X t ?ct"
      using ct by (auto simp: tunnel_ok_def ring_laws_remove [OF laws])
    have "server_inv X s'"
      by (rule server_inv_replace [OF inv f(1) ok _ f(2,3)]) (auto simp: ct ct_conns_def map_le_def)
    moreover have "server_frame t s s'"
      using f ct by (simp add: server_frame_def)
    ultimately show ?thesis using s' tbl True c by (simp add: has_convid_def)
  qed
qed

interpretation sd: closing_loop "link_tbl t" "has_convid d" "server_disconnect_body X t d"
  "\<lambda>s. ring_laws X \<and> server_inv X s" "server_frame t"
  for X :: "'r ext" and t d
proof unfold_locales
  show "server_frame t s s" for s :: "'r server" by simp
  show "server_frame t s v" if "server_frame t s u" "server_frame t u v" for s u v :: "'r server"
    using that by (rule server_frame_trans)
  fix s s' :: "'r server" and k a k' a'
  assume i: "ring_laws X \<and> server_inv X s" and k: "link_tbl t s k = Some a"
  note ok = server_disconnect_body_ok [of X s t k a d]
  show "\<exists>s'. server_disconnect_body X t d k a s = Ret s'"
    using ok i k by blast
  assume b: "server_disconnect_body X t d k a s = Ret s'"
  then show "ring_laws X \<and> server_inv X s'" "server_frame t s s'"
    and "link_tbl t s' = (if has_convid d s k a then (link_tbl t s)(k := None) else link_tbl t s)"
    using ok i k by auto
  then show "has_convid d s' k' a' = has_convid d s k' a'"
    by (simp add: has_convid_def server_frame_def)
qed

lemma keep_unless_convid:
  assumes "server_inv X s"
  shows "keep_unless UNIV (has_convid d s) (link_tbl t s) = (link_tbl t s)(d := None)"
proof
  fix k
  show "keep_unless UNIV (has_convid d s) (link_tbl t s) k = ((link_tbl t s)(d := None)) k"
    using server_inv_link_ok [OF assms, of t k]
    by (cases "link_tbl t s k") (auto simp: keep_unless_def has_convid_def elim!: link_okD)
qed

lemma server_disconnect_inv:
  assumes "ring_laws X" "server_inv X s"
  shows "\<exists>s'. server_disconnect_session_by_convid X orc t d s = Ret s' \<and> server_inv X s' \<and> server_frame t s s'"
  using sd.loop_closes [of X s t d "a_order (orc [])"] assms
  by (auto simp: server_disconnect_session_by_convid_def split: option.splits)

lemma server_disconnect_keeps:
  assumes "ring_laws X" "server_inv X s" "server_disconnect_session_by_convid X orc t d s = Ret s'"
  shows "server_inv X s'"
  using server_disconnect_inv [OF assms(1,2), of orc t d] assms(3) by auto

lemma server_disconnect_ok:
  assumes "ring_laws X" "server_inv X s" "covers orc (dom (link_tbl t s))"
  shows "\<exists>s'. server_disconnect_session_by_convid X orc t d s = Ret s' \<and> server_inv X s' \<and>
    server_frame t s s' \<and> link_tbl t s' = (link_tbl t s)(d := None)"
proof (cases "g_client_list s t")
  case None
  then show ?thesis
    using assms(2) by (simp add: server_disconnect_session_by_convid_def link_tbl_def)
next
  case (Some ct)
  then show ?thesis
    using sd.loop_closes_all [of X s t "a_order (orc [])" d] assms(1,2) covers_order [OF assms(3)]
      keep_unless_convid [OF assms(2)]
    by (simp add: server_disconnect_session_by_convid_def)
qed

section \<open>The hash scheduler on the server's bond\<close>

interpretation sh: hashed_bond X "link_tbl t" "\<lambda>s. Option.bind (g_client_list s t) ct_consistent"
  "server_hash_choice X" "server_inv X"
  for X :: "'r ext" and t
proof unfold_locales
  fix s :: "'r server" and k a
  assume inv: "server_inv X s" and k: "link_tbl t s k = Some a"
  show "\<exists>r. Option.bind (g_client_list s t) ct_consistent = Some r \<and>
      set (ring_members X r) = dec_u32 ` dom (link_tbl t s)"
    by (rule link_tbl_connections [OF inv k]) auto
qed (simp add: server_hash_choice_def)

end
