(* ===== verification/Server_Steps.thy ===== *)
theory Server_Steps
  imports Server_Bond
begin

text \<open>
  The server as a transition system. Every rule is an operation, or the part of a goroutine's
  loop body between two blocking calls; \<open>server_inv\<close> holds in every reachable state, and
  none of the operations on sessions panics there.
\<close>

section \<open>Choosing\<close>

lemma link_alive_dom:
  assumes "server_inv X s" "g_client_list s t = Some ct"
  shows "link_alive ct s k = (case link_tbl t s k of None \<Rightarrow> None | Some a \<Rightarrow> Some True)"
  using server_inv_link_ok [OF assms(1), of t k] assms(2)
  by (auto simp: link_alive_def link_tbl_Some elim!: link_okD split: option.splits)

lemma link_tbl_last [simp]:
  "link_tbl t' (upd_ct t (\<lambda>ct. ct\<lparr>ct_last_convid := c\<rparr>) s) = link_tbl t' s"
  by (auto simp: link_tbl_def ct_conns_def split: option.splits)

lemma server_inv_set_last:
  assumes "server_inv X s" "c = 0 \<or> link_tbl t s c \<noteq> None"
  shows "server_inv X (upd_ct t (\<lambda>ct. ct\<lparr>ct_last_convid := c\<rparr>) s)"
proof (cases "g_client_list s t")
  case None
  then have "upd_ct t (\<lambda>ct. ct\<lparr>ct_last_convid := c\<rparr>) s = s"
    by (simp add: upd_ct_def fun_upd_idem)
  with assms(1) show ?thesis by simp
next
  case (Some ct)
  then have "tunnel_ok X t (ct\<lparr>ct_last_convid := c\<rparr>)"
    using server_inv_tunnel_ok [OF assms(1) Some] assms(2)
    by (auto simp: tunnel_ok_def link_tbl_def ct_conns_def split: option.splits)
  then show ?thesis
    by (intro server_inv_replace [OF assms(1), of _ t])
       (auto simp: Some link_tbl_Some ct_conns_def)
qed

lemma server_choose_keeps:
  assumes "server_inv X s" "server_choose_kcp_conn X G orc packet t s = Ret ((c, err), s1)"
  shows "server_inv X s1 \<and> link_tbl t' s1 = link_tbl t' s \<and> se_heap s1 = se_heap s"
proof -
  from assms(2) obtain ct where ct: "g_client_list s t = Some ct"
    by (auto simp: server_choose_kcp_conn_def outcome_simps)
  let ?c = "rr_pick (link_alive ct s) (ct_last_convid ct) (a_order (orc [])) 0"
  have "?c = 0 \<or> link_tbl t s ?c \<noteq> None"
    using rr_pick_cases [of "link_alive ct s" "ct_last_convid ct" "a_order (orc [])" 0]
    by (auto simp: link_alive_dom [OF assms(1) ct] split: option.splits)
  then have inv: "server_inv X (upd_ct t (\<lambda>ct. ct\<lparr>ct_last_convid := ?c\<rparr>) s)"
    by (rule server_inv_set_last [OF assms(1)])
  consider "s1 = s" | "s1 = upd_ct t (\<lambda>ct. ct\<lparr>ct_last_convid := ?c\<rparr>) s"
    using assms(2) ct
    by (auto simp: server_choose_kcp_conn_def Let_def outcome_simps split: if_splits)
  then show ?thesis using assms(1) inv by cases auto
qed

section \<open>Accepting\<close>

lemma tunnel_ok_new [simp]: "tunnel_ok X t new_clientType"
  by (simp add: tunnel_ok_def new_clientType_def)

lemma ct_conns_new [simp]: "ct_conns new_clientType = []"
  by (simp add: ct_conns_def new_clientType_def)

lemma server_ensure_tun_ok:
  assumes inv: "server_inv X s" and ct: "g_client_list s t = Some ct"
    and r: "server_ensure_tun X G E t ct s = Ret (s', b)"
  obtains ct' where "server_inv X s'" "g_client_list s' t = Some ct'" "ct_connections ct' = ct_connections ct"
    "ct_base_convid ct' = t \<or> ct_connections ct' \<noteq> None" "se_heap s' = se_heap s" "se_next s' = se_next s"
proof (cases "ct_iface ct")
  case (Some i)
  with r have "s' = s" by (simp add: server_ensure_tun_def)
  with Some inv ct that server_inv_tunnel_ok [OF inv ct] show ?thesis
    by (auto simp: tunnel_ok_def split: option.splits)
next
  case None
  then obtain ct' where ct': "g_client_list s' = (g_client_list s)(t := Some ct')"
    "ct_connections ct' = ct_connections ct" "se_heap s' = se_heap s" "se_next s' = se_next s"
    "tunnel_ok X t ct'" "ct_base_convid ct' = t"
    using r ct server_inv_tunnel_ok [OF inv ct]
    by (auto simp: server_ensure_tun_def outcome_simps tunnel_ok_def Let_def
        split: prod.splits option.splits)
  have "server_inv X s'"
    by (rule server_inv_replace [OF inv ct'(1,5) _ ct'(3,4)])
       (simp add: ct' ct_conns_def link_tbl_Some [OF ct])
  with ct' that show ?thesis by simp
qed

text \<open>Entering a fresh connection object under any conversation id.\<close>

lemma server_enter_inv:
  fixes E :: accept_env and k :: u32
  assumes laws: "ring_laws X" and inv: "server_inv X s" and ct: "g_client_list s t = Some ct"
    and base: "ct_base_convid ct = t \<or> ct_connections ct \<noteq> None"
  defines "s' \<equiv> upd_ct t (server_enter X k (se_next s)) (upd_ct t (server_ensure_map X)
     (s\<lparr>se_heap := (se_heap s)(se_next s \<mapsto> new_clientConnection E k), se_next := Suc (se_next s)\<rparr>))"
  shows "server_inv X s'" "link_tbl t s' = (link_tbl t s)(k \<mapsto> se_next s)"
proof -
  let ?ct = "server_enter X k (se_next s) (server_ensure_map X ct)"
  note ok = server_inv_tunnel_ok [OF inv ct]
  have gl: "g_client_list s' = (g_client_list s)(t := Some ?ct)"
    using ct by (simp add: s'_def)
  have hp: "se_heap s' = (se_heap s)(se_next s \<mapsto> new_clientConnection E k)" "se_next s' = Suc (se_next s)"
    by (simp_all add: s'_def)
  show tbl: "link_tbl t s' = (link_tbl t s)(k \<mapsto> se_next s)"
    using ct ok gl
    by (auto simp: link_tbl_def ct_conns_def server_enter_def server_ensure_map_def tunnel_ok_def
        split: option.splits)
  have "tunnel_ok X t ?ct"
    using ok base
    by (auto simp: tunnel_ok_def server_enter_def server_ensure_map_def ring_laws_add [OF laws]
        ring_laws_new [OF laws] split: option.splits)
  moreover have "link_ok s' k' a" if "link_tbl t' s' k' = Some a" for t' k' a
  proof -
    have "link_tbl t' s k' = Some a \<or> k' = k \<and> a = se_next s"
      using that tbl gl by (cases "t' = t") (auto simp: link_tbl_def split: if_splits)
    then show ?thesis
      using server_inv_link_ok [OF inv, of t' k' a] hp
      by (auto simp: link_ok_def new_clientConnection_def split: option.splits)
  qed
  ultimately show "server_inv X s'"
    using inv gl hp server_inv_tunnel_ok [OF inv]
    by (auto simp: server_inv_def)
qed

lemma server_inv_register:
  assumes "server_inv X s"
  shows "server_inv X (s\<lparr>g_client_list := (g_client_list s)
    (t \<mapsto> case g_client_list s t of None \<Rightarrow> new_clientType | Some ct \<Rightarrow> ct)\<rparr>)"
  by (rule server_inv_replace [OF assms, of _ t])
     (use server_inv_tunnel_ok [OF assms, of t] in \<open>auto simp: link_tbl_def split: option.splits\<close>)

lemma server_accept_conn_inv:
  assumes laws: "ring_laws X" and inv: "server_inv X s"
    and ret: "server_accept_conn X G E t k s = Ret (a, s')"
  shows "server_inv X s'"
proof -
  define ct where "ct = (case g_client_list s t of None \<Rightarrow> new_clientType | Some ct \<Rightarrow> ct)"
  define s0 where "s0 = effects (setServerConnOptions G (ae_kcp E)) (s\<lparr>g_client_list := (g_client_list s)(t \<mapsto> ct)\<rparr>)"
  have inv0: "server_inv X s0"
    using server_inv_register [OF inv, of t] by (simp add: s0_def ct_def)
  have ct0: "g_client_list s0 t = Some ct" by (simp add: s0_def)
  obtain s1 sp where e: "server_ensure_tun X G E t ct s0 = Ret (s1, sp)"
    using ret unfolding server_accept_conn_def Let_def ct_def [symmetric] s0_def [symmetric]
    by (auto simp: outcome_simps)
  obtain ct1 where c1: "server_inv X s1" "g_client_list s1 t = Some ct1"
    "ct_connections ct1 = ct_connections ct" "ct_base_convid ct1 = t \<or> ct_connections ct1 \<noteq> None"
    "se_heap s1 = se_heap s0" "se_next s1 = se_next s0"
    by (rule server_ensure_tun_ok [OF inv0 ct0 e])
  let ?s2 = "upd_ct t (\<lambda>ct. ct\<lparr>ct_last_convid := 0\<rparr>) s1"
  have inv2: "server_inv X ?s2" by (rule server_inv_set_last [OF c1(1)]) simp
  have ct2: "g_client_list ?s2 t = Some (ct1\<lparr>ct_last_convid := 0\<rparr>)" using c1(2) by simp
  note ent = server_enter_inv(1) [OF laws inv2 ct2, of k E]
  show ?thesis
    using ret e inv2 ent c1(4)
    unfolding server_accept_conn_def Let_def ct_def [symmetric] s0_def [symmetric]
    by (auto split: if_splits)
qed

lemma server_accept_other:
  assumes "server_accept_conn X G E t k s = Ret (a, s')" "t' \<noteq> t"
  shows "g_client_list s' t' = g_client_list s t'"
  using assms
  by (auto simp: server_accept_conn_def server_ensure_tun_def Let_def outcome_simps case_prod_beta
      split: if_splits)

section \<open>The goroutines keep the invariant\<close>

lemma accept_begin_inv:
  assumes "ring_laws X" "server_inv X s" "server_accept_begin X orc t k h st s = Ret (ctl, s')"
  shows "server_inv X s'"
  using assms(2,3)
  by (auto simp: server_accept_begin_def outcome_simps split: if_splits
      dest: server_disconnect_keeps [OF assms(1,2)])

lemma accept_read_inv:
  assumes "ring_laws X" "server_inv X s"
    "server_accept_read X orc t k a result now1 now2 tun_err s = Ret (ctl, s')"
  shows "server_inv X s'"
proof -
  let ?rx = "\<lambda>l. upd_link a (\<lambda>c. c\<lparr>cc_rxcounter := cc_rxcounter c + 1,
        cc_rxbytes := cc_rxbytes c + l, cc_last_hello := now1\<rparr>) s"
  have touch: "server_inv X (upd_link a (\<lambda>c. c\<lparr>cc_rxtimeouts := cc_rxtimeouts c + 1\<rparr>) s)"
    "server_inv X (?rx l)" "server_inv X (effects es (?rx l))"
    "server_inv X (upd_link a (\<lambda>c. c\<lparr>cc_last_hello := now2\<rparr>) (?rx l))" for l es
    using assms(2) by (auto intro!: server_inv_upd_link)
  with assms(2,3) show ?thesis
    by (cases result)
       (auto simp: server_accept_read_def outcome_simps Let_def split: if_splits option.splits message.splits
         dest: server_disconnect_keeps [OF assms(1,2)] server_disconnect_keeps [OF assms(1) touch(2)]
           server_disconnect_keeps [OF assms(1) touch(3)])
qed

lemma server_send_hello_inv:
  assumes "server_inv X s" "server_send_hello orc a s = Ret s'"
  shows "server_inv X s'"
proof -
  have touch: "server_inv X (upd_link a (\<lambda>c. c\<lparr>cc_txtimeouts := cc_txtimeouts c + 1\<rparr>) (effects es s))" for es
    using assms(1) by (auto intro!: server_inv_upd_link)
  with assms show ?thesis
    by (auto simp: server_send_hello_def outcome_simps Let_def case_prod_beta split: if_splits)
qed

lemma server_ping_body_inv:
  assumes "ring_laws X" "server_inv X s" "server_ping_body X orc t k a s = Ret s'"
  shows "server_inv X s'"
proof -
  have touch: "server_inv X (upd_link a (\<lambda>c. c\<lparr>cc_txbandwidth := f c, cc_txbytes := 0,
      cc_rxbandwidth := g c, cc_rxbytes := 0, cc_last_bw_update := now\<rparr>) u)" if "server_inv X u" for f g now u
    using that by (auto intro!: server_inv_upd_link)
  from assms(2,3) show ?thesis
    by (auto simp: server_ping_body_def outcome_simps Let_def intro!: touch split: if_splits
        dest: server_disconnect_keeps [OF assms(1,2)])
qed

lemma send_client_pings_inv:
  assumes "ring_laws X" "server_inv X s" "server_send_client_pings X orc s = Ret s'"
  shows "server_inv X s'"
proof -
  have inner: "server_inv X u \<Longrightarrow> for_range (link_tbl t) (server_ping_body X o' t) ks u = Ret u' \<Longrightarrow>
      server_inv X u'" for o' t ks u u'
    by (erule for_range_keeps [rotated]) (use server_ping_body_inv [OF assms(1)] in blast)+
  show ?thesis
    by (rule for_range_keeps [where I = "server_inv X", OF _ assms(2) assms(3) [unfolded server_send_client_pings_def]])
       (rule inner)
qed

lemma server_tun_send_inv:
  assumes "ring_laws X" "server_inv X s" "server_tun_send X orc t a data st wr s = Ret s'"
  shows "server_inv X s'"
proof -
  have touch: "server_inv X (upd_link a (\<lambda>c. c\<lparr>cc_txcounter := cc_txcounter c + 1,
      cc_txbytes := cc_txbytes c + l\<rparr>) (effects es s))"
    "server_inv X (upd_link a (\<lambda>c. c\<lparr>cc_txtimeouts := cc_txtimeouts c + 1\<rparr>) (effects es s))"
    "server_inv X (effects es s)" for l es
    using assms(2) by (auto intro!: server_inv_upd_link)
  from assms(2,3) touch show ?thesis
    by (auto simp: server_tun_send_def outcome_simps Let_def case_prod_beta split: if_splits
        dest: server_disconnect_keeps [OF assms(1,2)] server_disconnect_keeps [OF assms(1) touch(3)])
qed

lemma server_handle_tun_read_inv:
  assumes laws: "ring_laws X" and inv: "server_inv X s"
    and ret: "server_handle_tun_read X G orc t result st wr s = Ret s'"
  shows "server_inv X s'"
proof (cases result)
  case (Inl e)
  with ret show ?thesis by (simp add: server_handle_tun_read_def)
next
  case (Inr p)
  then obtain packet n where p: "result = Inr (packet, n)" by (cases p) auto
  from ret p obtain c err s1 where
    ch: "server_choose_kcp_conn X G orc (Some (packet, int n)) t s = Ret ((c, err), s1)"
    by (auto simp: server_handle_tun_read_def outcome_simps)
  have inv1: "server_inv X s1" using server_choose_keeps [OF inv ch] by blast
  from ret p ch inv1 show ?thesis
    by (auto simp: server_handle_tun_read_def outcome_simps dest: server_tun_send_inv [OF laws inv1]
        split: if_splits option.splits)
qed

section \<open>The transition system\<close>

inductive server_step :: "'r ext \<Rightarrow> globals \<Rightarrow> 'r server \<Rightarrow> 'r server \<Rightarrow> bool" for X G where
  accept: "server_accept_conn X G E t k s = Ret (a, s') \<Longrightarrow> server_step X G s s'"
| kcp_begin: "server_accept_begin X orc t k h st s = Ret (ctl, s') \<Longrightarrow> server_step X G s s'"
| kcp_read: "server_accept_read X orc t k a result now1 now2 tun_err s = Ret (ctl, s') \<Longrightarrow> server_step X G s s'"
| tun_read: "server_handle_tun_read X G orc t result st wr s = Ret s' \<Longrightarrow> server_step X G s s'"
| hello: "server_send_hello orc a s = Ret s' \<Longrightarrow> server_step X G s s'"
| pings: "server_send_client_pings X orc s = Ret s' \<Longrightarrow> server_step X G s s'"

inductive server_reachable :: "'r ext \<Rightarrow> globals \<Rightarrow> 'r server \<Rightarrow> bool" for X G where
  start: "server_reachable X G init_server"
| step: "server_reachable X G s \<Longrightarrow> server_step X G s s' \<Longrightarrow> server_reachable X G s'"

lemma server_inv_init: "server_inv X init_server"
  by (simp add: server_inv_def init_server_def link_tbl_def)

lemma server_step_inv:
  assumes "ring_laws X" "server_inv X s" "server_step X G s s'"
  shows "server_inv X s'"
  using assms(3)
  by cases (use assms in \<open>auto intro: server_accept_conn_inv accept_begin_inv accept_read_inv
      server_handle_tun_read_inv server_send_hello_inv send_client_pings_inv\<close>)

lemma server_reachable_inv:
  assumes "ring_laws X" "server_reachable X G s"
  shows "server_inv X s"
  using assms(2)
  by induction (auto intro: server_inv_init server_step_inv [OF assms(1)])

section \<open>No panic on a tunnel that exists\<close>

lemma server_ping_body_total:
  assumes "ring_laws X" "server_inv X s" "link_tbl t s k = Some a"
  shows "\<exists>s'. server_ping_body X orc t k a s = Ret s' \<and> server_inv X s'"
proof -
  obtain c where c: "se_heap s a = Some c"
    using server_inv_link_ok [OF assms(2,3)] by (auto elim: link_okD)
  obtain ct where ct: "g_client_list s t = Some ct"
    using assms(3) by (auto simp: link_tbl_def split: option.splits)
  have "\<exists>s'. server_ping_body X orc t k a s = Ret s'"
    using c ct server_disconnect_inv [OF assms(1,2), of "sub_oracle k orc" "ct_base_convid ct" "cc_convid c"]
    by (auto simp: server_ping_body_def Let_def)
  with server_ping_body_inv [OF assms(1,2)] show ?thesis by blast
qed

end
