(* ===== verification/Server_Pings.thy ===== *)
theory Server_Pings
  imports Server_Steps
begin

text \<open>
  What a HELLO round of the server does to the bonds: it returns, and exactly the connections
  heard from within \<open>g_max_hello\<close> seconds are left.
\<close>

definition link_stale :: "answers \<Rightarrow> 'r server \<Rightarrow> u32 \<Rightarrow> addr \<Rightarrow> bool" where
  "link_stale orc s k a \<longleftrightarrow>
     (case se_heap s a of
        None \<Rightarrow> False
      | Some c \<Rightarrow> a_now (orc [k]) - cc_last_hello c > g_max_hello * ns_per_s)"

text \<open>Like \<open>server_frame\<close>, but counters of the connection objects may change.\<close>

definition ping_frame :: "u32 \<Rightarrow> 'r server \<Rightarrow> 'r server \<Rightarrow> bool" where
  "ping_frame t s s' \<longleftrightarrow>
     (\<forall>t'. t' \<noteq> t \<longrightarrow> g_client_list s' t' = g_client_list s t') \<and>
     (\<forall>a. map_option cc_last_hello (se_heap s' a) = map_option cc_last_hello (se_heap s a))"

lemma ping_frame_stale:
  assumes "ping_frame t s s'"
  shows "link_stale orc s' k a = link_stale orc s k a"
proof -
  have "map_option cc_last_hello (se_heap s' a) = map_option cc_last_hello (se_heap s a)"
    using assms by (simp add: ping_frame_def)
  then show ?thesis
    by (cases "se_heap s a"; cases "se_heap s' a") (auto simp: link_stale_def)
qed

lemma ping_frame_tbl: "ping_frame t s s' \<Longrightarrow> t' \<noteq> t \<Longrightarrow> link_tbl t' s' = link_tbl t' s"
  by (simp add: ping_frame_def link_tbl_def)

lemma server_ping_body_ok:
  assumes laws: "ring_laws X" and inv: "server_inv X s" and k: "link_tbl t s k = Some a"
    and cov: "covers orc (dom (link_tbl t s))"
  shows "\<exists>s'. server_ping_body X orc t k a s = Ret s' \<and> server_inv X s' \<and> ping_frame t s s' \<and>
    link_tbl t s' = (if link_stale orc s k a then (link_tbl t s)(k := None) else link_tbl t s)"
proof -
  obtain c where c: "se_heap s a = Some c" "cc_convid c = k"
    using server_inv_link_ok [OF inv k] by (auto elim: link_okD)
  obtain ct where ct: "g_client_list s t = Some ct" "ct_base_convid ct = t"
    using link_tbl_connections [OF inv k] by metis
  show ?thesis
  proof (cases "link_stale orc s k a")
    case True
    with c ct server_disconnect_ok [OF laws inv covers_sub [OF cov], of k k]
    show ?thesis
      by (auto simp: server_ping_body_def link_stale_def Let_def server_frame_def ping_frame_def)
  next
    case False
    obtain s' where s': "server_ping_body X orc t k a s = Ret s'" "server_inv X s'"
      using server_ping_body_total [OF laws inv k] by blast
    with False c ct have "ping_frame t s s' \<and> link_tbl t s' = link_tbl t s"
      by (auto simp: server_ping_body_def link_stale_def Let_def ping_frame_def)
    with s' False show ?thesis by simp
  qed
qed

definition server_rounds_inv :: "'r ext \<Rightarrow> answers \<Rightarrow> 'r server \<Rightarrow> bool" where
  "server_rounds_inv X orc s \<longleftrightarrow>
     ring_laws X \<and> server_inv X s \<and> (\<forall>t. covers orc (dom (link_tbl t s)))"

interpretation sp: closing_loop "link_tbl t" "link_stale (sub_oracle t orc)"
  "server_ping_body X (sub_oracle t orc) t" "server_rounds_inv X orc" "ping_frame t"
  for X :: "'r ext" and orc t
proof unfold_locales
  show "ping_frame t s s" for s :: "'r server" by (simp add: ping_frame_def)
  show "ping_frame t s v" if "ping_frame t s u" "ping_frame t u v" for s u v :: "'r server"
    using that by (simp add: ping_frame_def)
  fix s s' :: "'r server" and k a k' a'
  assume i: "server_rounds_inv X orc s" and k: "link_tbl t s k = Some a"
  then obtain v where v: "server_ping_body X (sub_oracle t orc) t k a s = Ret v" "server_inv X v"
    "ping_frame t s v"
    "link_tbl t v = (if link_stale (sub_oracle t orc) s k a then (link_tbl t s)(k := None) else link_tbl t s)"
    using server_ping_body_ok [of X s t k a "sub_oracle t orc"] by (auto simp: server_rounds_inv_def)
  from v(1) show "\<exists>s'. server_ping_body X (sub_oracle t orc) t k a s = Ret s'" by blast
  assume b: "server_ping_body X (sub_oracle t orc) t k a s = Ret s'"
  with v show "link_tbl t s' = (if link_stale (sub_oracle t orc) s k a then (link_tbl t s)(k := None) else link_tbl t s)"
    and fr: "ping_frame t s s'" by auto
  have "dom (link_tbl t' s') \<subseteq> dom (link_tbl t' s)" for t'
    using b v ping_frame_tbl [OF fr, of t'] by (cases "t' = t") auto
  then have "covers orc (dom (link_tbl t' s'))" for t'
    using i covers_mono by (simp add: server_rounds_inv_def) blast
  with i v b show "server_rounds_inv X orc s'"
    by (simp add: server_rounds_inv_def)
  from fr show "link_stale (sub_oracle t orc) s' k' a' = link_stale (sub_oracle t orc) s k' a'"
    by (rule ping_frame_stale)
qed

interpretation sr: nested_rounds g_client_list link_tbl "\<lambda>t. link_stale (sub_oracle t orc)"
  "\<lambda>t. server_ping_body X (sub_oracle t orc) t" "server_rounds_inv X orc" ping_frame
  "\<lambda>t. a_order (sub_oracle t orc [])"
  for X :: "'r ext" and orc
proof unfold_locales
  show "dom (link_tbl t s) \<subseteq> set (a_order (sub_oracle t orc []))" if "server_rounds_inv X orc s"
    for s :: "'r server" and t
    using that covers_order by (simp add: server_rounds_inv_def sub_oracle_def)
  show "link_tbl t s = Map.empty" if "g_client_list s t = None" for s :: "'r server" and t
    using that by (simp add: link_tbl_def)
qed (auto simp: ping_frame_stale fun_eq_iff ping_frame_tbl sp.closing_loop_axioms)

lemma send_client_pings_ok:
  assumes "ring_laws X" "server_inv X s" "covers orc (dom (g_client_list s))"
    "\<forall>t. covers orc (dom (link_tbl t s))"
  shows "\<exists>s'. server_send_client_pings X orc s = Ret s' \<and> server_inv X s' \<and>
    (\<forall>t. link_tbl t s' = keep_unless UNIV (link_stale (sub_oracle t orc) s) (link_tbl t s))"
  using sr.all_rounds [of X orc s "a_order (orc [])"] assms covers_order [OF assms(3)]
    covers_distinct [OF assms(3)]
  unfolding server_send_client_pings_def server_rounds_inv_def by blast

end
