(* ===== verification/Status.thy ===== *)
theory Status
  imports Client_Pings Server_Pings
begin

text \<open>
  The status texts (\<^verbatim>\<open>p_utils.go\<close>, \<^verbatim>\<open>print*\<close>) and the page that serves them (\<^verbatim>\<open>r_http.go\<close>). A text is kept
  as the list of pieces it is concatenated from: pointers, times and floating-point numbers stay
  symbolic where \<^verbatim>\<open>fmt\<close> and \<^verbatim>\<open>time\<close> would format them, everything else is the text itself.
\<close>

section \<open>Pieces of text\<close>

text \<open>
  \<open>Fixed2\<close> is a bandwidth under \<^verbatim>\<open>%.2f\<close>, \<open>Seconds2\<close> a duration in nanoseconds as \<^verbatim>\<open>%.2f\<close> seconds,
  \<open>Stamp\<close> an instant under the layout \<^verbatim>\<open>20060102-15:04:05.000\<close>.
\<close>

datatype piece =
    Txt string
  | Ptr_iface "iface option"
  | Ptr_handle "handle option"
  | Fixed2 f32
  | Seconds2 int
  | Stamp int

definition newline :: string where
  "newline = [CHR 0x0A]"

definition tab :: string where
  "tab = [CHR 0x09]"

definition show_bool :: "bool \<Rightarrow> string" where
  "show_bool b = (if b then ''true'' else ''false'')"

text \<open>\<^verbatim>\<open>name=value, \<close>\<close>

definition field :: "string \<Rightarrow> piece \<Rightarrow> piece list" where
  "field name v = [Txt (name @ ''=''), v, Txt '', '']"

text \<open>
  What a text depends on beside the program's state: what each KCP session reports (\<^verbatim>\<open>GetState\<close>,
  \<^verbatim>\<open>GetRTO\<close>, the names and values of \<^verbatim>\<open>GetSnmp\<close>) and the two readings of the clock per connection.
\<close>

record kcp_info =
  ki_state :: u32
  ki_rto :: u32
  ki_names :: "string list"
  ki_values :: "string list"

record print_env =
  pe_kcp :: "handle \<Rightarrow> kcp_info"
  pe_ut :: "addr \<Rightarrow> int"
  pe_t1 :: "addr \<Rightarrow> int"

text \<open>\<^verbatim>\<open>Header\<close> and \<^verbatim>\<open>ToSlice\<close> of the KCP library have the same length.\<close>

definition snmp_matches :: "print_env \<Rightarrow> bool" where
  "snmp_matches E \<longleftrightarrow> (\<forall>h. length (ki_values (pe_kcp E h)) = length (ki_names (pe_kcp E h)))"

section \<open>Connections\<close>

fun snmp_lines :: "string list \<Rightarrow> string list \<Rightarrow> piece list outcome" where
  "snmp_lines [] values = Ret []"
| "snmp_lines (name # names) [] = Panic ''index out of range''"
| "snmp_lines (name # names) (v # values) =
     obind (snmp_lines names values) (\<lambda>rest. Ret (Txt (name @ ''='' @ v @ newline) # rest))"

definition printSnmp :: "kcp_info \<Rightarrow> piece list outcome" where
  "printSnmp snmp =
     obind (snmp_lines (ki_names snmp) (ki_values snmp)) (\<lambda>ls.
       Ret ([Txt (''snmp: { '' @ newline)] @ ls @ [Txt (''}'' @ newline)]))"

definition printServerConnection :: "print_env \<Rightarrow> addr \<Rightarrow> 'r client \<Rightarrow> piece list outcome" where
  "printServerConnection E a s =
     obind (of_option ''nil pointer dereference'' (cl_heap s a)) (\<lambda>k.
       case sc_session k of
         None \<Rightarrow> Ret [Txt ''session=NIL!!!'']
       | Some r \<Rightarrow>
           obind (printSnmp (pe_kcp E (rs_kcp r))) (\<lambda>snmp.
             Ret ([Txt (''{ convid='' @ dec_u32 (sc_convid k) @ '', '')]
               @ field ''kcp'' (Ptr_handle (Some (rs_kcp r)))
               @ field ''kcpstate'' (Txt (dec_u32 (ki_state (pe_kcp E (rs_kcp r)))))
               @ field ''kcp_rto'' (Txt (dec_u32 (ki_rto (pe_kcp E (rs_kcp r)))))
               @ field ''udp_conn'' (Ptr_handle (rs_udp_conn r))
               @ field ''ifname'' (Txt (sc_ifname k))
               @ field ''txcounter'' (Txt (dec_of (unat (sc_txcounter k))))
               @ field ''rxcounter'' (Txt (dec_of (unat (sc_rxcounter k))))
               @ field ''rxtimeouts'' (Txt (dec_of (unat (sc_rxtimeouts k))))
               @ field ''txtimeouts'' (Txt (dec_of (unat (sc_txtimeouts k))))
               @ field ''priority'' (Txt (dec_u32 (sc_priority k)))
               @ field ''txbandwidth'' (Fixed2 (sc_txbandwidth k))
               @ field ''rxbandwidth'' (Fixed2 (sc_rxbandwidth k))
               @ field ''uptime'' (Seconds2 (pe_ut E a - sc_up_since k))
               @ field ''hello_age'' (Seconds2 (pe_t1 E a - sc_last_hello k))
               @ field ''alive'' (Txt (show_bool (sc_alive k)))
               @ field ''src_address'' (Txt (sc_src_address k))
               @ field ''wan_ip'' (Txt (sc_wan_ip k))
               @ field ''up_since'' (Stamp (sc_up_since k))
               @ [Txt ''last_hello='', Stamp (sc_last_hello k), Txt '' }''] @ snmp)))"

text \<open>The server's counterpart does not look whether the session is there.\<close>

definition printClientConnection :: "print_env \<Rightarrow> addr \<Rightarrow> 'r server \<Rightarrow> piece list outcome" where
  "printClientConnection E a s =
     obind (of_option ''nil pointer dereference'' (se_heap s a)) (\<lambda>k.
     obind (of_option ''nil pointer dereference'' (cc_session k)) (\<lambda>r.
     obind (printSnmp (pe_kcp E (rs_kcp r))) (\<lambda>snmp.
       Ret ([Txt (''{ convid='' @ dec_u32 (cc_convid k) @ '', '')]
         @ field ''kcp'' (Ptr_handle (Some (rs_kcp r)))
         @ field ''kcpstate'' (Txt (dec_u32 (ki_state (pe_kcp E (rs_kcp r)))))
         @ field ''kcp_rto'' (Txt (dec_u32 (ki_rto (pe_kcp E (rs_kcp r)))))
         @ field ''txcounter'' (Txt (dec_of (unat (cc_txcounter k))))
         @ field ''rxcounter'' (Txt (dec_of (unat (cc_rxcounter k))))
         @ field ''rxtimeouts'' (Txt (dec_of (unat (cc_rxtimeouts k))))
         @ field ''txtimeouts'' (Txt (dec_of (unat (cc_txtimeouts k))))
         @ field ''priority'' (Txt (dec_u32 (cc_priority k)))
         @ field ''txbandwidth'' (Fixed2 (cc_txbandwidth k))
         @ field ''rxbandwidth'' (Fixed2 (cc_rxbandwidth k))
         @ field ''alive'' (Txt (show_bool (cc_alive k)))
         @ field ''uptime'' (Seconds2 (pe_ut E a - cc_up_since k))
         @ field ''hello_age'' (Seconds2 (pe_t1 E a - cc_last_hello k))
         @ field ''alive'' (Txt (show_bool (cc_alive k)))
         @ field ''src_address'' (Txt (cc_src_address k))
         @ field ''up_since'' (Stamp (cc_up_since k))
         @ [Txt ''last_hello='', Stamp (cc_last_hello k), Txt '' '', Txt '' }''] @ snmp))))"

section \<open>Tunnels\<close>

text \<open>\<^verbatim>\<open>int(k)\<close> of a \<^verbatim>\<open>uint32\<close>: it wraps where \<^verbatim>\<open>int\<close> has 32 bits, and \<^verbatim>\<open>uint32\<close> takes it back.\<close>

definition int_of_u32 :: "'r ext \<Rightarrow> u32 \<Rightarrow> int" where
  "int_of_u32 X k = signed_take_bit (int_bits X - 1) (uint k)"

text \<open>The loop over the sorted keys, \<open>pr\<close> printing the connection under a key.\<close>

fun print_conns :: "(int \<Rightarrow> piece list outcome) \<Rightarrow> int list \<Rightarrow> piece list outcome" where
  "print_conns pr [] = Ret []"
| "print_conns pr (convid # keys) =
     obind (pr convid) (\<lambda>p.
     obind (print_conns pr keys) (\<lambda>rest.
       Ret ([Txt (tab @ ''convid='' @ dec_int convid @ '' '')] @ p @ [Txt (''  '' @ newline)] @ rest)))"

definition server_head :: "'r serverType \<Rightarrow> u32 \<Rightarrow> piece list" where
  "server_head srv serverid =
     [Txt (''server:'' @ dec_u32 serverid @ '' { base_convid='' @ dec_u32 (sv_base_convid srv) @ '', '')]
     @ field ''last_convid'' (Txt (dec_u32 (sv_last_convid srv)))
     @ field ''ifname'' (Txt (sv_ifname srv))
     @ field ''iface'' (Ptr_iface (sv_iface srv))
     @ field ''my_tun_ip'' (Txt (sv_my_tun_ip srv))
     @ field ''remote_tun_ip'' (Txt (sv_remote_tun_ip srv))
     @ [Txt (newline @ '' connections={ '' @ newline)]"

definition printServer ::
  "'r ext \<Rightarrow> print_env \<Rightarrow> 'r serverType \<Rightarrow> u32 \<Rightarrow> 'r client \<Rightarrow> piece list outcome"
where
  "printServer X E srv serverid s =
     (let keys = sort (map (\<lambda>(k, a). int_of_u32 X k) (sv_conns srv))
      in obind (print_conns (\<lambda>convid.
             obind (of_option ''nil pointer dereference'' (map_of (sv_conns srv) (word_of_int convid)))
               (\<lambda>a. printServerConnection E a s)) keys) (\<lambda>conns.
           Ret (server_head srv serverid @ conns @ [Txt (''}'' @ newline)])))"

definition client_head :: "'r clientType \<Rightarrow> u32 \<Rightarrow> piece list" where
  "client_head cl clientid =
     [Txt (''client:'' @ dec_u32 clientid @ '' { base_convid='' @ dec_u32 (ct_base_convid cl) @ '', '')]
     @ field ''last_convid'' (Txt (dec_u32 (ct_last_convid cl)))
     @ field ''ifname'' (Txt (ct_ifname cl))
     @ field ''iface'' (Ptr_iface (ct_iface cl))
     @ field ''my_tun_ip'' (Txt (ct_my_tun_ip cl))
     @ field ''remote_tun_ip'' (Txt (ct_remote_tun_ip cl))
     @ [Txt (newline @ '' connections={ '' @ newline)]"

definition printClient ::
  "'r ext \<Rightarrow> print_env \<Rightarrow> 'r clientType \<Rightarrow> u32 \<Rightarrow> 'r server \<Rightarrow> piece list outcome"
where
  "printClient X E cl clientid s =
     (let keys = sort (map (\<lambda>(k, a). int_of_u32 X k) (ct_conns cl))
      in obind (print_conns (\<lambda>convid.
             obind (of_option ''nil pointer dereference'' (map_of (ct_conns cl) (word_of_int convid)))
               (\<lambda>a. printClientConnection E a s)) keys) (\<lambda>conns.
           Ret (client_head cl clientid @ conns @ [Txt (''}'' @ newline)])))"

text \<open>The loops over the tunnels, \<open>order\<close> being the order they are visited in.\<close>

fun print_list :: "('v \<Rightarrow> u32 \<Rightarrow> piece list outcome) \<Rightarrow> (u32 \<rightharpoonup> 'v) \<Rightarrow> u32 list \<Rightarrow> piece list outcome" where
  "print_list pr m [] = Ret []"
| "print_list pr m (t # ts) =
     (case m t of
        None \<Rightarrow> print_list pr m ts
      | Some v \<Rightarrow> obind (pr v t) (\<lambda>p. obind (print_list pr m ts) (\<lambda>rest. Ret (p @ rest))))"

definition printServerList :: "'r ext \<Rightarrow> print_env \<Rightarrow> u32 list \<Rightarrow> 'r client \<Rightarrow> piece list outcome" where
  "printServerList X E order s = print_list (\<lambda>srv t. printServer X E srv t s) (g_server_list s) order"

definition printClientList :: "'r ext \<Rightarrow> print_env \<Rightarrow> u32 list \<Rightarrow> 'r server \<Rightarrow> piece list outcome" where
  "printClientList X E order s = print_list (\<lambda>cl t. printClient X E cl t s) (g_client_list s) order"

section \<open>The status page\<close>

text \<open>What \<^verbatim>\<open>http_status\<close> writes to the response; the two lists are there in every mode.\<close>

definition http_status ::
  "'r ext \<Rightarrow> globals \<Rightarrow> print_env \<Rightarrow> u32 list \<Rightarrow> 'r client \<Rightarrow> 'r server \<Rightarrow> piece list outcome"
where
  "http_status X G E order s s' =
     obind (if g_run_client G
            then obind (printServerList X E order s) (\<lambda>p. Ret (Txt (''g_server_list: '' @ newline) # p))
            else Ret []) (\<lambda>w1.
     obind (if g_run_server G
            then obind (printClientList X E order s') (\<lambda>p. Ret (Txt (''client_list: '' @ newline) # p))
            else Ret []) (\<lambda>w2. Ret (w1 @ w2)))"

datatype http_call = HandleFunc string | ListenAndServe string

definition http_serve :: "globals \<Rightarrow> http_call list" where
  "http_serve G =
     (if g_http_listen_addr G = '''' then []
      else [HandleFunc ''/status'', ListenAndServe (g_http_listen_addr G)])"

section \<open>The texts can always be computed\<close>

lemma snmp_lines_total: "length vs = length names \<Longrightarrow> \<exists>ls. snmp_lines names vs = Ret ls"
  by (induction names vs rule: snmp_lines.induct) auto

lemma printSnmp_total: "snmp_matches E \<Longrightarrow> \<exists>p. printSnmp (pe_kcp E h) = Ret p"
  using snmp_lines_total [of "ki_values (pe_kcp E h)" "ki_names (pe_kcp E h)"]
  by (auto simp: printSnmp_def snmp_matches_def)

lemma printServerConnection_total:
  assumes "snmp_matches E" "cl_heap s a = Some k"
  shows "\<exists>p. printServerConnection E a s = Ret p"
proof (cases "sc_session k")
  case None
  then show ?thesis by (simp add: printServerConnection_def assms)
next
  case (Some r)
  then show ?thesis
    using printSnmp_total [OF assms(1), of "rs_kcp r"] by (auto simp: printServerConnection_def assms)
qed

lemma printClientConnection_total:
  assumes "snmp_matches E" "se_heap s a = Some k" "cc_session k = Some r"
  shows "\<exists>p. printClientConnection E a s = Ret p"
  using printSnmp_total [OF assms(1), of "rs_kcp r"] by (auto simp: printClientConnection_def assms)

lemma print_conns_total:
  "\<forall>c \<in> set keys. \<exists>p. pr c = Ret p \<Longrightarrow> \<exists>ps. print_conns pr keys = Ret ps"
  by (induction keys) auto

lemma print_list_total:
  "\<forall>t v. m t = Some v \<longrightarrow> (\<exists>p. pr v t = Ret p) \<Longrightarrow> \<exists>ps. print_list pr m order = Ret ps"
  by (induction order) (fastforce split: option.splits)+

lemma int_of_u32_back:
  assumes "32 \<le> int_bits X"
  shows "word_of_int (int_of_u32 X k) = k"
proof -
  have top: "n = int_bits X - Suc 0" if "int_bits X - Suc 0 \<le> n" "n < 32" for n
    using that assms by simp
  have "take_bit 32 (signed_take_bit (int_bits X - 1) (uint k)) = take_bit 32 (uint k)"
    by (rule bit_eqI) (auto simp: bit_simps min_def dest: top)
  then have "(word_of_int (int_of_u32 X k) :: u32) = word_of_int (uint k)"
    unfolding int_of_u32_def by (intro word_of_int_eq_iff [THEN iffD2]) simp
  then show ?thesis by simp
qed

text \<open>On a 64-bit host the keys are the ids themselves, in ascending order.\<close>

lemma int_of_u32_64: "int_bits X = 64 \<Longrightarrow> int_of_u32 X k = uint k"
proof -
  assume X: "int_bits X = 64"
  have "uint k < 2 ^ 32" using unsigned_less [of k, where ?'a = int] by simp
  moreover have "- (2 ^ 63) \<le> uint k" by (rule order.trans [of _ 0]) simp_all
  ultimately show ?thesis
    unfolding int_of_u32_def X by (intro signed_take_bit_int_eq_self) simp_all
qed

lemma sorted_keys:
  assumes "int_bits X = 64" "gm_ok m"
  shows "sort (map (\<lambda>(k, a). int_of_u32 X k) m) = map uint (sorted_list_of_set (dom (map_of m)))"
proof (rule sorted_distinct_set_unique)
  let ?K = "sorted_list_of_set (dom (map_of m))"
  have fin: "finite (dom (map_of m))" by (rule finite_dom_map_of)
  show "sorted (map uint ?K)"
    by (simp add: sorted_wrt_map flip: word_le_def)
  show "distinct (map uint ?K)" by (simp add: distinct_map inj_on_def word_uint_eq_iff)
  have eq: "map (\<lambda>(k, a). int_of_u32 X k) m = map uint (map fst m)"
    using int_of_u32_64 [OF assms(1)] by auto
  show "sorted (sort (map (\<lambda>(k, a). int_of_u32 X k) m))" by simp
  show "distinct (sort (map (\<lambda>(k, a). int_of_u32 X k) m))"
    unfolding eq using assms(2) by (simp add: gm_ok_def distinct_map inj_on_def word_uint_eq_iff)
  show "set (sort (map (\<lambda>(k, a). int_of_u32 X k) m)) = set (map uint ?K)"
    unfolding eq using fin by (simp add: dom_map_of_conv_image_fst image_image)
qed

text \<open>What is printed for the connections of a tunnel: one line each, in ascending order of their ids.\<close>

definition conn_lines :: "(u32 \<Rightarrow> piece list) \<Rightarrow> u32 set \<Rightarrow> piece list" where
  "conn_lines body K = concat (map (\<lambda>k.
     Txt (tab @ ''convid='' @ dec_u32 k @ '' '') # body k @ [Txt (''  '' @ newline)]) (sorted_list_of_set K))"

lemma dec_int_uint [simp]: "dec_int (uint (k :: u32)) = dec_u32 k"
  by (simp add: dec_int_def dec_u32_def)

lemma print_conns_concat:
  "\<forall>k \<in> set ks. pr (uint k) = Ret (body k) \<Longrightarrow>
    print_conns pr (map uint ks) = Ret (concat (map (\<lambda>k.
      Txt (tab @ ''convid='' @ dec_u32 k @ '' '') # body k @ [Txt (''  '' @ newline)]) ks))"
  by (induction ks) simp_all

lemma print_conns_links:
  assumes "int_bits X = 64" "gm_ok m"
    and "\<And>k a. map_of m k = Some a \<Longrightarrow> pr (uint k) = Ret (body k)"
  shows "print_conns pr (sort (map (\<lambda>(k, a). int_of_u32 X k) m)) = Ret (conn_lines body (dom (map_of m)))"
  unfolding sorted_keys [OF assms(1,2)] conn_lines_def
  by (rule print_conns_concat) (auto simp: finite_dom_map_of dest: assms(3))

lemma client_conns_ok:
  assumes "client_inv X s" "g_server_list s t = Some sv"
  shows "gm_ok (sv_conns sv)"
  using client_inv_bond_ok [OF assms] by (auto simp: bond_ok_def sv_conns_def split: option.splits)

lemma server_conns_ok:
  assumes "server_inv X s" "g_client_list s t = Some ct"
  shows "gm_ok (ct_conns ct)"
  using server_inv_tunnel_ok [OF assms] by (auto simp: tunnel_ok_def ct_conns_def split: option.splits)

lemma bonded_prints:
  assumes "client_inv X s" "snmp_matches E" "conn_tbl t s k = Some a"
  shows "\<exists>p. printServerConnection E a s = Ret p"
  using client_inv_conn_ok [OF assms(1,3)]
  by (elim conn_okD) (rule printServerConnection_total [OF assms(2)])

lemma linked_prints:
  assumes "server_inv X s" "snmp_matches E" "link_tbl t s k = Some a"
  shows "\<exists>p. printClientConnection E a s = Ret p"
  using server_inv_link_ok [OF assms(1,3)]
  by (elim link_okD) (rule printClientConnection_total [OF assms(2)])

lemma print_sorted_total:
  assumes "gm_ok m" "32 \<le> int_bits X" "\<And>k a. map_of m k = Some a \<Longrightarrow> \<exists>p. pr a = Ret p"
  shows "\<exists>ps. print_conns (\<lambda>c. obind (of_option e (map_of m (word_of_int c))) pr)
    (sort (map (\<lambda>(k, a). int_of_u32 X k) m)) = Ret ps"
proof (rule print_conns_total, rule ballI)
  fix c
  assume "c \<in> set (sort (map (\<lambda>(k, a). int_of_u32 X k) m))"
  then obtain k a where "(k, a) \<in> set m" "c = int_of_u32 X k" by auto
  then have "map_of m (word_of_int c) = Some a"
    using assms(1) by (simp add: int_of_u32_back [OF assms(2)] gm_ok_def)
  with assms(3) [OF this] show "\<exists>p. obind (of_option e (map_of m (word_of_int c))) pr = Ret p" by simp
qed

lemma printServer_links:
  assumes "client_inv X s" "g_server_list s t = Some sv" "int_bits X = 64" "snmp_matches E"
  shows "\<exists>body. (\<forall>k a. conn_tbl t s k = Some a \<longrightarrow> printServerConnection E a s = Ret (body k)) \<and>
    printServer X E sv t s =
      Ret (server_head sv t @ conn_lines body (dom (conn_tbl t s)) @ [Txt (''}'' @ newline)])"
proof -
  have "\<forall>k. \<exists>p. \<forall>a. conn_tbl t s k = Some a \<longrightarrow> printServerConnection E a s = Ret p"
    using bonded_prints [OF assms(1,4)] by (metis option.inject)
  then obtain body where body: "\<forall>k a. conn_tbl t s k = Some a \<longrightarrow> printServerConnection E a s = Ret (body k)"
    by metis
  note tbl = conn_tbl_Some [OF assms(2)]
  from body have "print_conns (\<lambda>c. obind (of_option ''nil pointer dereference'' (map_of (sv_conns sv) (word_of_int c)))
      (\<lambda>a. printServerConnection E a s)) (sort (map (\<lambda>(k, a). int_of_u32 X k) (sv_conns sv))) =
      Ret (conn_lines body (dom (map_of (sv_conns sv))))"
    by (intro print_conns_links [OF assms(3) client_conns_ok [OF assms(1,2)]]) (simp add: tbl)
  with body show ?thesis by (intro exI [of _ body]) (simp add: printServer_def tbl)
qed

lemma printServer_total:
  assumes "client_inv X s" "g_server_list s t = Some sv" "32 \<le> int_bits X" "snmp_matches E"
  shows "\<exists>p. printServer X E sv t s = Ret p"
proof -
  note print_sorted_total [OF client_conns_ok [OF assms(1,2)] assms(3), of "\<lambda>a. printServerConnection E a s"
      "''nil pointer dereference''"]
  then show ?thesis
    using bonded_prints [OF assms(1,4), of t] by (fastforce simp: printServer_def conn_tbl_Some [OF assms(2)])
qed

lemma printClient_total:
  assumes "server_inv X s" "g_client_list s t = Some ct" "32 \<le> int_bits X" "snmp_matches E"
  shows "\<exists>p. printClient X E ct t s = Ret p"
proof -
  note print_sorted_total [OF server_conns_ok [OF assms(1,2)] assms(3), of "\<lambda>a. printClientConnection E a s"
      "''nil pointer dereference''"]
  then show ?thesis
    using linked_prints [OF assms(1,4), of t] by (fastforce simp: printClient_def link_tbl_Some [OF assms(2)])
qed

lemma printServerList_total:
  assumes "client_inv X s" "32 \<le> int_bits X" "snmp_matches E"
  shows "\<exists>p. printServerList X E order s = Ret p"
  unfolding printServerList_def
  by (rule print_list_total) (use printServer_total [OF assms(1) _ assms(2,3)] in blast)

lemma printClientList_total:
  assumes "server_inv X s" "32 \<le> int_bits X" "snmp_matches E"
  shows "\<exists>p. printClientList X E order s = Ret p"
  unfolding printClientList_def
  by (rule print_list_total) (use printClient_total [OF assms(1) _ assms(2,3)] in blast)

lemma http_status_total:
  assumes "client_inv X s" "server_inv X s'" "32 \<le> int_bits X" "snmp_matches E"
  shows "\<exists>p. http_status X G E order s s' = Ret p"
  using printServerList_total [OF assms(1,3,4), of order] printClientList_total [OF assms(2,3,4), of order]
  by (auto simp: http_status_def)

end
