(* ===== verification/Utils.thy ===== *)
theory Utils
  imports Session
begin

text \<open>
  \<^verbatim>\<open>p_utils.go\<close>: the addresses of a network (\<^verbatim>\<open>IpHosts\<close>, \<^verbatim>\<open>ipinc\<close>), which give the tunnel its two ends,
  and the formatting of byte counts.
\<close>

unbundle bit_operations_syntax

section \<open>Addresses of a network\<close>

text \<open>\<^verbatim>\<open>ipinc\<close> runs from the last byte to the first; the carry goes on while a byte wraps to zero.\<close>

fun inc_rev :: "u8 list \<Rightarrow> u8 list" where
  "inc_rev [] = []"
| "inc_rev (b # bs) = (if b + 1 > 0 then (b + 1) # bs else (b + 1) # inc_rev bs)"

definition ipinc :: "ip \<Rightarrow> ip" where
  "ipinc a = rev (inc_rev (rev a))"

text \<open>The loop of \<^verbatim>\<open>IpHosts\<close>; it does not end when every address is in the network.\<close>

partial_function (option) hosts_loop :: "(ip \<Rightarrow> string) \<Rightarrow> ipnet \<Rightarrow> ip \<Rightarrow> string list \<Rightarrow> string list option" where
  "hosts_loop v6 nt a ips =
     (if Contains nt a then hosts_loop v6 nt (ipinc a) (ips @ [IP_String v6 a]) else Some ips)"

declare hosts_loop.simps [code]

definition IpHosts :: "'r ext \<Rightarrow> string \<Rightarrow> (go_error + string list) outcome" where
  "IpHosts X cidr =
     (case ParseCIDR (parseIPv6 X) cidr of
        Inl e \<Rightarrow> Ret (Inl e)
      | Inr (a, nt) \<Rightarrow>
          (case hosts_loop (ipv6_String X) nt (IP_Mask a (net_Mask nt)) [] of
             None \<Rightarrow> Diverge
           | Some ips \<Rightarrow> Ret (Inr (if length ips < 2 then ips else butlast (tl ips)))))"

section \<open>Byte counts\<close>

text \<open>
  The text of a byte count: \<^verbatim>\<open>%d B\<close>, or \<^verbatim>\<open>%.1f\<close> of a quotient of \<^verbatim>\<open>float64\<close> values with a prefix; the
  quotient is kept as its two operands.
\<close>

datatype byte_text = Bytes int | Scaled int int char string

text \<open>The loop \<^verbatim>\<open>for n := b / unit; n >= unit; n /= unit\<close>: divisor and exponent.\<close>

function unit_loop :: "int \<Rightarrow> int \<Rightarrow> int \<Rightarrow> nat \<Rightarrow> int \<times> nat" where
  "unit_loop unit n d e =
     (if 1 < unit \<and> n \<ge> unit then unit_loop unit (n div unit) (d * unit) (Suc e) else (d, e))"
  by auto
termination
proof (relation "measure (\<lambda>(unit, n, d, e). nat n)")
  fix unit n d :: int and e :: nat
  assume "1 < unit \<and> unit \<le> n"
  then have "n div unit < n" by (simp add: int_div_less_self)
  with \<open>1 < unit \<and> unit \<le> n\<close>
  show "((unit, n div unit, d * unit, Suc e), (unit, n, d, e)) \<in> measure (\<lambda>(unit, n, d, e). nat n)" by simp
qed simp

declare unit_loop.simps [simp del]

definition byte_count :: "int \<Rightarrow> string \<Rightarrow> string \<Rightarrow> int \<Rightarrow> byte_text outcome" where
  "byte_count unit prefixes suffix b =
     (if b < unit then Ret (Bytes b)
      else let (d, e) = unit_loop unit (b div unit) unit 0
           in if e < length prefixes then Ret (Scaled b d (prefixes ! e) suffix)
              else Panic ''index out of range'')"

definition ByteCountDecimal :: "int \<Rightarrow> byte_text outcome" where
  "ByteCountDecimal b = byte_count 1000 ''kMGTPE'' ''B'' b"

definition ByteCountBinary :: "int \<Rightarrow> byte_text outcome" where
  "ByteCountBinary b = byte_count 1024 ''KMGTPE'' ''iB'' b"

text \<open>\<^verbatim>\<open>reverse\<close> negates an order.\<close>

definition reverse :: "(int \<Rightarrow> int \<Rightarrow> bool) \<Rightarrow> int \<Rightarrow> int \<Rightarrow> bool" where
  "reverse before = (\<lambda>i j. \<not> before i j)"

section \<open>Lemmas\<close>

text \<open>The loop keeps \<open>n = b div d\<close>.\<close>

lemma unit_loop_spec:
  assumes "1 < unit" "0 < d" "unit_loop unit (b div d) d e = (d', e')"
  shows "\<exists>k. e' = e + k \<and> d' = d * unit ^ k \<and> b div d' < unit \<and> (0 < k \<longrightarrow> d' \<le> b)"
  using assms
proof (induction unit "b div d" d e arbitrary: d' e' rule: unit_loop.induct)
  case (1 unit d e)
  show ?case
  proof (cases "b div d \<ge> unit")
    case False
    then show ?thesis using 1(4) by (simp add: unit_loop.simps [of unit "b div d"])
  next
    case True
    have q: "b div d div unit = b div (d * unit)" using 1(2) by (simp add: zdiv_zmult2_eq)
    then have "unit_loop unit (b div (d * unit)) (d * unit) (Suc e) = (d', e')"
      using 1(2,4) True by (simp add: unit_loop.simps [of unit "b div d"])
    then obtain k where k: "e' = Suc e + k" "d' = d * unit * unit ^ k" "b div d' < unit" "0 < k \<longrightarrow> d' \<le> b"
      using 1(1) [of d' e'] True 1(2,3) q by auto
    have "d * unit \<le> d * (b div d)" using True 1(3) by simp
    also have "\<dots> \<le> b" using mult_div_mod_eq [of d b] pos_mod_sign [OF 1(3), of b] by linarith
    finally have "d' \<le> b" using k(2,4) by (cases "k = 0") auto
    with k show ?thesis by (intro exI [of _ "Suc k"]) simp
  qed
qed

lemma byte_count_spec:
  assumes "1 < unit" "unit \<le> b" "b < unit ^ (length prefixes + 1)"
  shows "\<exists>e < length prefixes. byte_count unit prefixes suffix b = Ret (Scaled b (unit ^ (e + 1)) (prefixes ! e) suffix) \<and>
    unit ^ (e + 1) \<le> b \<and> b < unit ^ (e + 2)"
proof -
  obtain d e where l: "unit_loop unit (b div unit) unit 0 = (d, e)" by force
  obtain k where k: "e = k" "d = unit * unit ^ k" "b div d < unit" "0 < k \<longrightarrow> d \<le> b"
    using unit_loop_spec [OF assms(1) _ l] assms(1) by auto
  have pos: "0 < d" using k(2) assms(1) by simp
  have le: "d \<le> b" using k(2,4) assms(2) by (cases "k = 0") auto
  have lt: "b < d * unit"
  proof -
    have "b < d * (b div d) + d" using mult_div_mod_eq [of d b] pos_mod_bound [OF pos, of b] by linarith
    also have "\<dots> = d * (b div d + 1)" by (simp add: distrib_left)
    also have "\<dots> \<le> d * unit" using k(3) pos by simp
    finally show ?thesis .
  qed
  have "unit ^ (k + 1) < unit ^ (length prefixes + 1)" using le assms(3) k(2) by simp
  then have "k < length prefixes" using assms(1) by (simp add: power_strict_increasing_iff)
  then show ?thesis
    using l k(1,2) le lt assms(2) by (intro exI [of _ k]) (simp add: byte_count_def mult.commute mult.left_commute)
qed

section \<open>The two hosts of a point-to-point network\<close>

text \<open>A property of bytes, by trying them all.\<close>

lemma u8_cases: "(x :: u8) \<in> set (map word_of_int [0..255])"
proof -
  have "0 \<le> uint x \<and> uint x \<le> 255" using unsigned_less [of x, where ?'a = int] by simp
  then have "uint x \<in> set [0..255]" by simp
  then have "word_of_int (uint x) \<in> set (map word_of_int [0..255] :: u8 list)" by (simp only: set_map) (rule imageI)
  then show ?thesis by simp
qed

lemma u8_all: "list_all P (map word_of_int [0..255]) \<Longrightarrow> P (x :: u8)"
  using u8_cases [of x] by (simp only: list_all_iff)

lemma and_255 [simp]: "(x :: u8) AND 255 = x"
  by (rule u8_all [of "\<lambda>x. x AND 255 = x"]) code_simp

lemma block_of_4:
  "(x :: u8) AND 252 = x \<Longrightarrow> (x + 1) AND 252 = x \<and> (x + 2) AND 252 = x \<and> (x + 3) AND 252 = x \<and> (x + 4) AND 252 \<noteq> x \<and>
     0 < x + 1 \<and> 0 < x + 2 \<and> 0 < x + 3 \<and> x + 1 \<noteq> x + 2"
  by (rule u8_all [of "\<lambda>x. x AND 252 = x \<longrightarrow> (x + 1) AND 252 = x \<and> (x + 2) AND 252 = x \<and> (x + 3) AND 252 = x \<and>
     (x + 4) AND 252 \<noteq> x \<and> 0 < x + 1 \<and> 0 < x + 2 \<and> 0 < x + 3 \<and> x + 1 \<noteq> x + 2", THEN mp]) (code_simp, assumption)

lemma inc_last: "0 < d + 1 \<Longrightarrow> ipinc [a, b, c, d] = [a, b, c, d + 1]"
  by (simp add: ipinc_def)

lemma last_ipinc: "\<exists>a' b' c'. ipinc [a, b, c, d] = [a', b', c', d + 1]"
  by (simp add: ipinc_def)

lemma Contains_30:
  "Contains \<lparr>net_IP = [a, b, c, e], net_Mask = [255, 255, 255, 252]\<rparr> [a', b', c', d] \<longleftrightarrow>
     a' = a \<and> b' = b \<and> c' = c \<and> d AND 252 = e AND 252"
  by (auto simp: Contains_def)

lemma hosts_loop_30:
  assumes "e AND 252 = e"
  shows "hosts_loop v6 \<lparr>net_IP = [a, b, c, e], net_Mask = [255, 255, 255, 252]\<rparr> [a, b, c, e] [] =
    Some [dotted [a, b, c, e], dotted [a, b, c, e + 1], dotted [a, b, c, e + 2], dotted [a, b, c, e + 3]]"
proof -
  let ?nt = "\<lparr>net_IP = [a, b, c, e], net_Mask = [255, 255, 255, 252]\<rparr>"
  note blk = block_of_4 [OF assms]
  have step: "hosts_loop v6 ?nt [a, b, c, d] ips = hosts_loop v6 ?nt (ipinc [a, b, c, d]) (ips @ [dotted [a, b, c, d]])"
    if "d AND 252 = e" for d ips
    using that assms by (subst hosts_loop.simps) (simp add: Contains_30 del: dotted.simps)
  obtain a' b' c' where last: "ipinc [a, b, c, e + 3] = [a', b', c', e + 4]"
    using last_ipinc [of a b c "e + 3"] by (auto simp: add.assoc)
  have stop: "hosts_loop v6 ?nt [a', b', c', e + 4] ips = Some ips" for ips
    using blk assms by (subst hosts_loop.simps) (simp add: Contains_30)
  show ?thesis
    using blk assms step [of e] step [of "e + 1"] step [of "e + 2"] step [of "e + 3"] last stop
      inc_last [of e a b c] inc_last [of "e + 1" a b c] inc_last [of "e + 2" a b c]
    by (simp add: add.assoc del: dotted.simps)
qed

lemma ParseAddr_dotted:
  assumes "length q = 4"
  shows "ParseAddr p6 (dotted q) = Some q"
  using assms
proof (rule length_4_cases)
  fix a b c d
  assume q: "q = [a, b, c, d]"
  obtain rest where s: "dotted q = dec_of (unat a) @ CHR ''.'' # rest" by (simp add: q)
  have "parse_addr_scan p6 (dotted q) (dec_of (unat a) @ CHR ''.'' # rest) = parseIPv4 (dotted q)"
    by (rule parse_addr_scan_dot) (auto dest: dec_of_digits)
  then show ?thesis using parseIPv4_dotted [OF assms] by (simp only: ParseAddr_def s [symmetric])
qed

lemma ParseCIDR_30:
  "ParseCIDR p6 (dotted [a, b, c, d] @ ''/30'') =
     Inr (v4InV6Prefix @ [a, b, c, d], \<lparr>net_IP = [a, b, c, d AND 252], net_Mask = [255, 255, 255, 252]\<rparr>)"
proof -
  let ?s = "dotted [a, b, c, d]"
  have ns: "x \<noteq> CHR ''/''" if "x \<in> set ?s" for x
    using dotted_chars [OF _ that] by (auto simp: is_digit_def)
  have tk: "takeWhile (\<lambda>x. x \<noteq> CHR ''/'') (?s @ ''/30'') = ?s"
    using ns by (simp add: takeWhile_append del: dotted.simps)
  have dr: "dropWhile (\<lambda>x. x \<noteq> CHR ''/'') (?s @ ''/30'') = ''/30''"
    using ns by (simp add: dropWhile_append del: dotted.simps)
  have n: "dtoi 0 ''30'' = Some 30" by (simp add: is_digit_def digit_val_def)
  have m: "cidr_bytes 30 (Suc (Suc (Suc (Suc 0)))) = [255, 255, 255, 252]" by code_simp
  have pa: "ParseAddr p6 ?s = Some [a, b, c, d]" by (rule ParseAddr_dotted) simp
  have "IP_Mask (As16 [a, b, c, d]) [255, 255, 255, 252] = [a, b, c, d AND 252]"
    by (simp add: IP_Mask_def As16_def v4InV6Prefix_def)
  then show ?thesis
    unfolding ParseCIDR_def Let_def tk dr by (simp add: pa n m As16_def del: dotted.simps dtoi.simps cidr_bytes.simps)
qed

text \<open>What \<^verbatim>\<open>IpHosts\<close> gives for a /30 network written around any of its addresses.\<close>

lemma IpHosts_30:
  "IpHosts X (dotted [a, b, c, d] @ ''/30'') =
     Ret (Inr [dotted [a, b, c, (d AND 252) + 1], dotted [a, b, c, (d AND 252) + 2]])"
proof -
  have "IP_Mask (v4InV6Prefix @ [a, b, c, d]) [255, 255, 255, 252] = [a, b, c, d AND 252]"
    by (simp add: IP_Mask_def v4InV6Prefix_def)
  moreover have "(d AND 252) AND 252 = d AND 252" by (simp add: and.assoc)
  ultimately show ?thesis
    unfolding IpHosts_def ParseCIDR_30 by (simp add: hosts_loop_30 del: dotted.simps)
qed

end
