(* ===== verification/Program.thy ===== *)
theory Program
  imports Netlink Status Utils
begin

text \<open>
  \<^verbatim>\<open>main.go\<close>: the command line (\<^verbatim>\<open>parse_cli\<close>, \<^verbatim>\<open>main\<close>), starting a client or a server (\<^verbatim>\<open>run_client\<close>,
  \<^verbatim>\<open>run_server\<close>) and the round of their main loops, and the loop that accepts sessions. The command line
  as the flag parser (\<^verbatim>\<open>kong\<close>) delivers it is an argument.
\<close>

section \<open>\<open>netip.ParseAddrPort\<close>\<close>

text \<open>\<open>splitAddrPort\<close> cuts at the last colon and strips square brackets.\<close>

definition splitAddrPort :: "string \<Rightarrow> (string \<times> string \<times> bool) option" where
  "splitAddrPort s =
     (if CHR '':'' \<notin> set s then None
      else let port = rev (takeWhile (\<lambda>c. c \<noteq> CHR '':'') (rev s));
               ip = rev (tl (dropWhile (\<lambda>c. c \<noteq> CHR '':'') (rev s)))
      in if ip = [] \<or> port = [] then None
         else if hd ip = CHR ''['' then
           (if length ip < 2 \<or> last ip \<noteq> CHR '']'' then None else Some (butlast (tl ip), port, True))
         else Some (ip, port, False))"

text \<open>\<^verbatim>\<open>strconv.ParseUint(port, 10, 16)\<close>.\<close>

definition parse_port :: "string \<Rightarrow> u16 option" where
  "parse_port s =
     (case digits_val 0 s of None \<Rightarrow> None | Some n \<Rightarrow> if s = [] \<or> n > 65535 then None else Some (of_nat n))"

definition ParseAddrPort :: "(string \<Rightarrow> ip option) \<Rightarrow> string \<Rightarrow> (ip \<times> u16) option" where
  "ParseAddrPort p6 s =
     (case splitAddrPort s of
        None \<Rightarrow> None
      | Some (host, port, v6) \<Rightarrow>
          (case parse_port port of
             None \<Rightarrow> None
           | Some p \<Rightarrow>
               (case ParseAddr p6 host of
                  None \<Rightarrow> None
                | Some a \<Rightarrow> if v6 = (length a = 4) then None else Some (a, p))))"

section \<open>The command line\<close>

record CLI =
  cli_Debug :: bool
  cli_Trace :: bool
  cli_Nosyslog :: bool
  cli_Secret :: string
  cli_Aes :: bool
  cli_BalanceConsistent :: bool
  cli_BalanceRoundrobin :: bool
  cli_ConnectAddr :: string
  cli_ListenAddr :: string
  cli_MqttBrokerAddr :: string
  cli_MqttUsername :: string
  cli_MqttPassword :: string
  cli_TunnelId :: u32
  cli_TunName :: string
  cli_TunnelIp :: string
  cli_Mux :: u32
  cli_HttpListenAddr :: string
  cli_command :: string

text \<open>An address option: empty keeps the setting, a bad address ends the process.\<close>

definition set_addr :: "'r ext \<Rightarrow> string \<Rightarrow> (string \<Rightarrow> globals \<Rightarrow> globals) \<Rightarrow> globals \<Rightarrow> globals outcome" where
  "set_addr X v f G =
     (if v = '''' then Ret G
      else case ParseAddrPort (parseIPv6 X) v of None \<Rightarrow> Exit 1 | Some _ \<Rightarrow> Ret (f v G))"

text \<open>The switches and texts that cannot fail. \<^verbatim>\<open>int\<close> of the 32-bit mux count wraps on a 32-bit host.\<close>

definition parse_flags :: "'r ext \<Rightarrow> CLI \<Rightarrow> globals \<Rightarrow> globals" where
  "parse_flags X c G0 =
     (let G1 = (if cli_Debug c then G0\<lparr>g_debug := True\<rparr> else G0);
          G2 = (if cli_Trace c then G1\<lparr>g_trace := True, g_debug := True\<rparr> else G1);
          G3 = (if cli_Nosyslog c then G2\<lparr>g_use_syslog := False\<rparr> else G2);
          G4 = (if cli_BalanceConsistent c then G3\<lparr>g_use_consistent_hashing := True\<rparr> else G3);
          G5 = (if cli_BalanceRoundrobin c then G4\<lparr>g_use_consistent_hashing := False\<rparr> else G4);
          G6 = (if cli_Secret c \<noteq> '''' then G5\<lparr>g_secret := cli_Secret c\<rparr> else G5);
          G7 = (if cli_Mux c \<noteq> 1 then G6\<lparr>g_mux_max := signed_take_bit (int_bits X - 1) (uint (cli_Mux c))\<rparr> else G6);
          G8 = (if cli_Aes c then G7\<lparr>g_use_aes := True\<rparr> else G7)
      in if cli_TunnelId c \<noteq> 0 then G8\<lparr>g_tunnel_id := cli_TunnelId c\<rparr> else G8)"

text \<open>The tunnel's addresses: a /30 network, its first host for the client, its second for the server.\<close>

definition set_tunnel_ip :: "'r ext \<Rightarrow> string \<Rightarrow> globals \<Rightarrow> globals outcome" where
  "set_tunnel_ip X v G =
     (if v = '''' then Ret G
      else case ParseCIDR (parseIPv6 X) v of
        Inl e \<Rightarrow> Exit 1
      | Inr (a, nt) \<Rightarrow>
          (if IPMask_String (net_Mask nt) \<noteq> ''fffffffc'' then Exit 1
           else obind (IpHosts X v) (\<lambda>hosts.
             case hosts of
               Inl e \<Rightarrow> Exit 1
             | Inr hs \<Rightarrow>
                 if length hs < 2 then Exit 1
                 else Ret (G\<lparr>g_client_tun_ip := hs ! 0, g_server_tun_ip := hs ! 1\<rparr>))))"

definition parse_cli :: "'r ext \<Rightarrow> CLI \<Rightarrow> globals \<Rightarrow> (globals \<times> string) outcome" where
  "parse_cli X c G =
     obind (set_addr X (cli_ConnectAddr c) (\<lambda>v G. G\<lparr>g_connect_addr := v\<rparr>) (parse_flags X c G)) (\<lambda>G1.
     obind (set_addr X (cli_ListenAddr c) (\<lambda>v G. G\<lparr>g_listen_addr := v\<rparr>) G1) (\<lambda>G2.
     obind (set_addr X (cli_MqttBrokerAddr c) (\<lambda>v G. G\<lparr>g_mqtt_broker_addr := v\<rparr>) G2) (\<lambda>G3.
       let G4 = (if cli_MqttUsername c \<noteq> '''' then G3\<lparr>g_mqtt_username := cli_MqttUsername c\<rparr> else G3);
           G5 = (if cli_MqttPassword c \<noteq> '''' then G4\<lparr>g_mqtt_password := cli_MqttPassword c\<rparr> else G4)
       in obind (if cli_HttpListenAddr c = ''disable'' then Ret (G5\<lparr>g_http_listen_addr := ''''\<rparr>)
                 else set_addr X (cli_HttpListenAddr c) (\<lambda>v G. G\<lparr>g_http_listen_addr := v\<rparr>) G5) (\<lambda>G6.
          obind (set_tunnel_ip X (cli_TunnelIp c) G6) (\<lambda>G7. Ret (G7, cli_command c))))))"

section \<open>Starting\<close>

datatype mode = Run_client | Run_server | Run_aggregator

definition main :: "'r ext \<Rightarrow> CLI \<Rightarrow> (mode \<times> globals \<times> effect list) outcome" where
  "main X c =
     obind (parse_cli X c init_globals) (\<lambda>(G, command).
       if command = ''client'' then Ret (Run_client, G, network_sysctls)
       else if command = ''server'' then Ret (Run_server, G, network_sysctls)
       else if command = ''connectaggregator'' then Ret (Run_aggregator, G, network_sysctls)
       else Exit 1)"

text \<open>\<^verbatim>\<open>run_client\<close> and \<^verbatim>\<open>run_server\<close> up to their loops.\<close>

definition run_client_start :: "CLI \<Rightarrow> globals \<Rightarrow> (globals \<times> effect list) outcome" where
  "run_client_start c G =
     (if g_connect_addr G = '''' then Exit 1
      else if g_tunnel_id G = 0 then Exit 1
      else Ret ((if cli_TunName c \<noteq> '''' then G\<lparr>g_tunnel_name := cli_TunName c\<rparr> else G)\<lparr>g_run_client := True\<rparr>,
        [Spawn Go_http_serve, RunThing [''ip'', ''-br'', ''address''],
         Spawn (Go_netlink_subscribe_ifaces (g_tunnel_id G)), Spawn (Go_netlink_subscribe_routes (g_tunnel_id G))]))"

text \<open>\<open>None\<close>: the listener could not be created and \<^verbatim>\<open>run_server\<close> has returned.\<close>

definition run_server_start ::
  "'r ext \<Rightarrow> globals \<Rightarrow> go_error + handle \<Rightarrow> (globals \<times> handle option \<times> effect list) outcome"
where
  "run_server_start X G0 listen =
     (let G = G0\<lparr>g_run_server := True\<rparr>
      in if g_tunnel_id G = 0 then Exit 1
         else case createListener X G listen of
           (Inl e, eff) \<Rightarrow> Ret (G, None, Spawn Go_http_serve # eff)
         | (Inr h, eff) \<Rightarrow> Ret (G, Some h, Spawn Go_http_serve # eff @
             [Spawn (Go_server_handle_kcp_listener (g_tunnel_id G)), RunThing [''ip'', ''-br'', ''address'']]))"

text \<open>The sessions the listener delivers, with their conversation ids, until it fails.\<close>

fun server_handle_kcp_listener :: "u32 \<Rightarrow> (go_error + handle \<times> u32) list \<Rightarrow> effect list" where
  "server_handle_kcp_listener tunnelid [] = []"
| "server_handle_kcp_listener tunnelid (Inl e # cs) = []"
| "server_handle_kcp_listener tunnelid (Inr (conn, convid) # cs) =
     Spawn (Go_server_accept_conn tunnelid convid conn) # server_handle_kcp_listener tunnelid cs"

section \<open>The main loops\<close>

text \<open>\<^verbatim>\<open>%+v\<close> of a slice of strings.\<close>

fun words :: "string list \<Rightarrow> string" where
  "words [] = ''''"
| "words [x] = x"
| "words (x # xs) = x @ '' '' @ words xs"

text \<open>
  \<^verbatim>\<open>printServerLoads\<close> and \<^verbatim>\<open>printClientLoads\<close>, over the order the loop visits the tunnels in: the members
  of a ring that was never created are asked from a nil pointer.
\<close>

fun print_loads :: "'r ext \<Rightarrow> (u32 \<rightharpoonup> 'r option) \<Rightarrow> u32 list \<Rightarrow> string outcome" where
  "print_loads X rings [] = Ret ''''"
| "print_loads X rings (t # ts) =
     (case rings t of
        None \<Rightarrow> print_loads X rings ts
      | Some ring \<Rightarrow>
          obind (of_option ''nil pointer dereference'' ring) (\<lambda>r.
          obind (print_loads X rings ts) (\<lambda>rest.
            Ret (''members:'' @ dec_u32 t @ '' { ['' @ words (ring_members X r) @ ''] }'' @ rest))))"

definition printServerLoads :: "'r ext \<Rightarrow> u32 list \<Rightarrow> 'r client \<Rightarrow> string outcome" where
  "printServerLoads X order s = print_loads X (\<lambda>t. map_option sv_consistent (g_server_list s t)) order"

definition printClientLoads :: "'r ext \<Rightarrow> u32 list \<Rightarrow> 'r server \<Rightarrow> string outcome" where
  "printClientLoads X order s = print_loads X (\<lambda>t. map_option ct_consistent (g_client_list s t)) order"

text \<open>
  One round of the loop of \<^verbatim>\<open>run_client\<close>, after its 10 ms of sleep: \<open>loopcount\<close> and the client. The texts
  it prints are arguments of the logger and computed whatever the log level.
\<close>

definition client_tick ::
  "'r ext \<Rightarrow> globals \<Rightarrow> answers \<Rightarrow> print_env \<Rightarrow> go_error + string \<Rightarrow> nat \<times> 'r client \<Rightarrow> (nat \<times> 'r client) outcome"
where
  "client_tick X G orc E route = (\<lambda>(loopcount0, s).
     let loopcount = loopcount0 + 1;
         s1 = (if loopcount mod 500 = 0 then client_check_paths G route s else s)
     in obind (if loopcount mod 200 = 0 then client_send_server_pings X G orc s1 else Ret s1) (\<lambda>s2.
          if loopcount mod 1500 = 0 then
            obind (printServerList X E (a_order (orc [])) s2) (\<lambda>_.
            obind (printServerLoads X (a_order (orc [])) s2) (\<lambda>_.
              Ret (1, emit [Spawn (Go_netlink_get_routes (g_tunnel_id G))] s2)))
          else Ret (loopcount, s2)))"

definition server_tick ::
  "'r ext \<Rightarrow> answers \<Rightarrow> print_env \<Rightarrow> nat \<times> 'r server \<Rightarrow> (nat \<times> 'r server) outcome"
where
  "server_tick X orc E = (\<lambda>(loopcount0, s).
     let loopcount = loopcount0 + 1
     in obind (if loopcount mod 200 = 0 then server_send_client_pings X orc s else Ret s) (\<lambda>s1.
          if loopcount mod 1500 = 0 then
            obind (printClientList X E (a_order (orc [])) s1) (\<lambda>_.
            obind (printClientLoads X (a_order (orc [])) s1) (\<lambda>_. Ret (1, s1)))
          else Ret (loopcount, s1)))"

end
