(* ===== verification/Scenario.thy ===== *)
theory Scenario
  imports Program "HOL-Library.List_Lexorder" "HOL-Library.Char_ord"
begin

text \<open>
  A concrete run on which the theorems are applied: a hash ring, an IPv4 header parser, a host
  with two uplinks, a client that has joined tunnel 660 over both, and the server that has
  accepted them. All of it evaluates.
\<close>

section \<open>Third-party functions\<close>

definition demo_get :: "string list \<Rightarrow> string \<Rightarrow> go_error + string" where
  "demo_get r n =
     (let ms = sort (remdups r)
      in if ms = [] then Inl ''empty circle'' else Inr (ms ! (length n mod length ms)))"

definition demo_ParseHeader :: "u8 list \<Rightarrow> go_error + ipv4_header" where
  "demo_ParseHeader b =
     (if length b < 20 then Inl ''header too short''
      else Inr \<lparr>hd_Protocol = int (unat (b ! 9)), hd_Src = take 4 (drop 12 b), hd_Dst = take 4 (drop 16 b)\<rparr>)"

definition demo_ext :: "string list ext" where
  "demo_ext = \<lparr>ring_new = [], ring_add = (\<lambda>r e. List.insert e r), ring_remove = (\<lambda>r e. removeAll e r),
     ring_get = demo_get, ring_members = (\<lambda>r. r),
     pbkdf2_Key = (\<lambda>secret salt n len. replicate len 7),
     ParseHeader = demo_ParseHeader, nil_iface_Name = Panic ''nil pointer dereference'',
     int_bits = 64, ipv6_String = (\<lambda>_. ''::''), parseIPv6 = (\<lambda>_. None)\<rparr>"

lemma demo_get_empty: "set r = {} \<Longrightarrow> demo_get r n = Inl ''empty circle''"
  by (simp add: demo_get_def)

lemma demo_get_member:
  assumes "r \<noteq> []"
  shows "\<exists>e \<in> set r. demo_get r n = Inr e"
proof -
  let ?ms = "sort (remdups r)"
  from assms have ne: "?ms \<noteq> []" by (metis set_empty set_remdups set_sort)
  then have "?ms ! (length n mod length ?ms) \<in> set ?ms"
    by (intro nth_mem mod_less_divisor) (simp only: length_greater_0_conv not_False_eq_True)
  then have "?ms ! (length n mod length ?ms) \<in> set r" by simp
  with ne show ?thesis by (auto simp: demo_get_def Let_def)
qed

lemma demo_get_set: "set r = set r' \<Longrightarrow> demo_get r n = demo_get r' n"
proof -
  assume "set r = set r'"
  then have "sort (remdups r) = sort (remdups r')"
    by (metis sorted_list_of_set_sort_remdups)
  then show ?thesis by (simp add: demo_get_def)
qed

lemma demo_ring_laws: "ring_laws demo_ext"
  using demo_get_member by (auto simp: ring_laws_def demo_ext_def demo_get_empty)

lemma demo_ring_consistent: "ring_consistent demo_ext"
  unfolding ring_consistent_def
proof (intro allI impI)
  fix r r' n
  assume "set (ring_members demo_ext r) = set (ring_members demo_ext r')"
  then have "set r = set r'" by (simp add: demo_ext_def)
  then have "demo_get r n = demo_get r' n" by (rule demo_get_set)
  then show "ring_get demo_ext r n = ring_get demo_ext r' n" by (simp add: demo_ext_def)
qed

lemma demo_fits: "fits_int demo_ext K"
  by (rule fits_int_64) (simp add: demo_ext_def)

section \<open>The client\<close>

definition demo_globals :: globals where
  "demo_globals = init_globals\<lparr>g_tunnel_id := 660, g_connect_addr := ''154.0.6.97:12345'', g_mux_max := 2\<rparr>"

definition demo_ifaces :: "net_iface list" where
  "demo_ifaces =
     [\<lparr>ni_name = ''lo'', ni_hw = '''', ni_addrs = Inr [NetAddr [127, 0, 0, 1]]\<rparr>,
      \<lparr>ni_name = ''eth0'', ni_hw = ''de:ad:be:ef:00:01'', ni_addrs = Inr [NetAddr [192, 168, 1, 2]]\<rparr>,
      \<lparr>ni_name = ''wlan0'', ni_hw = ''de:ad:be:ef:00:02'', ni_addrs = Inr [NetAddr [192, 168, 8, 2]]\<rparr>]"

definition demo_env :: "handle \<Rightarrow> connect_env" where
  "demo_env h = \<lparr>ce_tun = Inr ''tun660'', ce_ifaces = Inr demo_ifaces, ce_resolve = (\<lambda>_. None),
     ce_http = Inr ''41.0.0.9'',
     ce_dial = \<lparr>d_server = Inr ''154.0.6.97:12345'', d_local = Inr ''0.0.0.0:0'', d_listen = Inr h, d_conn3 = Inr h\<rparr>,
     ce_now_bw = 0, ce_now_hello = 0, ce_now_up = 0, ce_route = Inr ''default via 192.168.1.1''\<rparr>"

primrec ret_or :: "'a \<Rightarrow> 'a outcome \<Rightarrow> 'a" where
  "ret_or d (Ret x) = x"
| "ret_or d (Panic m) = d"
| "ret_or d (Exit n) = d"
| "ret_or d Diverge = d"

definition demo_client1 :: "string list client" where
  "demo_client1 = ret_or init_client
     (client_connect_server demo_ext demo_globals (demo_env 1) 660 ''192.168.1.2'' ''eth0'' init_client)"

definition demo_client2 :: "string list client" where
  "demo_client2 = ret_or demo_client1
     (client_connect_server demo_ext demo_globals (demo_env 2) 660 ''192.168.8.2'' ''wlan0'' demo_client1)"

definition demo_orc :: answers where
  "demo_orc = (\<lambda>p. \<lparr>a_order = [660, 661], a_write = None, a_now = ns_per_s\<rparr>)"

primrec is_Ret :: "'a outcome \<Rightarrow> bool" where
  "is_Ret (Ret x) = True"
| "is_Ret (Panic m) = False"
| "is_Ret (Exit n) = False"
| "is_Ret Diverge = False"

lemma is_Ret_ret_or: "is_Ret x \<Longrightarrow> x = Ret (ret_or d x)"
  by (cases x) simp_all

lemma demo_client1_eq:
  "client_connect_server demo_ext demo_globals (demo_env 1) 660 ''192.168.1.2'' ''eth0'' init_client =
     Ret demo_client1"
  unfolding demo_client1_def by (rule is_Ret_ret_or) code_simp

lemma demo_client2_eq:
  "client_connect_server demo_ext demo_globals (demo_env 2) 660 ''192.168.8.2'' ''wlan0'' demo_client1 =
     Ret demo_client2"
  unfolding demo_client2_def by (rule is_Ret_ret_or) code_simp

lemma demo_reachable: "client_reachable demo_ext demo_globals demo_client2"
  using client_reachable_connect [OF client_reachable_connect [OF client_reachable.start demo_client1_eq] demo_client2_eq] .

lemma demo_conns: "map_option sv_conns (g_server_list demo_client2 660) = Some [(661, 1), (660, 0)]"
  by code_simp

lemma demo_conn_tbl: "conn_tbl 660 demo_client2 = [660 \<mapsto> 0, 661 \<mapsto> 1]"
  using demo_conns by (auto simp: conn_tbl_def split: option.splits)

lemma demo_heap:
  "map_option (\<lambda>c. (sc_ifname c, sc_src_address c, sc_last_hello c)) (cl_heap demo_client2 0) =
     Some (''eth0'', ''192.168.1.2'', 0)"
  "map_option (\<lambda>c. (sc_ifname c, sc_src_address c, sc_last_hello c)) (cl_heap demo_client2 1) =
     Some (''wlan0'', ''192.168.8.2'', 0)"
  by code_simp+

lemma demo_inv: "client_inv demo_ext demo_client2"
  by (rule client_reachable_inv [OF demo_ring_laws demo_reachable])

lemma demo_other: "t \<noteq> 660 \<Longrightarrow> g_server_list demo_client2 t = None"
  using connect_server_other [OF demo_client1_eq] connect_server_other [OF demo_client2_eq]
  by (simp add: init_client_def)

lemma demo_other_tbl: "t \<noteq> 660 \<Longrightarrow> conn_tbl t demo_client2 = Map.empty"
  by (simp add: conn_tbl_def demo_other)

lemma demo_covers: "K \<subseteq> {660, 661} \<Longrightarrow> covers demo_orc K"
  by (auto simp: covers_def demo_orc_def)

lemma demo_covers_tbl: "covers demo_orc (dom (conn_tbl t demo_client2))"
  by (rule demo_covers) (cases "t = 660", auto simp: demo_conn_tbl demo_other_tbl split: if_splits)

lemma demo_covers_tunnels: "covers demo_orc (dom (g_server_list demo_client2))"
proof (rule demo_covers, rule subsetI)
  fix t
  assume "t \<in> dom (g_server_list demo_client2)"
  then show "t \<in> {660, 661}" using demo_other [of t] by (cases "t = 660") auto
qed

section \<open>The server\<close>

definition demo_accept :: "handle \<Rightarrow> accept_env" where
  "demo_accept h = \<lparr>ae_kcp = h, ae_remote = ''41.0.0.9:40000'',
     ae_tun = Inr ''tun660'', ae_now_bw = 0, ae_now_hello = 0, ae_now_up = 0\<rparr>"

definition demo_server1 :: "string list server" where
  "demo_server1 = snd (ret_or (None, init_server)
     (server_accept_conn demo_ext demo_globals (demo_accept 1) 660 660 init_server))"

definition demo_server2 :: "string list server" where
  "demo_server2 = snd (ret_or (None, init_server)
     (server_accept_conn demo_ext demo_globals (demo_accept 2) 660 661 demo_server1))"

lemma demo_server1_eq:
  "server_accept_conn demo_ext demo_globals (demo_accept 1) 660 660 init_server = Ret (Some 0, demo_server1)"
proof -
  have "is_Ret (server_accept_conn demo_ext demo_globals (demo_accept 1) 660 660 init_server)"
    by code_simp
  moreover have "fst (ret_or (None, init_server)
      (server_accept_conn demo_ext demo_globals (demo_accept 1) 660 660 init_server)) = Some 0"
    by code_simp
  ultimately show ?thesis
    unfolding demo_server1_def by (metis is_Ret_ret_or prod.collapse)
qed

lemma demo_server2_eq:
  "server_accept_conn demo_ext demo_globals (demo_accept 2) 660 661 demo_server1 = Ret (Some 1, demo_server2)"
proof -
  have "is_Ret (server_accept_conn demo_ext demo_globals (demo_accept 2) 660 661 demo_server1)"
    by code_simp
  moreover have "fst (ret_or (None, init_server)
      (server_accept_conn demo_ext demo_globals (demo_accept 2) 660 661 demo_server1)) = Some 1"
    by code_simp
  ultimately show ?thesis
    unfolding demo_server2_def by (metis is_Ret_ret_or prod.collapse)
qed

lemma demo_server_reachable: "server_reachable demo_ext demo_globals demo_server2"
  by (rule server_reachable.step [OF server_reachable.step [OF server_reachable.start
        server_step.accept [OF demo_server1_eq]] server_step.accept [OF demo_server2_eq]])

lemma demo_server_inv: "server_inv demo_ext demo_server2"
  by (rule server_reachable_inv [OF demo_ring_laws demo_server_reachable])

lemma demo_links: "map_option ct_conns (g_client_list demo_server2 660) = Some [(661, 1), (660, 0)]"
  by code_simp

lemma demo_link_tbl: "link_tbl 660 demo_server2 = [660 \<mapsto> 0, 661 \<mapsto> 1]"
  using demo_links by (auto simp: link_tbl_def split: option.splits)

lemma demo_server_other: "t \<noteq> 660 \<Longrightarrow> g_client_list demo_server2 t = None"
  using server_accept_other [OF demo_server1_eq] server_accept_other [OF demo_server2_eq]
  by (simp add: init_server_def)

lemma demo_other_links: "t \<noteq> 660 \<Longrightarrow> link_tbl t demo_server2 = Map.empty"
  by (simp add: link_tbl_def demo_server_other)

lemma demo_covers_links: "covers demo_orc (dom (link_tbl t demo_server2))"
  by (rule demo_covers) (cases "t = 660", auto simp: demo_link_tbl demo_other_links split: if_splits)

lemma demo_covers_clients: "covers demo_orc (dom (g_client_list demo_server2))"
proof (rule demo_covers, rule subsetI)
  fix t
  assume "t \<in> dom (g_client_list demo_server2)"
  then show "t \<in> {660, 661}" using demo_server_other [of t] by (cases "t = 660") auto
qed

section \<open>A packet\<close>

text \<open>A TCP segment from port 40000 of 10.10.10.1 to port 443 of 10.0.0.9, and its answer.\<close>

definition demo_packet :: "u8 list" where
  "demo_packet = [69, 0, 0, 40, 0, 0, 0, 0, 64, 6, 0, 0, 10, 10, 10, 1, 10, 0, 0, 9,
     156, 64, 1, 187, 0, 0, 0, 0]"

definition demo_answer :: "u8 list" where
  "demo_answer = [69, 0, 0, 40, 0, 0, 0, 0, 64, 6, 0, 0, 10, 0, 0, 9, 10, 10, 10, 1,
     1, 187, 156, 64, 0, 0, 0, 0]"

end
