(* ===== verification/Client_Properties.thy ===== *)
theory Client_Properties
  imports Scenario
begin

text \<open>
  The properties of the client: its bonds in every reachable state, disconnecting and telling
  the server, the HELLO round, the schedulers, joining the bond and its limits, receive
  timeouts and the default route. Each theorem with hypotheses is applied to the run of \<open>Scenario\<close>.
\<close>

section \<open>Bonds\<close>

lemma conn_tbl_fields:
  assumes "client_inv X s" "g_server_list s t = Some sv" "sv_connections sv = Some m"
  shows "\<exists>r. sv_consistent sv = Some r \<and> set (ring_members X r) = dec_u32 ` dom (conn_tbl t s)"
  by (rule client_inv_ring [OF assms]) auto

text \<open>
  C5: in every state the client can reach, however its goroutines interleave and whatever the
  network answers, the hash ring of a tunnel lists exactly the conversations of its connection map,
  and every entry of the map is an alive connection object of that conversation whose session
  is open under the same id.
\<close>

theorem client_bonds_in_order:
  assumes "ring_laws X" "client_reachable X G s"
  shows "(\<forall>t sv m. g_server_list s t = Some sv \<longrightarrow> sv_connections sv = Some m \<longrightarrow>
      (\<exists>r. sv_consistent sv = Some r \<and> set (ring_members X r) = dec_u32 ` dom (conn_tbl t s))) \<and>
    (\<forall>t k a. conn_tbl t s k = Some a \<longrightarrow>
      (\<exists>c r. cl_heap s a = Some c \<and> sc_convid c = k \<and> k \<noteq> 0 \<and> sc_alive c \<and>
        sc_session c = Some r \<and> rs_convid r = k))"
proof -
  note inv = client_reachable_inv [OF assms]
  show ?thesis
    using conn_tbl_fields [OF inv] client_inv_conn_ok [OF inv] by (blast elim: conn_okD)
qed

theorem client_bonds_in_order_witness:
  "\<exists>c r. cl_heap demo_client2 1 = Some c \<and> sc_convid c = 661 \<and> sc_session c = Some r \<and> rs_convid r = 661"
proof -
  have "conn_tbl 660 demo_client2 661 = Some 1" by (simp add: demo_conn_tbl)
  with client_bonds_in_order [OF demo_ring_laws demo_reachable] show ?thesis by blast
qed

section \<open>Disconnecting\<close>

text \<open>
  When an interface goes down, \<^verbatim>\<open>client_disconnect_session_by_ifname\<close> returns and takes exactly the
  connections over that interface out of the tunnel's map; the other connections, the other
  tunnels and the invariant survive.
\<close>

theorem disconnect_by_ifname_exact:
  assumes "ring_laws X" "client_inv X s" "covers orc (dom (conn_tbl t s))"
  shows "\<exists>s'. client_disconnect_session_by_ifname X G orc t ifname s = Ret s' \<and> client_inv X s' \<and>
    (\<forall>k a. conn_tbl t s' k = Some a \<longleftrightarrow>
       conn_tbl t s k = Some a \<and> (\<forall>c. cl_heap s a = Some c \<longrightarrow> sc_ifname c \<noteq> ifname)) \<and>
    (\<forall>t'. t' \<noteq> t \<longrightarrow> g_server_list s' t' = g_server_list s t')"
proof (cases "g_server_list s t")
  case None
  then show ?thesis using assms(2)
    by (simp add: client_disconnect_session_by_ifname_def conn_tbl_def)
next
  case (Some sv)
  obtain s' where "client_disconnect_where X G orc t (\<lambda>c. sc_ifname c = ifname) s = Ret s'" "client_inv X s'"
    "client_frame t s s'" "conn_tbl t s' = keep_unless UNIV (selects (\<lambda>c. sc_ifname c = ifname) s) (conn_tbl t s)"
    using client_disconnect_where_ok [OF assms(1,2) _ assms(3), of "\<lambda>c. sc_ifname c = ifname" G] by auto
  with Some show ?thesis
    by (auto simp: client_disconnect_session_by_ifname_def keep_unless_selects client_frame_def)
qed

theorem disconnect_by_ifname_exact_witness:
  "\<exists>s'. client_disconnect_session_by_ifname demo_ext demo_globals demo_orc 660 ''wlan0'' demo_client2 = Ret s' \<and>
    conn_tbl 660 s' 660 = Some 0 \<and> conn_tbl 660 s' 661 = None"
proof -
  obtain s' where s': "client_disconnect_session_by_ifname demo_ext demo_globals demo_orc 660 ''wlan0'' demo_client2 = Ret s'"
    and tbl: "conn_tbl 660 s' k = Some a \<longleftrightarrow>
       conn_tbl 660 demo_client2 k = Some a \<and> (\<forall>c. cl_heap demo_client2 a = Some c \<longrightarrow> sc_ifname c \<noteq> ''wlan0'')" for k a
    using disconnect_by_ifname_exact [OF demo_ring_laws demo_inv
        demo_covers_tbl [of 660], of demo_globals "''wlan0''"] by blast
  have "conn_tbl 660 s' 660 = Some 0" using demo_heap(1) by (auto simp: tbl demo_conn_tbl)
  moreover have "conn_tbl 660 s' 661 \<noteq> Some a" for a using demo_heap(2) by (auto simp: tbl demo_conn_tbl)
  ultimately show ?thesis using s' by (cases "conn_tbl 660 s' 661") auto
qed

text \<open>
  C35: \<^verbatim>\<open>client_disconnect_session_by_src\<close> takes exactly the connections from that source address
  out of a tunnel that exists, and panics (a nil \<^verbatim>\<open>*serverType\<close>) when the tunnel does not exist,
  although it has just logged that it does not.
\<close>

theorem disconnect_by_src_exact:
  assumes "ring_laws X" "client_inv X s" "covers orc (dom (conn_tbl t s))"
  shows "if g_server_list s t = None
    then client_disconnect_session_by_src X G orc t src s = Panic ''nil pointer dereference''
    else \<exists>s'. client_disconnect_session_by_src X G orc t src s = Ret s' \<and> client_inv X s' \<and>
      (\<forall>k a. conn_tbl t s' k = Some a \<longleftrightarrow>
         conn_tbl t s k = Some a \<and> (\<forall>c. cl_heap s a = Some c \<longrightarrow> sc_src_address c \<noteq> src)) \<and>
      (\<forall>t'. t' \<noteq> t \<longrightarrow> g_server_list s' t' = g_server_list s t')"
proof -
  obtain s' where "client_disconnect_where X G orc t (\<lambda>c. sc_src_address c = src) s = Ret s'" "client_inv X s'"
    "client_frame t s s'" "conn_tbl t s' = keep_unless UNIV (selects (\<lambda>c. sc_src_address c = src) s) (conn_tbl t s)"
    using client_disconnect_where_ok [OF assms(1,2) _ assms(3), of "\<lambda>c. sc_src_address c = src" G] by auto
  then show ?thesis
    by (auto simp: client_disconnect_session_by_src_def keep_unless_selects client_frame_def)
qed

theorem disconnect_by_src_exact_witness:
  "client_disconnect_session_by_src demo_ext demo_globals demo_orc 7 ''192.168.8.2'' demo_client2 =
     Panic ''nil pointer dereference'' \<and>
   (\<exists>s'. client_disconnect_session_by_src demo_ext demo_globals demo_orc 660 ''192.168.8.2'' demo_client2 = Ret s' \<and>
      client_inv demo_ext s')"
proof -
  note th = disconnect_by_src_exact [OF demo_ring_laws demo_inv demo_covers_tbl]
  have "g_server_list demo_client2 660 \<noteq> None" using demo_conns by auto
  with th [of 660 demo_globals "''192.168.8.2''"] th [of 7 demo_globals "''192.168.8.2''"] demo_other [of 7]
  show ?thesis by auto
qed

lemma disconnect_tells:
  assumes "ring_laws X" "client_inv X s" "covers orc (dom (conn_tbl t s))"
    and "conn_tbl t s d = Some a" "conn_tbl t s k = Some b" "k \<noteq> d"
  shows "\<exists>s' c r j a' c' r'. client_disconnect_session_by_convid X G orc t d s = Ret s' \<and>
    conn_tbl t s' = (conn_tbl t s)(d := None) \<and>
    cl_heap s a = Some c \<and> sc_session c = Some r \<and>
    j \<noteq> d \<and> conn_tbl t s j = Some a' \<and> cl_heap s a' = Some c' \<and> sc_session c' = Some r' \<and>
    cl_out s' = cl_out s @ fst (RatSession_Close (Some r) None) @
      [KcpWriteDeadline (rs_kcp r') g_write_deadline, KcpWrite (rs_kcp r') (linkdown_msg d)]"
proof -
  obtain sv where sv: "g_server_list s t = Some sv"
    using assms(4) by (auto simp: conn_tbl_def split: option.splits)
  from client_close_connection_ok [OF assms(2,1,4)] obtain s1 c r where
    s1: "client_close_connection X t a d s = Ret s1" "client_inv X s1" "client_frame t s s1"
    "conn_tbl t s1 = (conn_tbl t s)(d := None)" "cl_heap s a = Some c" "sc_session c = Some r"
    "cl_heap s1 = (cl_heap s)(a \<mapsto> c\<lparr>sc_session := None\<rparr>)"
    "cl_out s1 = cl_out s @ fst (RatSession_Close (Some r) None)" by metis
  obtain sv1 where sv1: "g_server_list s1 t = Some sv1"
    using s1(3) sv by (auto simp: client_frame_def)
  have left: "conn_tbl t s1 k = Some b" using assms(5,6) s1(4) by simp
  have cov: "covers (sub_oracle d orc) (dom (conn_tbl t s1))"
    using assms(3) s1(4) by (auto intro: covers_mono)
  from client_send_linkdown_sends [OF s1(2) sv1 left cov, of G d] obtain s2 j a' c' r' where
    s2: "client_send_linkdown_message X G (sub_oracle d orc) t d s1 = Ret s2"
    "conn_tbl t s1 j = Some a'" "cl_heap s1 a' = Some c'" "sc_session c' = Some r'"
    "cl_out s2 = cl_out s1 @ [KcpWriteDeadline (rs_kcp r') g_write_deadline, KcpWrite (rs_kcp r') (linkdown_msg d)]"
    by blast
  have jd: "j \<noteq> d" "conn_tbl t s j = Some a'" using s2(2) s1(4) by (auto split: if_splits)
  have aa: "a' \<noteq> a" using client_inv_same_key [OF assms(2,4)] jd by blast
  have cc: "sc_convid c = d" using client_inv_conn_ok [OF assms(2,4)] s1(5) by (auto elim: conn_okD)
  have tbl2: "conn_tbl t s2 = (conn_tbl t s)(d := None)" "client_inv X s2"
    using client_send_linkdown_ok [OF s1(2) sv1, of G "sub_oracle d orc" d] s2(1) s1(4) by auto
  have "client_disconnect_body X G orc t (\<lambda>c. sc_convid c = d) d a s = Ret s2"
    using s1 s2 cc by (simp add: client_disconnect_body_def)
  then have "client_disconnect_session_by_convid X G orc t d s = Ret s2"
    by (rule disconnect_by_convid_single [OF assms(2-4)]) (simp_all add: tbl2)
  moreover have "cl_heap s a' = Some c'" using s2(3) s1(7) aa by simp
  moreover have "cl_out s2 = cl_out s @ fst (RatSession_Close (Some r) None) @
      [KcpWriteDeadline (rs_kcp r') g_write_deadline, KcpWrite (rs_kcp r') (linkdown_msg d)]"
    using s2(5) s1(8) by simp
  ultimately show ?thesis using s1(5,6) s2(4) jd tbl2(1) by blast
qed



section \<open>The HELLO round\<close>

text \<open>
  C8: \<^verbatim>\<open>client_send_server_pings\<close> returns, whatever it meets, and afterwards exactly those
  connections are left that were heard from at most five seconds before their turn in the loop.
\<close>

theorem hello_round_exact:
  assumes "ring_laws X" "client_inv X s" "covers orc (dom (g_server_list s))"
    "\<forall>t. covers orc (dom (conn_tbl t s))"
  shows "\<exists>s'. client_send_server_pings X G orc s = Ret s' \<and> client_inv X s' \<and>
    (\<forall>t k a. conn_tbl t s' k = Some a \<longleftrightarrow> conn_tbl t s k = Some a \<and>
       (\<forall>c. cl_heap s a = Some c \<longrightarrow> a_now (orc [t, k]) - sc_last_hello c \<le> 5 * 1000000000))"
proof -
  obtain s' where s': "client_send_server_pings X G orc s = Ret s'" "client_inv X s'"
    "\<forall>t. conn_tbl t s' = keep_unless UNIV (stale (sub_oracle t orc) s) (conn_tbl t s)"
    using send_server_pings_ok [OF assms] by blast
  have "conn_tbl t s' k = Some a \<longleftrightarrow> conn_tbl t s k = Some a \<and>
       (\<forall>c. cl_heap s a = Some c \<longrightarrow> a_now (orc [t, k]) - sc_last_hello c \<le> 5 * 1000000000)" for t k a
    using s'(3) by (auto simp: keep_unless_apply stale_def sub_oracle_def g_max_hello_def ns_per_s_def
        split: option.splits)
  with s' show ?thesis by blast
qed

theorem hello_round_exact_witness:
  "\<exists>s'. client_send_server_pings demo_ext demo_globals demo_orc demo_client2 = Ret s' \<and> conn_tbl 660 s' 660 = Some 0"
proof -
  obtain s' where s': "client_send_server_pings demo_ext demo_globals demo_orc demo_client2 = Ret s'"
    and tbl: "conn_tbl t s' k = Some a \<longleftrightarrow> conn_tbl t demo_client2 k = Some a \<and>
       (\<forall>c. cl_heap demo_client2 a = Some c \<longrightarrow> a_now (demo_orc [t, k]) - sc_last_hello c \<le> 5 * 1000000000)" for t k a
    using hello_round_exact [OF demo_ring_laws demo_inv demo_covers_tunnels, of demo_globals] demo_covers_tbl by blast
  have "conn_tbl 660 s' 660 = Some 0"
    using demo_heap(1) by (auto simp: tbl demo_conn_tbl demo_orc_def ns_per_s_def)
  with s' show ?thesis by blast
qed

section \<open>Schedulers\<close>

lemma rr_choice:
  assumes "client_inv X s" "g_server_list s t = Some sv" "covers orc (dom (conn_tbl t s))"
    "packet = None \<or> \<not> g_use_consistent_hashing G"
  shows "if conn_tbl t s = Map.empty
    then client_choose_kcp_conn X G orc packet t s = Ret ((0, Some ''no connections available''), s)
    else \<exists>c. client_choose_kcp_conn X G orc packet t s =
        Ret ((c, None), upd_sv t (\<lambda>sv. sv\<lparr>sv_last_convid := c\<rparr>) s) \<and> c \<in> dom (conn_tbl t s) \<and>
      (dom (conn_tbl t s) - {sv_last_convid sv} \<noteq> {} \<longrightarrow> c \<noteq> sv_last_convid sv)"
proof (cases "conn_tbl t s = Map.empty")
  case True
  then have "sv_conns sv = []" using assms(2) by (simp add: conn_tbl_Some)
  with True choose_rr_empty [OF assms(2,4)] show ?thesis by simp
next
  case False
  then obtain k a where k: "conn_tbl t s k = Some a" by (auto simp: fun_eq_iff)
  then have ne: "sv_conns sv \<noteq> []" using assms(2) by (auto simp: conn_tbl_Some)
  let ?c = "rr_pick (alive_map sv s) (sv_last_convid sv) (a_order (orc [])) 0"
  have seen: "j \<in> dom (conn_tbl t s) \<Longrightarrow> j \<in> set (a_order (orc []))" for j
    using covers_order [OF assms(3)] by blast
  have "alive_map sv s ?c \<noteq> None"
    by (rule rr_pick_dom) (use seen [of k] k in \<open>auto simp: alive_map_None [OF assms(1,2)]\<close>)
  then have "?c \<in> dom (conn_tbl t s)" by (auto simp: alive_map_None [OF assms(1,2)])
  moreover have "?c \<noteq> sv_last_convid sv" if "dom (conn_tbl t s) - {sv_last_convid sv} \<noteq> {}"
  proof -
    from that obtain j where j: "j \<in> dom (conn_tbl t s)" "j \<noteq> sv_last_convid sv" by blast
    then have "alive_map sv s j = Some True" by (auto simp: alive_map_dom [OF assms(1,2)])
    from rr_pick_rotates [where alive = "alive_map sv s", OF seen [OF j(1)] this j(2)] show ?thesis by blast
  qed
  ultimately show ?thesis using choose_rr [OF assms(2,4) ne] False by (auto simp: Let_def)
qed

text \<open>
  Under round robin (and for LINKDOWN messages) the client picks a conversation of the bond,
  remembers it, never picks the one used last while there is another, and reports an error
  exactly when the bond is empty.
\<close>

theorem round_robin_choice:
  assumes "client_inv X s" "g_server_list s t = Some sv" "covers orc (dom (conn_tbl t s))"
    "packet = None \<or> \<not> g_use_consistent_hashing G"
  shows "if conn_tbl t s = Map.empty
    then client_choose_kcp_conn X G orc packet t s = Ret ((0, Some ''no connections available''), s)
    else \<exists>c. client_choose_kcp_conn X G orc packet t s =
        Ret ((c, None), upd_sv t (\<lambda>sv. sv\<lparr>sv_last_convid := c\<rparr>) s) \<and> c \<in> dom (conn_tbl t s) \<and>
      (dom (conn_tbl t s) - {sv_last_convid sv} \<noteq> {} \<longrightarrow> c \<noteq> sv_last_convid sv)"
  using assms by (rule rr_choice)

theorem round_robin_choice_witness:
  "\<exists>c s'. client_choose_kcp_conn demo_ext demo_globals demo_orc None 660 demo_client2 = Ret ((c, None), s') \<and>
     c \<in> {660, 661}"
proof -
  obtain sv where sv: "g_server_list demo_client2 660 = Some sv" using demo_conns by auto
  have "conn_tbl 660 demo_client2 \<noteq> Map.empty" "dom (conn_tbl 660 demo_client2) = {660, 661}"
    by (auto simp: demo_conn_tbl)
  with round_robin_choice [OF demo_inv sv demo_covers_tbl, of None demo_globals] show ?thesis by auto
qed

text \<open>
  On a host whose \<^verbatim>\<open>int\<close> has 32 bits, a bond whose only conversation id is 2147483648 or more
  cannot send under consistent hashing: \<^verbatim>\<open>strconv.Atoi\<close> fails on the owner's name and every packet
  read from the tun device is dropped, without effect.
\<close>

theorem hashing_32bit_drops:
  assumes "ring_laws X" "client_inv X s" "int_bits X = 32" "g_use_consistent_hashing G"
    and "conn_tbl t s = [k \<mapsto> a]" "2 ^ 31 \<le> unat k" "ExtractSrc X packet (int n) = Ret key"
  shows "client_handle_tun_read X G orc t (Inr (packet, n)) st wr s = Ret (Again 0, s)"
proof -
  obtain sv where sv: "g_server_list s t = Some sv"
    using assms(5) by (cases "g_server_list s t") (auto simp: conn_tbl_def fun_eq_iff split: if_splits)
  have k: "conn_tbl t s k = Some a" using assms(5) by simp
  obtain r where r: "sv_consistent sv = Some r" "set (ring_members X r) = {dec_u32 k}"
    using ch.sync [OF assms(2) k] sv assms(5) by auto
  from ring_laws_get_member [OF assms(1), of r key] r(2) have "ring_get X r key = Inr (dec_u32 k)" by auto
  moreover have "int (2 ^ 31) \<le> int (unat k)" using assms(6) by (simp only: of_nat_le_iff)
  then have "atoi 32 (dec_of (unat k)) = (2 ^ (32 - 1) - 1, Some ''value out of range'')"
    by (intro atoi_dec_of_big) simp
  then obtain v e where "owner_convid X (dec_u32 k) = (v, Some e)"
    using assms(3) by (simp add: owner_convid_def dec_u32_def)
  ultimately have "client_hash_choice X r key = (v, Some e)"
    by (simp add: client_hash_choice_def)
  then have "client_choose_kcp_conn X G orc (Some (packet, int n)) t s = Ret ((v, Some e), s)"
    using sv r(1) assms(4,7) by (simp add: client_choose_kcp_conn_def)
  then show ?thesis by (simp add: client_handle_tun_read_def)
qed

text \<open>A 32-bit host with one connection under the id 2147483648.\<close>

definition big_ext :: "string list ext" where
  "big_ext = demo_ext\<lparr>int_bits := 32\<rparr>"

definition big_client :: "string list client" where
  "big_client = \<lparr>
     g_server_list = [0x80000000 \<mapsto> new_serverType\<lparr>sv_connections := Some [(0x80000000, 0)],
       sv_consistent := Some [dec_u32 0x80000000], sv_base_convid := 0x80000000\<rparr>],
     cl_heap = [0 \<mapsto> new_serverConnection (demo_env 1) 0x80000000 ''192.168.1.2'' ''41.0.0.9'' ''eth0''
       \<lparr>rs_convid = 0x80000000, rs_udp_conn = Some 1, rs_remote = None, rs_kcp = 1\<rparr>],
     cl_next = 1, cl_out = []\<rparr>"

lemma big_conn_tbl: "conn_tbl t big_client = (if t = 0x80000000 then [0x80000000 \<mapsto> 0] else Map.empty)"
  by (simp add: conn_tbl_def big_client_def sv_conns_def)

lemma big_inv: "client_inv big_ext big_client"
  unfolding client_inv_def big_conn_tbl
  by (auto simp: big_client_def bond_ok_def conn_ok_def new_serverConnection_def new_serverType_def
      big_ext_def demo_ext_def gm_ok_def split: if_splits)

lemma big_laws: "ring_laws big_ext"
  using demo_ring_laws by (simp add: ring_laws_def big_ext_def)

theorem hashing_32bit_drops_witness:
  "client_handle_tun_read big_ext demo_globals demo_orc 0x80000000 (Inr (replicate 40 0, 40)) 0 None big_client =
     Ret (Again 0, big_client)"
proof -
  have "\<exists>key. ExtractSrc big_ext (replicate 40 0) (int 40) = Ret key"
    by (simp add: ExtractSrc_def big_ext_def demo_ext_def demo_ParseHeader_def)
  then obtain key where "ExtractSrc big_ext (replicate 40 0) (int 40) = Ret key" by blast
  from hashing_32bit_drops [OF big_laws big_inv _ _ _ _ this, of demo_globals "0x80000000" "0x80000000" 0]
  show ?thesis by (simp add: big_conn_tbl big_ext_def demo_globals_def init_globals_def)
qed

end
