(* ===== verification/Client_Joins.thy ===== *)
theory Client_Joins
  imports Client_Properties
begin

text \<open>
  The properties of joining the bond (which conversation id, how many connections, what two
  joins do to each other), of the receive timeouts and of the default route.
\<close>

lemma race_is_Ret: "is_Ret x \<longleftrightarrow> (\<exists>y. x = Ret y)"
  by (cases x) simp_all


primrec is_prepared :: "('a + 'b) outcome \<Rightarrow> bool" where
  "is_prepared (Ret x) = (case x of Inl _ \<Rightarrow> False | Inr _ \<Rightarrow> True)"
| "is_prepared (Panic m) = False"
| "is_prepared (Exit n) = False"
| "is_prepared Diverge = False"

lemma is_preparedE:
  assumes "is_prepared x"
  obtains s k b w where "x = Ret (Inr (s, k, b, w))"
  using assms by (cases x) (auto split: sum.splits)

definition race :: "string list client outcome" where
  "race =
     obind (client_connect_prepare demo_ext demo_globals (demo_env 1) 660 ''192.168.1.2'' ''eth0'' init_client) (\<lambda>x.
       case x of Inl _ \<Rightarrow> Panic '''' | Inr (s1, k1, b1, w1) \<Rightarrow>
         obind (client_connect_prepare demo_ext demo_globals (demo_env 2) 660 ''192.168.8.2'' ''wlan0'' s1) (\<lambda>y.
           case y of Inl _ \<Rightarrow> Panic '''' | Inr (s2, k2, b2, w2) \<Rightarrow>
             obind (client_connect_commit demo_ext demo_globals (demo_env 1) 660 ''192.168.1.2'' ''eth0'' k1 b1 w1 s2)
               (client_connect_commit demo_ext demo_globals (demo_env 2) 660 ''192.168.8.2'' ''wlan0'' k2 b2 w2)))"

section \<open>Joining the bond\<close>

text \<open>What the first half of a join has done and found when it goes on to the second half.\<close>

lemma ensure_tun_tbl:
  assumes "g_server_list s t = Some sv" "client_ensure_tun X G E t sv s = Ret (s', b)"
  shows "\<exists>sv'. g_server_list s' t = Some sv' \<and> sv_conns sv' = sv_conns sv \<and> cl_heap s' = cl_heap s \<and> cl_next s' = cl_next s"
  using assms
  by (auto simp: client_ensure_tun_def sv_conns_def outcome_simps Let_def split: if_splits prod.splits)

lemma sv_conns_ensure_map: "sv_conns (client_ensure_map X sv) = sv_conns sv"
  by (simp add: client_ensure_map_def sv_conns_def)

lemma connect_prepare_facts:
  assumes "client_connect_prepare X G E t src ifname s = Ret (Inr (s', k, b, w))"
  shows "find_avail (\<lambda>j. conn_tbl t s j \<noteq> None) (t + 10) t = Some k"
    and "conn_tbl t s' = conn_tbl t s" "cl_heap s' = cl_heap s" "cl_next s' = cl_next s"
    and "\<exists>sv'. g_server_list s' t = Some sv' \<and>
      sv_conns sv' = (case g_server_list s t of None \<Rightarrow> [] | Some sv \<Rightarrow> sv_conns sv) \<and>
      int (client_num_connections_by_src src sv' s') < g_mux_max G"
proof -
  define sv where "sv = (case g_server_list s t of None \<Rightarrow> new_serverType | Some sv \<Rightarrow> sv)"
  define s0 where "s0 = s\<lparr>g_server_list := (g_server_list s)(t \<mapsto> sv)\<rparr>"
  have sv0: "g_server_list s0 t = Some sv" by (simp add: s0_def)
  have tbl: "conn_tbl t s = map_of (sv_conns sv)" by (simp add: sv_def conn_tbl_default)
  obtain s1 where s1: "client_ensure_tun X G E t sv s0 = Ret (s1, b)" and s': "s' = upd_sv t (client_ensure_map X) s1"
    and f: "find_avail (\<lambda>j. conn_tbl t s' j \<noteq> None) (t + 10) t = Some k"
    and m: "int (client_num_connections_by_src src sv s) < g_mux_max G"
    using assms unfolding client_connect_prepare_def Let_def sv_def [symmetric] s0_def [symmetric]
    by (auto simp: outcome_simps split: if_splits option.splits)
  obtain sv1 where sv1: "g_server_list s1 t = Some sv1" "sv_conns sv1 = sv_conns sv" "cl_heap s1 = cl_heap s0"
    "cl_next s1 = cl_next s0" using ensure_tun_tbl [OF sv0 s1] by blast
  show t': "conn_tbl t s' = conn_tbl t s"
    using sv1 tbl by (simp add: s' conn_tbl_def sv_conns_ensure_map)
  show heap: "cl_heap s' = cl_heap s" and "cl_next s' = cl_next s" using sv1 by (simp_all add: s' s0_def)
  show "find_avail (\<lambda>j. conn_tbl t s j \<noteq> None) (t + 10) t = Some k" using f by (simp add: t')
  have "sv_conns sv = (case g_server_list s t of None \<Rightarrow> [] | Some sv \<Rightarrow> sv_conns sv)"
    by (simp add: sv_def split: option.splits)
  with sv1 m heap show "\<exists>sv'. g_server_list s' t = Some sv' \<and>
      sv_conns sv' = (case g_server_list s t of None \<Rightarrow> [] | Some sv \<Rightarrow> sv_conns sv) \<and>
      int (client_num_connections_by_src src sv' s') < g_mux_max G"
    by (simp add: s' sv_conns_ensure_map client_num_connections_by_src_def)
qed

text \<open>
  C21: a join that goes on takes the lowest free conversation id at or above the tunnel id; the
  search ends at the twelfth, \<^verbatim>\<open>tunnelid+11\<close>, whether or not that one is free, and changes no table.
\<close>

theorem connect_takes_lowest_id:
  assumes "client_connect_prepare X G E t src ifname s = Ret (Inr (s', k, b, w))" "unat t + 11 < 2 ^ 32"
  shows "t \<le> k \<and> unat k \<le> unat t + 11 \<and> (\<forall>j. t \<le> j \<and> j < k \<longrightarrow> conn_tbl t s j \<noteq> None) \<and>
    (unat k \<le> unat t + 10 \<longrightarrow> conn_tbl t s k = None) \<and> conn_tbl t s' = conn_tbl t s"
  using lowest_free_id [OF connect_prepare_facts(1) [OF assms(1)] assms(2)] connect_prepare_facts(2) [OF assms(1)]
  by auto

theorem connect_takes_lowest_id_witness:
  "\<exists>s' k b w. client_connect_prepare demo_ext demo_globals (demo_env 2) 660 ''192.168.8.2'' ''wlan0'' demo_client1 =
     Ret (Inr (s', k, b, w)) \<and> unat k \<le> 671 \<and> conn_tbl 660 s' = conn_tbl 660 demo_client1"
proof -
  let ?p = "client_connect_prepare demo_ext demo_globals (demo_env 2) 660 ''192.168.8.2'' ''wlan0'' demo_client1"
  have "is_prepared ?p" by code_simp
  then obtain s' k b w where p: "?p = Ret (Inr (s', k, b, w))" by (rule is_preparedE)
  from connect_takes_lowest_id [OF p] p show ?thesis by simp
qed

text \<open>
  The search always ends: with a tunnel id below 4294967285 the loop of
  \<^verbatim>\<open>client_connect_server\<close> over the ids returns, for every connection map.
\<close>

theorem id_search_terminates:
  assumes "unat t + 11 < 2 ^ 32"
  shows "\<exists>k. find_avail used (t + 10) t = Some k \<and> k \<noteq> t + 100"
proof -
  have lim: "unat (t + 10) = unat t + 10" by (rule unat_plus_10 [OF assms])
  obtain k where k: "find_avail used (t + 10) t = Some k" "t \<le> k" "unat k \<le> unat t + 11"
    using find_avail_range [of "t + 10" t used] lim assms by auto
  have "k \<noteq> t + 100"
  proof
    assume "k = t + 100"
    then have "unat (k - t) = 100" by simp
    moreover have "unat (k - t) = unat k - unat t" using k(2) by (rule unat_sub)
    ultimately show False using k(3) by simp
  qed
  with k show ?thesis by blast
qed

theorem id_search_terminates_witness: "\<exists>k. find_avail (\<lambda>j. j \<le> 663) (660 + 10) 660 = Some k \<and> k \<noteq> 760"
  using id_search_terminates [of 660 "\<lambda>j. j \<le> 663"] by simp

lemma connect_refused:
  assumes "client_connect_prepare X G E t src ifname s = Ret (Inl s')"
    and "g_server_list s t = Some sv" "g_server_list s' t = Some sv'"
  shows "client_num_connections_by_src src sv' s' = client_num_connections_by_src src sv s"
proof -
  have *: "sv_conns sv' = sv_conns sv \<and> cl_heap s' = cl_heap s"
    if "client_ensure_tun X G E t sv s = Ret (s1, b)" "s' = upd_sv t (client_ensure_map X) s1" for s1 b
    using ensure_tun_tbl [OF assms(2) that(1)] that(2) assms(3) by (auto simp: sv_conns_ensure_map)
  have "s\<lparr>g_server_list := (g_server_list s)(t \<mapsto> sv)\<rparr> = s" using assms(2) by (simp add: fun_upd_idem)
  then have "sv_conns sv' = sv_conns sv \<and> cl_heap s' = cl_heap s"
    using assms unfolding client_connect_prepare_def Let_def
    by (auto simp: outcome_simps split: if_splits option.splits dest!: *)
  then show ?thesis by (simp add: client_num_connections_by_src_def)
qed

lemma commit_num_conns:
  assumes inv: "client_inv X s" and ret: "client_connect_commit X G E t src ifname k b w s = Ret s'"
    and sv: "g_server_list s t = Some sv" and sv': "g_server_list s' t = Some sv'"
  shows "client_num_connections_by_src src sv' s' \<le> Suc (client_num_connections_by_src src sv s)"
proof -
  let ?P = "\<lambda>u. \<lambda>(j, a). map_option sc_src_address (cl_heap u a) = Some src"
  obtain m r where m: "sv_connections sv = Some m" "sv_conns sv' = gm_put k (cl_next s) m"
    "cl_heap s' = (cl_heap s)(cl_next s \<mapsto> new_serverConnection E k src w ifname r)"
    by (rule connect_commit_eq [OF ret]) (use sv sv' in \<open>auto simp: sv_conns_def\<close>)
  have ok: "gm_ok m" using client_inv_bond_ok [OF inv sv] m(1) by (simp add: bond_ok_def)
  have fresh: "a < cl_next s" if "(j, a) \<in> set m" for j a
  proof -
    have "conn_tbl t s j = Some a" using that ok m(1) sv by (simp add: conn_tbl_Some sv_conns_def gm_ok_def)
    from client_inv_conn_ok [OF inv this] show ?thesis by (simp add: conn_ok_def)
  qed
  have "filter (?P s') (gm_del k m) = filter (?P s) (gm_del k m)"
    using fresh m(3) by (intro filter_cong) (auto simp: gm_del_def)
  moreover have "length (filter (?P s) (gm_del k m)) \<le> length (filter (?P s) m)"
    unfolding gm_del_def filter_filter by (induction m) auto
  ultimately show ?thesis
    using m by (auto simp: client_num_connections_by_src_def sv_conns_def gm_put_def gm_del_def)
qed




text \<open>A client whose tunnel 1 has all its twelve ids in use.\<close>

definition full_conns :: "(u32 \<times> addr) list" where
  "full_conns = [(1, 1), (2, 2), (3, 3), (4, 4), (5, 5), (6, 6), (7, 7), (8, 8), (9, 9), (10, 10), (11, 11), (12, 12)]"

definition full_client :: "string list client" where
  "full_client = \<lparr>
     g_server_list = [1 \<mapsto> new_serverType\<lparr>sv_connections := Some full_conns,
       sv_consistent := Some (map (dec_u32 \<circ> fst) full_conns), sv_iface := Some ''tun1'', sv_base_convid := 1\<rparr>],
     cl_heap = (\<lambda>a. if a < 13 then Some (new_serverConnection (demo_env 1) (of_nat a) (dec_of a) '''' ''eth0''
       \<lparr>rs_convid = of_nat a, rs_udp_conn = Some a, rs_remote = None, rs_kcp = a\<rparr>) else None),
     cl_next = 13, cl_out = []\<rparr>"

lemma full_conn_tbl: "conn_tbl t full_client = (if t = 1 then map_of full_conns else Map.empty)"
  by (simp add: conn_tbl_def full_client_def sv_conns_def)

lemma full_inv: "client_inv demo_ext full_client"
proof -
  have ok: "conn_ok full_client k a" if "map_of full_conns k = Some a" for k a
    using that by (auto simp: full_conns_def full_client_def conn_ok_def new_serverConnection_def split: if_splits)
  have "gm_ok full_conns" by (simp add: full_conns_def gm_ok_def)
  then have "bond_ok demo_ext t sv" if "g_server_list full_client t = Some sv" for t sv
    using that by (auto simp: full_client_def bond_ok_def new_serverType_def demo_ext_def
        dom_map_of_conv_image_fst image_image split: if_splits)
  moreover have "cl_heap full_client a = None" if "cl_next full_client \<le> a" for a
    using that by (simp add: full_client_def)
  ultimately show ?thesis
    using ok by (auto simp: client_inv_def full_conn_tbl split: if_splits)
qed

lemma full_all: "1 \<le> j \<and> j \<le> 12 \<Longrightarrow> map_of full_conns (j :: u32) \<noteq> None"
proof -
  assume "1 \<le> j \<and> j \<le> 12"
  then have "1 \<le> unat j \<and> unat j \<le> 12" by (simp add: word_le_nat_alt)
  then have "unat j = 1 \<or> unat j = 2 \<or> unat j = 3 \<or> unat j = 4 \<or> unat j = 5 \<or> unat j = 6 \<or> unat j = 7 \<or>
      unat j = 8 \<or> unat j = 9 \<or> unat j = 10 \<or> unat j = 11 \<or> unat j = 12"
    by presburger
  then have "j \<in> {1, 2, 3, 4, 5, 6, 7, 8, 9, 10, 11, 12}"
    by (elim disjE) (simp_all add: word_unat_eq_iff)
  then show ?thesis by (auto simp: full_conns_def)
qed




section \<open>Receive timeouts\<close>

text \<open>
  A read timeout takes the connection out exactly when its lifetime count of timeouts passes
  twenty: the reader's own counter, which messages reset, is never above the lifetime count, so
  it decides nothing.
\<close>

theorem rx_timeout_decides:
  assumes "cl_heap s a = Some c" "g_server_list s t = Some sv"
    and "unat (sc_rxtimeouts c) + 1 < 2 ^ 64" "n \<le> unat (sc_rxtimeouts c)"
  shows "client_handle_kcp_read X G orc t a (Inl ''timeout'') now1 now2 n s =
    (let s1 = upd_conn a (\<lambda>c. c\<lparr>sc_rxtimeouts := sc_rxtimeouts c + 1\<rparr>) s
     in if 20 \<le> unat (sc_rxtimeouts c)
        then obind (client_disconnect_session_by_convid X G orc (sv_base_convid sv) (sc_convid c) s1)
               (\<lambda>s'. Ret (Done, s'))
        else Ret (Again (Suc n), s1))"
proof -
  have "unat (sc_rxtimeouts c + 1) = unat (sc_rxtimeouts c) + 1"
    using assms(3) by (simp add: unat_word_ariths)
  then show ?thesis
    using assms by (simp add: client_handle_kcp_read_def g_client_max_rxtimeouts_def Let_def)
qed

theorem rx_timeout_decides_witness:
  "\<exists>s1. client_handle_kcp_read demo_ext demo_globals demo_orc 660 1 (Inl ''timeout'') 0 0 0 demo_client2 = Ret (Again 1, s1)"
proof -
  have "map_option sc_rxtimeouts (cl_heap demo_client2 1) = Some 0" by code_simp
  then obtain c where c: "cl_heap demo_client2 1 = Some c" "sc_rxtimeouts c = 0" by auto
  obtain sv where "g_server_list demo_client2 660 = Some sv" using demo_conns by auto
  from rx_timeout_decides [OF c(1) this, of 0 demo_ext demo_globals demo_orc 0 0] c(2)
  show ?thesis by (simp add: Let_def)
qed

section \<open>The default route\<close>

text \<open>Whether the host has a default route through the tunnel, after the given commands.\<close>

fun route_replay :: "string \<Rightarrow> effect list \<Rightarrow> bool \<Rightarrow> bool" where
  "route_replay gw [] on = on"
| "route_replay gw (RunThing cmd # es) on =
     route_replay gw es
       (if cmd = [''ip'', ''route'', ''add'', ''default'', ''via'', gw] then True
        else if cmd = [''ip'', ''route'', ''delete'', ''default'', ''via'', gw] then False
        else on)"
| "route_replay gw (e # es) on = route_replay gw es on"



end
