(* ===== verification/Reader.thy ===== *)
theory Reader
  imports Scenario
begin

text \<open>
  The life of a \<^verbatim>\<open>client_handle_kcp\<close> goroutine (\<^verbatim>\<open>main.go\<close>): its loop over everything a session
  delivers, from the join to the timeout that ends it. Other goroutines do not interfere here; what they
  may do in between is the transition system of \<^verbatim>\<open>Client_Steps\<close>.
\<close>

section \<open>The loop\<close>

text \<open>What the outside answers in one round: the loop orders, the state of the session, what \<^verbatim>\<open>Read\<close> returns, the clock.\<close>

record read_env =
  re_orc :: answers
  re_state :: u32
  re_result :: "go_error + u8 list"
  re_now1 :: int
  re_now2 :: int

definition client_kcp_round ::
  "'r ext \<Rightarrow> globals \<Rightarrow> u32 \<Rightarrow> addr \<Rightarrow> read_env \<Rightarrow> nat \<Rightarrow> 'r client \<Rightarrow> (control \<times> 'r client) outcome"
where
  "client_kcp_round X G t a e rxtimeouts s =
     obind (client_handle_kcp_begin X G (re_orc e) t a (re_state e) rxtimeouts s) (\<lambda>(ctl, s1).
       case ctl of
         Done \<Rightarrow> Ret (Done, s1)
       | Again n \<Rightarrow> client_handle_kcp_read X G (re_orc e) t a (re_result e) (re_now1 e) (re_now2 e) n s1)"

text \<open>The rounds the environment has answers for; \<open>Again\<close>: the goroutine is waiting for the next.\<close>

fun client_handle_kcp ::
  "'r ext \<Rightarrow> globals \<Rightarrow> u32 \<Rightarrow> addr \<Rightarrow> read_env list \<Rightarrow> nat \<Rightarrow> 'r client \<Rightarrow> (control \<times> 'r client) outcome"
where
  "client_handle_kcp X G t a [] rxtimeouts s = Ret (Again rxtimeouts, s)"
| "client_handle_kcp X G t a (e # es) rxtimeouts s =
     obind (client_kcp_round X G t a e rxtimeouts s) (\<lambda>(ctl, s1).
       case ctl of Done \<Rightarrow> Ret (Done, s1) | Again n \<Rightarrow> client_handle_kcp X G t a es n s1)"

section \<open>One round\<close>

definition is_timeout :: "read_env \<Rightarrow> bool" where
  "is_timeout e \<longleftrightarrow> re_result e = Inl ''timeout''"

text \<open>A session that KCP has not given up and that delivers messages or nothing.\<close>

definition quiet_or_message :: "read_env \<Rightarrow> bool" where
  "quiet_or_message e \<longleftrightarrow> re_state e \<noteq> 0xFFFFFFFF \<and> (is_timeout e \<or> (\<exists>m. re_result e = Inr m))"

text \<open>The connection at \<open>a\<close> is conversation \<open>k\<close> of tunnel \<open>t\<close> and has had \<open>m\<close> timeouts.\<close>

definition bonded :: "'r ext \<Rightarrow> u32 \<Rightarrow> u32 \<Rightarrow> addr \<Rightarrow> nat \<Rightarrow> 'r client \<Rightarrow> bool" where
  "bonded X t k a m s \<longleftrightarrow> client_inv X s \<and> conn_tbl t s k = Some a \<and>
     (\<exists>c. cl_heap s a = Some c \<and> unat (sc_rxtimeouts c) = m)"

lemma bonded_facts:
  assumes "bonded X t k a m s"
  obtains c r sv where "cl_heap s a = Some c" "unat (sc_rxtimeouts c) = m" "sc_convid c = k"
    "sc_session c = Some r" "g_server_list s t = Some sv" "sv_base_convid sv = t"
proof -
  from assms have inv: "client_inv X s" and k: "conn_tbl t s k = Some a" by (simp_all add: bonded_def)
  obtain c where c: "cl_heap s a = Some c" "unat (sc_rxtimeouts c) = m" using assms by (auto simp: bonded_def)
  obtain sv where sv: "g_server_list s t = Some sv" using k by (auto simp: conn_tbl_def split: option.splits)
  obtain r where "sc_convid c = k" "sc_session c = Some r"
    using client_inv_conn_ok [OF inv k] c(1) by (auto elim: conn_okD)
  then show ?thesis by (rule that [OF c _ _ sv client_inv_base [OF inv sv k]])
qed

lemma begin_goes_on:
  assumes "bonded X t k a m s" "re_state e \<noteq> 0xFFFFFFFF"
  shows "\<exists>s1. client_handle_kcp_begin X G orc t a (re_state e) n s = Ret (Again n, s1) \<and> bonded X t k a m s1 \<and>
    conn_tbl t s1 = conn_tbl t s"
proof -
  obtain c r sv where f: "cl_heap s a = Some c" "sc_session c = Some r" "g_server_list s t = Some sv"
    using assms(1) by (rule bonded_facts)
  let ?s1 = "emit (fst (RatSession_SetReadDeadline (sc_session c) 5000)) s"
  have "client_handle_kcp_begin X G orc t a (re_state e) n s = Ret (Again n, ?s1)"
    using f assms(2) by (simp add: client_handle_kcp_begin_def RatSession_GetState_def)
  moreover have "bonded X t k a m ?s1" using assms(1) by (simp add: bonded_def)
  ultimately show ?thesis by simp
qed

lemma message_goes_on:
  assumes "bonded X t k a m s" and laws: "ring_laws X"
  shows "\<exists>s'. client_handle_kcp_read X G orc t a (Inr msg) now1 now2 n s = Ret (Again 0, s') \<and> bonded X t k a m s' \<and>
    conn_tbl t s' = conn_tbl t s"
proof -
  obtain c sv where f: "cl_heap s a = Some c" "unat (sc_rxtimeouts c) = m" "g_server_list s t = Some sv"
    using assms(1) by (rule bonded_facts)
  have "\<exists>s'. client_handle_kcp_read X G orc t a (Inr msg) now1 now2 n s = Ret (Again 0, s') \<and>
      conn_tbl t s' = conn_tbl t s \<and> (\<exists>c'. cl_heap s' a = Some c' \<and> sc_rxtimeouts c' = sc_rxtimeouts c)"
    using f(1,3) by (cases "is_hello msg"; cases "sv_iface sv") (simp_all add: client_handle_kcp_read_def Let_def)
  then obtain s' c' where s': "client_handle_kcp_read X G orc t a (Inr msg) now1 now2 n s = Ret (Again 0, s')"
    "conn_tbl t s' = conn_tbl t s" "cl_heap s' a = Some c'" "sc_rxtimeouts c' = sc_rxtimeouts c" by blast
  moreover have "client_inv X s'"
    by (rule handle_kcp_read_inv [OF laws _ s'(1)]) (use assms in \<open>simp add: bonded_def\<close>)
  ultimately show ?thesis using assms f(2) by (auto simp: bonded_def)
qed

lemma timeout_goes_on:
  assumes "bonded X t k a m s" "m < g_client_max_rxtimeouts" "n \<le> m"
  shows "\<exists>s'. client_handle_kcp_read X G orc t a (Inl ''timeout'') now1 now2 n s = Ret (Again (Suc n), s') \<and>
    bonded X t k a (Suc m) s' \<and> conn_tbl t s' = conn_tbl t s"
proof -
  obtain c sv where f: "cl_heap s a = Some c" "unat (sc_rxtimeouts c) = m" "g_server_list s t = Some sv"
    using assms(1) by (rule bonded_facts)
  let ?s' = "upd_conn a (\<lambda>c. c\<lparr>sc_rxtimeouts := sc_rxtimeouts c + 1\<rparr>) s"
  have m: "unat (sc_rxtimeouts c + 1) = Suc m"
    using f(2) assms(2) by (simp add: unat_word_ariths g_client_max_rxtimeouts_def)
  then have s': "client_handle_kcp_read X G orc t a (Inl ''timeout'') now1 now2 n s = Ret (Again (Suc n), ?s')"
    using f(1,3) assms(2,3) by (simp add: client_handle_kcp_read_def Let_def)
  have "client_inv X ?s'" using assms(1) by (auto simp: bonded_def intro!: client_inv_upd_conn)
  with assms(1) f(1) m have "bonded X t k a (Suc m) ?s'" by (simp add: bonded_def)
  with s' show ?thesis by simp
qed

lemma last_timeout_ends:
  assumes "bonded X t k a g_client_max_rxtimeouts s" "ring_laws X" "covers orc (dom (conn_tbl t s))"
  shows "\<exists>s'. client_handle_kcp_read X G orc t a (Inl ''timeout'') now1 now2 n s = Ret (Done, s') \<and>
    client_inv X s' \<and> conn_tbl t s' = (conn_tbl t s)(k := None)"
proof -
  obtain c sv where f: "cl_heap s a = Some c" "unat (sc_rxtimeouts c) = g_client_max_rxtimeouts" "sc_convid c = k"
    "g_server_list s t = Some sv" "sv_base_convid sv = t"
    using assms(1) by (rule bonded_facts)
  let ?s1 = "upd_conn a (\<lambda>c. c\<lparr>sc_rxtimeouts := sc_rxtimeouts c + 1\<rparr>) s"
  have m: "unat (sc_rxtimeouts c + 1) > g_client_max_rxtimeouts"
    using f(2) by (simp add: unat_word_ariths g_client_max_rxtimeouts_def)
  have "client_inv X ?s1"
    using assms(1) by (auto simp: bonded_def intro!: client_inv_upd_conn)
  from disconnect_by_convid_ok [OF assms(2) this, of t sv orc G k] f(4) assms(3) obtain s' where
    "client_disconnect_session_by_convid X G orc t k ?s1 = Ret s'" "client_inv X s'"
    "conn_tbl t s' = (conn_tbl t s)(k := None)" by auto
  with f m show ?thesis by (simp add: client_handle_kcp_read_def Let_def)
qed


section \<open>The whole life\<close>

text \<open>
  A round adds one timeout or none; with the twenty-first the goroutine ends and the conversation
  leaves. The goroutine's own counter never passes the connection's.
\<close>

lemma kcp_round:
  assumes "ring_laws X" "bonded X t k a m s" "m \<le> g_client_max_rxtimeouts" "n \<le> m" "quiet_or_message e"
    and "covers (re_orc e) (dom (conn_tbl t s))"
  shows "if is_timeout e \<and> m = g_client_max_rxtimeouts
    then \<exists>s'. client_kcp_round X G t a e n s = Ret (Done, s') \<and> client_inv X s' \<and> conn_tbl t s' = (conn_tbl t s)(k := None)
    else \<exists>n' s'. client_kcp_round X G t a e n s = Ret (Again n', s') \<and> conn_tbl t s' = conn_tbl t s \<and>
      bonded X t k a (if is_timeout e then Suc m else m) s' \<and> n' \<le> (if is_timeout e then Suc m else m)"
proof -
  have st: "re_state e \<noteq> 0xFFFFFFFF" using assms(5) by (simp add: quiet_or_message_def)
  obtain s1 where s1: "client_handle_kcp_begin X G (re_orc e) t a (re_state e) n s = Ret (Again n, s1)"
    "bonded X t k a m s1" "conn_tbl t s1 = conn_tbl t s"
    using begin_goes_on [OF assms(2) st, of G "re_orc e" n] by (elim exE conjE) (rule that)
  have round: "client_kcp_round X G t a e n s =
      client_handle_kcp_read X G (re_orc e) t a (re_result e) (re_now1 e) (re_now2 e) n s1"
    by (simp add: client_kcp_round_def s1(1))
  show ?thesis
  proof (cases "is_timeout e")
    case True
    then have res: "re_result e = Inl ''timeout''" by (simp add: is_timeout_def)
    show ?thesis
    proof (cases "m = g_client_max_rxtimeouts")
      case m: True
      then have "bonded X t k a g_client_max_rxtimeouts s1" using s1(2) by simp
      from last_timeout_ends [OF this assms(1)] assms(6) True m show ?thesis unfolding round res s1(3) by simp
    next
      case False
      with assms(3) have "m < g_client_max_rxtimeouts" by simp
      from timeout_goes_on [OF s1(2) this assms(4)] True False show ?thesis
        using assms(4) unfolding round res s1(3) by fastforce
    qed
  next
    case False
    then obtain msg where "re_result e = Inr msg" using assms(5) by (auto simp: quiet_or_message_def)
    with message_goes_on [OF s1(2) assms(1)] False show ?thesis unfolding round s1(3) by fastforce
  qed
qed

lemma kcp_loop:
  assumes "ring_laws X" "bonded X t k a m s" "m \<le> g_client_max_rxtimeouts" "n \<le> m"
    and "\<forall>e \<in> set es. quiet_or_message e \<and> covers (re_orc e) (dom (conn_tbl t s))"
  shows "if m + length (filter is_timeout es) > g_client_max_rxtimeouts
    then \<exists>s'. client_handle_kcp X G t a es n s = Ret (Done, s') \<and> client_inv X s' \<and> conn_tbl t s' = (conn_tbl t s)(k := None)
    else \<exists>n' s'. client_handle_kcp X G t a es n s = Ret (Again n', s') \<and> client_inv X s' \<and> conn_tbl t s' = conn_tbl t s"
  using assms(2-5)
proof (induction es arbitrary: m n s)
  case Nil
  then show ?case by (simp add: bonded_def)
next
  case (Cons e es)
  note round = kcp_round [OF assms(1) Cons.prems(1-3), of e G]
  show ?case
  proof (cases "is_timeout e \<and> m = g_client_max_rxtimeouts")
    case True
    with round Cons.prems(4) obtain s' where "client_kcp_round X G t a e n s = Ret (Done, s')" "client_inv X s'"
      "conn_tbl t s' = (conn_tbl t s)(k := None)" by auto
    with True show ?thesis by simp
  next
    case False
    let ?m = "if is_timeout e then Suc m else m"
    obtain n' s' where s': "client_kcp_round X G t a e n s = Ret (Again n', s')" "conn_tbl t s' = conn_tbl t s"
      "bonded X t k a ?m s'" "n' \<le> ?m"
      using round Cons.prems(4) False by (auto split: if_splits)
    have "?m \<le> g_client_max_rxtimeouts" using False Cons.prems(2) by auto
    from Cons.IH [OF s'(3) this s'(4)] Cons.prems(4) s'(1,2) show ?thesis by (auto split: if_splits)
  qed
qed


definition demo_silence :: read_env where
  "demo_silence = \<lparr>re_orc = demo_orc, re_state = 0, re_result = Inl ''timeout'', re_now1 = 0, re_now2 = 0\<rparr>"


end
