(* ===== verification/Server_Properties.thy ===== *)
theory Server_Properties
  imports Scenario
begin

text \<open>
  The properties of the server: its bonds in every reachable state, accepting a connection,
  what the messages of a client do to a bond, the HELLO round, and the round robin scheduler.
\<close>

section \<open>Bonds\<close>

text \<open>
  C6: in every state the server can reach, the hash ring of a tunnel lists exactly the
  conversations of its connection map, and every entry of the map is an alive connection object
  of that conversation with a session of the same id.
\<close>

theorem server_bonds_in_order:
  assumes "ring_laws X" "server_reachable X G s" "link_tbl t s k = Some a"
  shows "\<exists>ct r c q. g_client_list s t = Some ct \<and> ct_base_convid ct = t \<and> ct_consistent ct = Some r \<and>
    set (ring_members X r) = dec_u32 ` dom (link_tbl t s) \<and>
    se_heap s a = Some c \<and> cc_convid c = k \<and> cc_alive c \<and> cc_session c = Some q \<and> rs_convid q = k"
proof -
  note inv = server_reachable_inv [OF assms(1,2)]
  obtain c q where "se_heap s a = Some c" "cc_convid c = k" "cc_alive c" "cc_session c = Some q" "rs_convid q = k"
    using server_inv_link_ok [OF inv assms(3)] by (auto elim: link_okD)
  moreover obtain ct m r where "g_client_list s t = Some ct" "ct_consistent ct = Some r"
    "set (ring_members X r) = dec_u32 ` dom (link_tbl t s)" "ct_base_convid ct = t"
    by (rule link_tbl_connections [OF inv assms(3)])
  ultimately show ?thesis by blast
qed

theorem server_bonds_in_order_witness:
  "\<exists>ct r. g_client_list demo_server2 660 = Some ct \<and> ct_consistent ct = Some r \<and>
     set (ring_members demo_ext r) = {dec_u32 660, dec_u32 661}"
proof -
  have "link_tbl 660 demo_server2 660 = Some 0" "dom (link_tbl 660 demo_server2) = {660, 661}"
    by (auto simp: demo_link_tbl)
  with server_bonds_in_order [OF demo_ring_laws demo_server_reachable, of 660 660 0] show ?thesis by auto
qed

section \<open>Accepting\<close>

lemma ensure_tun_Ret:
  assumes "ct_iface ct \<noteq> None \<or> (\<exists>i. ae_tun E = Inr i)"
  shows "\<exists>s' b. server_ensure_tun X G E t ct s = Ret (s', b)"
  using assms by (cases "ct_iface ct") (auto simp: server_ensure_tun_def createTun_def Let_def)

lemma accept_enters_ipv4:
  assumes "ring_laws X" "server_inv X s" "length q = 4" "ae_remote E = UDPAddr_String v6 q port"
    and "(\<exists>ct. g_client_list s t = Some ct \<and> ct_iface ct \<noteq> None) \<or> (\<exists>i. ae_tun E = Inr i)"
  shows "\<exists>s'. server_accept_conn X G E t k s = Ret (Some (se_next s), s') \<and> server_inv X s' \<and>
    link_tbl t s' = (link_tbl t s)(k \<mapsto> se_next s)"
proof -
  define ct where "ct = (case g_client_list s t of None \<Rightarrow> new_clientType | Some ct \<Rightarrow> ct)"
  define s0 where "s0 = effects (setServerConnOptions G (ae_kcp E)) (s\<lparr>g_client_list := (g_client_list s)(t \<mapsto> ct)\<rparr>)"
  have inv0: "server_inv X s0" using server_inv_register [OF assms(2), of t] by (simp add: s0_def ct_def)
  have ct0: "g_client_list s0 t = Some ct" by (simp add: s0_def)
  obtain s1 b where e: "server_ensure_tun X G E t ct s0 = Ret (s1, b)"
    using ensure_tun_Ret [of ct E X G t s0] assms(5) by (auto simp: ct_def)
  obtain ct1 where c1: "server_inv X s1" "g_client_list s1 t = Some ct1" "ct_connections ct1 = ct_connections ct"
    "ct_base_convid ct1 = t \<or> ct_connections ct1 \<noteq> None" "se_heap s1 = se_heap s0" "se_next s1 = se_next s0"
    by (rule server_ensure_tun_ok [OF inv0 ct0 e])
  let ?s2 = "upd_ct t (\<lambda>ct. ct\<lparr>ct_last_convid := 0\<rparr>) s1"
  have inv2: "server_inv X ?s2" by (rule server_inv_set_last [OF c1(1)]) simp
  have ct2: "g_client_list ?s2 t = Some (ct1\<lparr>ct_last_convid := 0\<rparr>)" using c1(2) by simp
  have next2: "se_next ?s2 = se_next s" using c1(6) by (simp add: s0_def)
  have tbl: "link_tbl t ?s2 = link_tbl t s"
    using c1(2,3) by (auto simp: link_tbl_def ct_conns_def ct_def new_clientType_def split: option.splits)
  have np: "\<not> IsPrivate (ParseIP (parseIPv6 X) (ae_remote E))" using assms(3,4) by (simp add: ParseIP_UDPAddr)
  note ent = server_enter_inv [OF assms(1) inv2 ct2, of k E]
  have base: "ct_base_convid (ct1\<lparr>ct_last_convid := 0\<rparr>) = t \<or> ct_connections (ct1\<lparr>ct_last_convid := 0\<rparr>) \<noteq> None"
    using c1(4) by simp
  show ?thesis
    using np e ent [OF base] tbl next2
    unfolding server_accept_conn_def Let_def ct_def [symmetric] s0_def [symmetric] by simp
qed

text \<open>
  C23: a session from an IPv4 peer is always entered into the bond of its tunnel, under its
  conversation id and as a fresh connection object, also when the peer's address is private: the
  check parses the address together with its port, which never gives an address.
\<close>

theorem accept_enters_ipv4_peer:
  assumes "ring_laws X" "server_inv X s" "length q = 4" "ae_remote E = UDPAddr_String v6 q port"
    and "(\<exists>ct. g_client_list s t = Some ct \<and> ct_iface ct \<noteq> None) \<or> (\<exists>i. ae_tun E = Inr i)"
  shows "\<exists>s'. server_accept_conn X G E t k s = Ret (Some (se_next s), s') \<and> server_inv X s' \<and>
    link_tbl t s' = (link_tbl t s)(k \<mapsto> se_next s)"
  by (rule accept_enters_ipv4 [OF assms])

theorem accept_enters_ipv4_peer_witness:
  "\<exists>s'. server_accept_conn demo_ext demo_globals
      ((demo_accept 3)\<lparr>ae_remote := UDPAddr_String (\<lambda>_. ''::'') [192, 168, 1, 2] 4000\<rparr>) 660 662 demo_server2 =
        Ret (Some (se_next demo_server2), s') \<and> link_tbl 660 s' 662 = Some (se_next demo_server2)"
proof -
  let ?E = "(demo_accept 3)\<lparr>ae_remote := UDPAddr_String (\<lambda>_. ''::'') [192, 168, 1, 2] 4000\<rparr>"
  have "\<exists>i. ae_tun ?E = Inr i" by (simp add: demo_accept_def)
  then show ?thesis
    using accept_enters_ipv4_peer [OF demo_ring_laws demo_server_inv, of "[192, 168, 1, 2]" ?E "\<lambda>_. ''::''" 4000 660
        demo_globals 662] by auto
qed

section \<open>What messages do\<close>

lemma linkdown_removes:
  assumes "ring_laws X" "server_inv X s" "covers orc (dom (link_tbl t s))" "g_client_list s t = Some ct"
  shows "\<exists>s'. server_accept_read X orc t k a (Inr (linkdown_msg d)) now1 now2 tun_err s = Ret (Continue, s') \<and>
    server_inv X s' \<and> link_tbl t s' = (link_tbl t s)(of_nat (unat d mod 65536) := None)"
proof -
  define s1 where "s1 = upd_link a (\<lambda>c. c\<lparr>cc_rxcounter := cc_rxcounter c + 1,
      cc_rxbytes := cc_rxbytes c + of_nat (length (linkdown_msg d)), cc_last_hello := now1\<rparr>) s"
  have "server_inv X s1" unfolding s1_def by (rule server_inv_upd_link [OF assms(2)]) simp
  moreover have "link_tbl t s1 = link_tbl t s" by (simp add: s1_def)
  ultimately show ?thesis
    using server_disconnect_ok [OF assms(1), of s1 orc t "of_nat (unat d mod 65536)"] assms(3,4)
    by (auto simp: server_accept_read_def ucast_u16_u32 Let_def s1_def [symmetric])
qed

text \<open>
  A LINKDOWN message for conversation \<open>d\<close>, read on any link of a tunnel, takes exactly the link
  \<open>d mod 65536\<close> out of the bond; the reader goes on.
\<close>

theorem linkdown_removes_link:
  assumes "ring_laws X" "server_inv X s" "covers orc (dom (link_tbl t s))" "g_client_list s t = Some ct"
  shows "\<exists>s'. server_accept_read X orc t k a (Inr (linkdown_msg d)) now1 now2 tun_err s = Ret (Continue, s') \<and>
    server_inv X s' \<and> link_tbl t s' = (link_tbl t s)(of_nat (unat d mod 65536) := None)"
  by (rule linkdown_removes [OF assms])

theorem linkdown_removes_link_witness:
  "\<exists>s'. server_accept_read demo_ext demo_orc 660 660 0 (Inr (linkdown_msg 661)) 0 0 None demo_server2 = Ret (Continue, s') \<and>
     link_tbl 660 s' = [660 \<mapsto> 0]"
proof -
  obtain ct where "g_client_list demo_server2 660 = Some ct" using demo_links by auto
  from linkdown_removes_link [OF demo_ring_laws demo_server_inv demo_covers_links this, of 660 0 661 0 0 None]
  show ?thesis by (auto simp: demo_link_tbl fun_eq_iff)
qed

text \<open>
  C38: the reader of a session that has failed takes its conversation id out of the bond, even
  when that id has meanwhile been given to a new session: a client that comes back before the old
  session has failed loses its new link.
\<close>

theorem failed_reader_removes_successor:
  assumes "ring_laws X" "server_inv X s" "link_tbl t s k = Some a"
    and "length q = 4" "ae_remote E = UDPAddr_String v6 q port" "ae_tun E = Inr i"
    and "covers orc (dom (link_tbl t s))" "e \<noteq> ''timeout''"
  shows "\<exists>s1 s2. server_accept_conn X G E t k s = Ret (Some (se_next s), s1) \<and> se_next s \<noteq> a \<and>
    link_tbl t s1 k = Some (se_next s) \<and>
    server_accept_read X orc t k a (Inl e) now1 now2 tun_err s1 = Ret (Return, s2) \<and> link_tbl t s2 k = None"
proof -
  obtain s1 where s1: "server_accept_conn X G E t k s = Ret (Some (se_next s), s1)" "server_inv X s1"
    "link_tbl t s1 = (link_tbl t s)(k \<mapsto> se_next s)"
    using accept_enters_ipv4 [OF assms(1,2,4,5)] assms(6) by blast
  have "se_next s \<noteq> a" using server_inv_link_ok [OF assms(2,3)] by (auto simp: link_ok_def)
  have "dom (link_tbl t s1) = dom (link_tbl t s)" using s1(3) assms(3) by auto
  then have "covers orc (dom (link_tbl t s1))" using assms(7) by simp
  then obtain s2 where s2: "server_disconnect_session_by_convid X orc t k s1 = Ret s2"
    "link_tbl t s2 = (link_tbl t s1)(k := None)"
    using server_disconnect_ok [OF assms(1) s1(2)] by blast
  have "link_tbl t s1 k = Some (se_next s)" using s1(3) by simp
  then obtain ct where "g_client_list s1 t = Some ct" by (auto simp: link_tbl_def split: option.splits)
  with s2 assms(8) have "server_accept_read X orc t k a (Inl e) now1 now2 tun_err s1 = Ret (Return, s2)"
    by (simp add: server_accept_read_def)
  with s1 s2 \<open>se_next s \<noteq> a\<close> show ?thesis by auto
qed

theorem failed_reader_removes_successor_witness:
  "\<exists>s1 s2. server_accept_conn demo_ext demo_globals
      ((demo_accept 3)\<lparr>ae_remote := UDPAddr_String (\<lambda>_. ''::'') [41, 0, 0, 9] 4000\<rparr>) 660 661 demo_server2 =
        Ret (Some (se_next demo_server2), s1) \<and> link_tbl 660 s1 661 = Some (se_next demo_server2) \<and>
      server_accept_read demo_ext demo_orc 660 661 1 (Inl ''broken pipe'') 0 0 None s1 = Ret (Return, s2) \<and>
      link_tbl 660 s2 661 = None"
proof -
  let ?E = "(demo_accept 3)\<lparr>ae_remote := UDPAddr_String (\<lambda>_. ''::'') [41, 0, 0, 9] 4000\<rparr>"
  have "link_tbl 660 demo_server2 661 = Some 1" by (simp add: demo_link_tbl)
  moreover have "ae_tun ?E = Inr ''tun660''" by (simp add: demo_accept_def)
  ultimately show ?thesis
    using failed_reader_removes_successor [OF demo_ring_laws demo_server_inv _ _ _ _ demo_covers_links,
        of 660 661 1 "[41, 0, 0, 9]" ?E "\<lambda>_. ''::''" 4000 "''tun660''" "''broken pipe''" demo_globals 0 0 None] by auto
qed

section \<open>The HELLO round\<close>

text \<open>
  C9: \<^verbatim>\<open>server_send_client_pings\<close> returns, and afterwards exactly those links are left that were heard
  from at most five seconds before their turn in the loop.
\<close>

theorem server_hello_round_exact:
  assumes "ring_laws X" "server_inv X s" "covers orc (dom (g_client_list s))"
    "\<forall>t. covers orc (dom (link_tbl t s))"
  shows "\<exists>s'. server_send_client_pings X orc s = Ret s' \<and> server_inv X s' \<and>
    (\<forall>t k a. link_tbl t s' k = Some a \<longleftrightarrow> link_tbl t s k = Some a \<and>
       (\<forall>c. se_heap s a = Some c \<longrightarrow> a_now (orc [t, k]) - cc_last_hello c \<le> 5 * 1000000000))"
proof -
  obtain s' where s': "server_send_client_pings X orc s = Ret s'" "server_inv X s'"
    "\<forall>t. link_tbl t s' = keep_unless UNIV (link_stale (sub_oracle t orc) s) (link_tbl t s)"
    using send_client_pings_ok [OF assms] by blast
  have "link_tbl t s' k = Some a \<longleftrightarrow> link_tbl t s k = Some a \<and>
       (\<forall>c. se_heap s a = Some c \<longrightarrow> a_now (orc [t, k]) - cc_last_hello c \<le> 5 * 1000000000)" for t k a
    using s'(3) by (auto simp: keep_unless_apply link_stale_def sub_oracle_def g_max_hello_def ns_per_s_def
        split: option.splits)
  with s' show ?thesis by blast
qed

theorem server_hello_round_exact_witness:
  "\<exists>s'. server_send_client_pings demo_ext demo_orc demo_server2 = Ret s' \<and> server_inv demo_ext s'"
  using server_hello_round_exact [OF demo_ring_laws demo_server_inv demo_covers_clients] demo_covers_links by blast

section \<open>Round robin\<close>

lemma server_rr_choice:
  assumes "server_inv X s" "g_client_list s t = Some ct" "covers orc (dom (link_tbl t s))"
    "\<not> g_use_consistent_hashing G"
  shows "\<exists>c. server_choose_kcp_conn X G orc packet t s =
      Ret ((c, None), upd_ct t (\<lambda>ct. ct\<lparr>ct_last_convid := c\<rparr>) s) \<and>
    (if link_tbl t s = Map.empty then c = 0 else c \<in> dom (link_tbl t s)) \<and>
    (dom (link_tbl t s) - {ct_last_convid ct} \<noteq> {} \<longrightarrow> c \<noteq> ct_last_convid ct)"
proof -
  let ?c = "rr_pick (link_alive ct s) (ct_last_convid ct) (a_order (orc [])) 0"
  note al = link_alive_dom [OF assms(1,2)]
  have alN: "(link_alive ct s j = None) = (link_tbl t s j = None)" for j by (simp add: al split: option.splits)
  have seen: "j \<in> dom (link_tbl t s) \<Longrightarrow> j \<in> set (a_order (orc []))" for j
    using covers_order [OF assms(3)] by blast
  have eq: "server_choose_kcp_conn X G orc packet t s = Ret ((?c, None), upd_ct t (\<lambda>ct. ct\<lparr>ct_last_convid := ?c\<rparr>) s)"
    using assms(2,4) by (simp add: server_choose_kcp_conn_def Let_def)
  have dom: "if link_tbl t s = Map.empty then ?c = 0 else ?c \<in> dom (link_tbl t s)"
  proof (cases "link_tbl t s = Map.empty")
    case True
    then have "dom (link_alive ct s) = {}" using alN by auto
    from rr_pick_none [OF this] True show ?thesis by simp
  next
    case False
    then obtain j a where "link_tbl t s j = Some a" by (auto simp: fun_eq_iff)
    then have "\<exists>j \<in> set (a_order (orc [])). link_alive ct s j \<noteq> None" using seen [of j] alN [of j] by auto
    then have "link_alive ct s ?c \<noteq> None" by (rule rr_pick_dom)
    with False alN show ?thesis by auto
  qed
  have "?c \<noteq> ct_last_convid ct" if "dom (link_tbl t s) - {ct_last_convid ct} \<noteq> {}"
  proof -
    from that obtain j where j: "j \<in> dom (link_tbl t s)" "j \<noteq> ct_last_convid ct" by blast
    then have "link_alive ct s j = Some True" by (auto simp: al)
    from rr_pick_rotates [where alive = "link_alive ct s", OF seen [OF j(1)] this j(2)] show ?thesis by blast
  qed
  with eq dom show ?thesis by blast
qed

text \<open>
  Under round robin the server picks a link of the bond and remembers it, and never the one
  used last while there is another; with an empty bond it answers 0 without an error.
\<close>

theorem server_round_robin_choice:
  assumes "server_inv X s" "g_client_list s t = Some ct" "covers orc (dom (link_tbl t s))"
    "\<not> g_use_consistent_hashing G"
  shows "\<exists>c. server_choose_kcp_conn X G orc packet t s =
      Ret ((c, None), upd_ct t (\<lambda>ct. ct\<lparr>ct_last_convid := c\<rparr>) s) \<and>
    (if link_tbl t s = Map.empty then c = 0 else c \<in> dom (link_tbl t s)) \<and>
    (dom (link_tbl t s) - {ct_last_convid ct} \<noteq> {} \<longrightarrow> c \<noteq> ct_last_convid ct)"
  using assms by (rule server_rr_choice)

theorem server_round_robin_choice_witness:
  "\<exists>c s'. server_choose_kcp_conn demo_ext (demo_globals\<lparr>g_use_consistent_hashing := False\<rparr>) demo_orc None 660 demo_server2 =
     Ret ((c, None), s') \<and> c \<in> {660, 661}"
proof -
  obtain ct where ct: "g_client_list demo_server2 660 = Some ct" using demo_links by auto
  have "link_tbl 660 demo_server2 \<noteq> Map.empty" "dom (link_tbl 660 demo_server2) = {660, 661}"
    by (auto simp: demo_link_tbl)
  with server_round_robin_choice [OF demo_server_inv ct demo_covers_links,
      of "demo_globals\<lparr>g_use_consistent_hashing := False\<rparr>" None] show ?thesis by auto
qed

end
