(* ===== verification/Traffic.thy ===== *)
theory Traffic
  imports Client_Steps Server_Steps
begin

text \<open>
  What each operation sends to the peer and writes to its tun device. A session carries the
  control messages and the packets read from the tun device, nothing else; the tun device gets what
  a session delivers, less the control messages.
\<close>

section \<open>Effects\<close>

definition kcp_writes :: "effect list \<Rightarrow> u8 list set" where
  "kcp_writes es = {d. \<exists>h. KcpWrite h d \<in> set es}"

definition tun_writes :: "effect list \<Rightarrow> u8 list set" where
  "tun_writes es = {d. \<exists>i. TunWrite i d \<in> set es}"

lemma kcp_writes_simps [simp]:
  "kcp_writes [] = {}" "kcp_writes (xs @ ys) = kcp_writes xs \<union> kcp_writes ys"
  "kcp_writes (e # es) = (case e of KcpWrite h d \<Rightarrow> {d} | _ \<Rightarrow> {}) \<union> kcp_writes es"
  by (auto simp: kcp_writes_def split: effect.splits)

lemma tun_writes_simps [simp]:
  "tun_writes [] = {}" "tun_writes (xs @ ys) = tun_writes xs \<union> tun_writes ys"
  "tun_writes (e # es) = (case e of TunWrite i d \<Rightarrow> {d} | _ \<Rightarrow> {}) \<union> tun_writes es"
  by (auto simp: tun_writes_def split: effect.splits)

text \<open>\<open>adds out D T s s'\<close>: between the states, \<open>D\<close> bounds what was sent and \<open>T\<close> what the tun device got.\<close>

definition adds :: "('s \<Rightarrow> effect list) \<Rightarrow> u8 list set \<Rightarrow> u8 list set \<Rightarrow> 's \<Rightarrow> 's \<Rightarrow> bool" where
  "adds out D T s s' \<longleftrightarrow> (\<exists>es. out s' = out s @ es \<and> kcp_writes es \<subseteq> D \<and> tun_writes es \<subseteq> T)"

lemma adds_refl [simp, intro]: "adds out D T s s"
  unfolding adds_def by (rule exI [of _ "[]"]) simp

lemma adds_trans [trans]: "adds out D T s u \<Longrightarrow> adds out D T u v \<Longrightarrow> adds out D T s v"
  unfolding adds_def
proof (elim exE conjE)
  fix es fs
  assume "out u = out s @ es" "out v = out u @ fs" "kcp_writes es \<subseteq> D" "tun_writes es \<subseteq> T"
    "kcp_writes fs \<subseteq> D" "tun_writes fs \<subseteq> T"
  then show "\<exists>es. out v = out s @ es \<and> kcp_writes es \<subseteq> D \<and> tun_writes es \<subseteq> T"
    by (intro exI [of _ "es @ fs"]) simp
qed

lemma adds_mono: "adds out D T s s' \<Longrightarrow> D \<subseteq> D' \<Longrightarrow> T \<subseteq> T' \<Longrightarrow> adds out D' T' s s'"
  unfolding adds_def by blast

lemma adds_range:
  assumes "\<And>k v u u'. body k v u = Ret u' \<Longrightarrow> adds out D T u u'" "for_range tbl body ks s = Ret s'"
  shows "adds out D T s s'"
  by (rule for_range_keeps [where I = "adds out D T s", OF _ adds_refl assms(2)])
     (blast intro: adds_trans assms(1))

lemma adds_writes:
  assumes "adds out D T s s'"
  shows "kcp_writes (out s') \<subseteq> kcp_writes (out s) \<union> D" "tun_writes (out s') \<subseteq> tun_writes (out s) \<union> T"
  using assms by (auto simp: adds_def)

lemma session_effects [simp]:
  "kcp_writes (fst (RatSession_Close r e)) = {}" "tun_writes (fst (RatSession_Close r e)) = {}"
  "kcp_writes (fst (RatSession_SetReadDeadline r ms)) = {}" "tun_writes (fst (RatSession_SetReadDeadline r ms)) = {}"
  "kcp_writes (fst (RatSession_SetWriteDeadline r ms)) = {}" "tun_writes (fst (RatSession_SetWriteDeadline r ms)) = {}"
  "tun_writes (fst (RatSession_Write r d e)) = {}"
  by (auto simp: RatSession_Close_def RatSession_SetReadDeadline_def RatSession_SetWriteDeadline_def
      RatSession_Write_def split: option.splits)

lemma write_effects [dest!]: "x \<in> kcp_writes (fst (RatSession_Write r d e)) \<Longrightarrow> x = d"
  by (auto simp: RatSession_Write_def split: option.splits)

lemma options_effects [simp]:
  "kcp_writes (setKCPOptions G k) = {}" "tun_writes (setKCPOptions G k) = {}"
  "kcp_writes (setClientConnOptions G h) = {}" "tun_writes (setClientConnOptions G h) = {}"
  "kcp_writes (setServerConnOptions G h) = {}" "tun_writes (setServerConnOptions G h) = {}"
  by (simp_all add: setKCPOptions_def setClientConnOptions_def setServerConnOptions_def split: option.splits)

section \<open>Control messages\<close>

definition controls :: "u8 list set" where
  "controls = insert g_hello (range linkdown_msg)"

lemma controls_mem [simp, intro]: "g_hello \<in> controls" "linkdown_msg c \<in> controls"
  by (simp_all add: controls_def)

lemma server_message_control: "m \<in> controls \<Longrightarrow> server_message m \<noteq> Data"
  by (auto simp: controls_def)

section \<open>The client\<close>

lemma client_adds_touch [simp]:
  "adds cl_out D T s (upd_conn a f u) = adds cl_out D T s u"
  "adds cl_out D T (upd_conn a f u) s = adds cl_out D T u s"
  "adds cl_out D T s (upd_sv t g u) = adds cl_out D T s u"
  "adds cl_out D T (upd_sv t g u) s = adds cl_out D T u s"
  "adds cl_out D T s (u\<lparr>g_server_list := m\<rparr>) = adds cl_out D T s u"
  "adds cl_out D T s (u\<lparr>cl_heap := h, cl_next := n\<rparr>) = adds cl_out D T s u"
  by (simp_all add: adds_def)

lemma client_adds_emit:
  "kcp_writes es \<subseteq> D \<Longrightarrow> tun_writes es \<subseteq> T \<Longrightarrow> adds cl_out D T s u \<Longrightarrow> adds cl_out D T s (emit es u)"
  by (erule adds_trans) (auto simp: adds_def)

lemma client_adds_from:
  "kcp_writes es \<subseteq> D \<Longrightarrow> tun_writes es \<subseteq> T \<Longrightarrow> adds cl_out D T (emit es u) s \<Longrightarrow> adds cl_out D T u s"
  by (rule adds_trans [OF client_adds_emit [OF _ _ adds_refl]])

lemma choose_adds:
  "client_choose_kcp_conn X G orc packet t s = Ret ((c, err), s') \<Longrightarrow> adds cl_out D T s s'"
  by (auto simp: client_choose_kcp_conn_def Let_def outcome_simps split: if_splits)

lemma close_adds: "client_close_connection X t a k s = Ret s' \<Longrightarrow> adds cl_out D T s s'"
  by (auto simp: client_close_connection_def outcome_simps intro!: client_adds_emit)

text \<open>\<open>D\<close> is what is sent beside the control messages.\<close>

lemma linkdown_adds:
  "client_send_linkdown_message X G orc t d s = Ret s' \<Longrightarrow> adds cl_out (controls \<union> D) T s s'"
  by (auto simp: client_send_linkdown_message_def outcome_simps Let_def case_prod_beta
      split: if_splits option.splits intro!: client_adds_emit dest!: choose_adds [where D = "controls \<union> D" and T = T])

lemma disconnect_where_adds:
  "client_disconnect_where X G orc t P s = Ret s' \<Longrightarrow> adds cl_out (controls \<union> D) T s s'"
  unfolding client_disconnect_where_def
  by (erule adds_range [rotated])
     (auto simp: client_disconnect_body_def outcome_simps split: if_splits
       dest!: close_adds [where D = "controls \<union> D" and T = T] linkdown_adds [where D = D and T = T] intro: adds_trans)

lemma disconnect_adds:
  "client_disconnect_session_by_convid X G orc t d s = Ret s' \<Longrightarrow> adds cl_out (controls \<union> D) T s s'"
  "client_disconnect_session_by_src X G orc t src s = Ret s' \<Longrightarrow> adds cl_out (controls \<union> D) T s s'"
  "client_disconnect_session_by_ifname X G orc t ifname s = Ret s' \<Longrightarrow> adds cl_out (controls \<union> D) T s s'"
  by (auto simp: client_disconnect_session_by_convid_def client_disconnect_session_by_src_def
      client_disconnect_session_by_ifname_def split: option.splits intro: disconnect_where_adds)

lemma disconnect_then_adds:
  assumes "client_disconnect_session_by_convid X G orc t d u = Ret s'" "adds cl_out (controls \<union> D) T s u"
  shows "adds cl_out (controls \<union> D) T s s'"
  by (rule adds_trans [OF assms(2) disconnect_adds(1) [OF assms(1)]])

lemma reader_adds:
  "client_handle_kcp_begin X G orc t a st n s = Ret (ctl, s') \<Longrightarrow> adds cl_out (controls \<union> D) T s s'"
  "client_handle_kcp_read X G orc t a (Inl e) now1 now2 n s = Ret (ctl, s') \<Longrightarrow> adds cl_out (controls \<union> D) T s s'"
  by (auto simp: client_handle_kcp_begin_def client_handle_kcp_read_def outcome_simps Let_def
      split: if_splits intro!: client_adds_emit elim!: disconnect_then_adds)

lemma message_adds:
  assumes "client_handle_kcp_read X G orc t a (Inr m) now1 now2 n s = Ret (ctl, s')"
  shows "adds cl_out D (if is_hello m then {} else {m}) s s'"
proof (cases "is_hello m")
  case True
  with assms show ?thesis by (auto simp: client_handle_kcp_read_def outcome_simps Let_def)
next
  case False
  with assms show ?thesis
    by (auto simp: client_handle_kcp_read_def outcome_simps Let_def split: option.splits intro!: client_adds_emit)
qed

lemma send_hello_adds: "client_send_hello X G orc a base s = Ret s' \<Longrightarrow> adds cl_out (controls \<union> D) T s s'"
  by (auto simp: client_send_hello_def outcome_simps Let_def case_prod_beta split: if_splits
      intro!: client_adds_emit elim!: disconnect_then_adds)

lemma ping_body_adds: "client_ping_body X G orc t k a s = Ret s' \<Longrightarrow> adds cl_out (controls \<union> D) T s s'"
  by (auto simp: client_ping_body_def outcome_simps Let_def split: if_splits intro!: client_adds_emit
      dest: disconnect_adds(1) [where D = D and T = T])

lemma pings_adds: "client_send_server_pings X G orc s = Ret s' \<Longrightarrow> adds cl_out (controls \<union> D) T s s'"
  unfolding client_send_server_pings_def
  by (erule adds_range [rotated], erule adds_range [rotated]) (rule ping_body_adds)

lemma tun_send_adds:
  assumes "client_tun_send X G orc t a data st wr s = Ret s'" "data \<in> D"
  shows "adds cl_out (controls \<union> D) T s s'"
  using assms by (auto simp: client_tun_send_def outcome_simps Let_def case_prod_beta split: if_splits
      intro!: client_adds_emit elim!: disconnect_then_adds)

lemma tun_read_adds:
  assumes "client_handle_tun_read X G orc t (Inr (p, n)) st wr s = Ret (ctl, s')"
  shows "adds cl_out (controls \<union> {take n p}) T s s'"
  using assms by (auto simp: client_handle_tun_read_def outcome_simps split: if_splits option.splits
      dest!: choose_adds [where D = "controls \<union> {take n p}" and T = T] tun_send_adds [where D = "{take n p}" and T = T]
      intro: adds_trans)

lemma paths_adds: "adds cl_out D T s u \<Longrightarrow> adds cl_out D T s (client_check_paths G route u)"
  by (auto simp: client_check_paths_def Let_def split: option.splits intro!: client_adds_emit)

lemma createTun_effects: "createTun G r t ip = (x, es) \<Longrightarrow> kcp_writes es = {} \<and> tun_writes es = {}"
  by (auto simp: createTun_def Let_def split: sum.splits)

lemma prepare_adds:
  "client_connect_prepare X G E t src ifname s = Ret (Inl s') \<Longrightarrow> adds cl_out D T s s'"
  "client_connect_prepare X G E t src ifname s = Ret (Inr (s', k, b, w)) \<Longrightarrow> adds cl_out D T s s'"
  by (auto simp: client_connect_prepare_def client_ensure_tun_def outcome_simps Let_def
      split: if_splits option.splits prod.splits dest!: createTun_effects intro!: client_adds_emit)

lemma NewSession_effects:
  "NewSession X G k addr u c = Ret (r, err, es) \<Longrightarrow> kcp_writes es = {} \<and> tun_writes es = {}"
  by (auto simp: NewSession_def Let_def split: if_splits sum.splits)

lemma create_session_effects:
  "create_session X G d k src = Ret (Inr (r, es)) \<Longrightarrow> kcp_writes es = {} \<and> tun_writes es = {}"
  by (auto simp: create_session_def outcome_simps split: sum.splits option.splits dest!: NewSession_effects)

lemma commit_adds:
  "client_connect_commit X G E t src ifname k b w s = Ret s' \<Longrightarrow> adds cl_out (controls \<union> D) T s s'"
  by (auto simp: client_connect_commit_def outcome_simps Let_def split: sum.splits prod.splits if_splits
      dest!: create_session_effects intro!: paths_adds client_adds_emit)


section \<open>The server\<close>

text \<open>The server's only control message is HELLO.\<close>

lemma server_adds_touch [simp]:
  "adds se_out D T s (upd_link a f u) = adds se_out D T s u"
  "adds se_out D T s (upd_ct t g u) = adds se_out D T s u"
  "adds se_out D T s (u\<lparr>g_client_list := m\<rparr>) = adds se_out D T s u"
  "adds se_out D T s (u\<lparr>se_heap := h, se_next := n\<rparr>) = adds se_out D T s u"
  by (simp_all add: adds_def)

lemma server_adds_effects:
  "kcp_writes es \<subseteq> D \<Longrightarrow> tun_writes es \<subseteq> T \<Longrightarrow> adds se_out D T s u \<Longrightarrow> adds se_out D T s (effects es u)"
  by (erule adds_trans) (auto simp: adds_def)

lemma server_disconnect_body_adds: "server_disconnect_body X t d k a s = Ret s' \<Longrightarrow> adds se_out D T s s'"
  by (auto simp: server_disconnect_body_def server_close_connection_def outcome_simps split: if_splits
      intro!: server_adds_effects)

lemma server_disconnect_adds:
  "server_disconnect_session_by_convid X orc t d u = Ret s' \<Longrightarrow> adds se_out D T s u \<Longrightarrow> adds se_out D T s s'"
  by (rule adds_trans [of _ _ _ s u], assumption)
     (auto simp: server_disconnect_session_by_convid_def split: option.splits
       elim!: adds_range [rotated] intro: server_disconnect_body_adds)

lemma server_reader_adds:
  "server_accept_begin X orc t k h st s = Ret (ctl, s') \<Longrightarrow> adds se_out D T s s'"
  "server_accept_read X orc t k a (Inl e) now1 now2 tun_err s = Ret (ctl, s') \<Longrightarrow> adds se_out D T s s'"
  by (auto simp: server_accept_begin_def server_accept_read_def outcome_simps Let_def
      split: if_splits intro!: server_adds_effects elim!: server_disconnect_adds)

lemma server_message_adds:
  assumes "server_accept_read X orc t k a (Inr m) now1 now2 tun_err s = Ret (ctl, s')"
  shows "adds se_out D (if server_message m = Data then {m} else {}) s s'"
  using assms by (cases "server_message m")
    (auto simp: server_accept_read_def outcome_simps Let_def split: option.splits if_splits
      intro!: server_adds_effects elim!: server_disconnect_adds)

lemma server_hello_adds: "server_send_hello orc a s = Ret s' \<Longrightarrow> adds se_out (insert g_hello D) T s s'"
  by (auto simp: server_send_hello_def outcome_simps Let_def case_prod_beta split: if_splits
      intro!: server_adds_effects)

lemma server_ping_adds: "server_ping_body X orc t k a s = Ret s' \<Longrightarrow> adds se_out D T s s'"
  by (auto simp: server_ping_body_def outcome_simps Let_def split: if_splits intro!: server_adds_effects
      elim!: server_disconnect_adds)

lemma server_pings_adds: "server_send_client_pings X orc s = Ret s' \<Longrightarrow> adds se_out D T s s'"
  unfolding server_send_client_pings_def
  by (erule adds_range [rotated], erule adds_range [rotated]) (rule server_ping_adds)

lemma server_tun_send_adds:
  assumes "server_tun_send X orc t a data st wr u = Ret s'" "data \<in> D" "adds se_out D T s u"
  shows "adds se_out D T s s'"
  using assms by (auto simp: server_tun_send_def outcome_simps Let_def case_prod_beta split: if_splits
      intro!: server_adds_effects elim!: server_disconnect_adds)

lemma server_choose_adds:
  "server_choose_kcp_conn X G orc packet t s = Ret ((c, err), s') \<Longrightarrow> adds se_out D T s s'"
  by (auto simp: server_choose_kcp_conn_def Let_def outcome_simps split: if_splits)

lemma server_tun_read_adds:
  assumes "server_handle_tun_read X G orc t (Inr (p, n)) st wr s = Ret s'"
  shows "adds se_out (insert g_hello {take n p}) T s s'"
  using assms by (auto simp: server_handle_tun_read_def outcome_simps split: if_splits option.splits
      dest!: server_choose_adds [where D = "insert g_hello {take n p}" and T = T] elim!: server_tun_send_adds)

lemma accept_adds: "server_accept_conn X G E t k s = Ret (a, s') \<Longrightarrow> adds se_out D T s s'"
  by (auto simp: server_accept_conn_def server_ensure_tun_def outcome_simps Let_def
      split: if_splits option.splits prod.splits dest!: createTun_effects intro!: server_adds_effects)

section \<open>Steps by what they take in\<close>

datatype event = From_tun "u8 list" | From_peer "u8 list" | Quiet

inductive client_event :: "'r ext \<Rightarrow> globals \<Rightarrow> event \<Rightarrow> 'r client \<Rightarrow> 'r client \<Rightarrow> bool" for X G where
  tun: "client_handle_tun_read X G orc t (Inr (p, n)) st wr s = Ret (ctl, s') \<Longrightarrow> client_event X G (From_tun (take n p)) s s'"
| peer: "client_handle_kcp_read X G orc t a (Inr m) now1 now2 i s = Ret (ctl, s') \<Longrightarrow> client_event X G (From_peer m) s s'"
| tun_error: "client_handle_tun_read X G orc t (Inl e) st wr s = Ret (ctl, s') \<Longrightarrow> client_event X G Quiet s s'"
| peer_error: "client_handle_kcp_read X G orc t a (Inl e) now1 now2 i s = Ret (ctl, s') \<Longrightarrow> client_event X G Quiet s s'"
| refuse: "client_connect_prepare X G E t src ifname s = Ret (Inl s') \<Longrightarrow> client_event X G Quiet s s'"
| prepare: "client_connect_prepare X G E t src ifname s = Ret (Inr (s', k, b, w)) \<Longrightarrow> client_event X G Quiet s s'"
| commit: "client_connect_commit X G E t src ifname k b w s = Ret s' \<Longrightarrow> client_event X G Quiet s s'"
| paths: "client_event X G Quiet s (client_check_paths G route s)"
| ifname: "client_disconnect_session_by_ifname X G orc t ifname s = Ret s' \<Longrightarrow> client_event X G Quiet s s'"
| src: "client_disconnect_session_by_src X G orc t src s = Ret s' \<Longrightarrow> client_event X G Quiet s s'"
| kcp_begin: "client_handle_kcp_begin X G orc t a st i s = Ret (ctl, s') \<Longrightarrow> client_event X G Quiet s s'"
| hello: "client_send_hello X G orc a base s = Ret s' \<Longrightarrow> client_event X G Quiet s s'"
| pings: "client_send_server_pings X G orc s = Ret s' \<Longrightarrow> client_event X G Quiet s s'"
| poll: "client_event X G Quiet s (emit [Spawn (Go_netlink_get_routes t)] s)"

lemma client_event_iff: "client_step X G s s' \<longleftrightarrow> (\<exists>e. client_event X G e s s')"
proof
  assume "client_step X G s s'"
  then show "\<exists>e. client_event X G e s s'"
  proof cases
    case (kcp_read orc t a result now1 now2 n ctl)
    then show ?thesis by (cases result) (auto intro: client_event.peer client_event.peer_error)
  next
    case (tun_read orc t result st wr ctl)
    then show ?thesis by (cases result) (auto intro: client_event.tun client_event.tun_error)
  qed (auto intro: client_event.intros)
next
  assume "\<exists>e. client_event X G e s s'"
  then show "client_step X G s s'" by (auto elim!: client_event.cases intro: client_step.intros)
qed

inductive server_event :: "'r ext \<Rightarrow> globals \<Rightarrow> event \<Rightarrow> 'r server \<Rightarrow> 'r server \<Rightarrow> bool" for X G where
  tun: "server_handle_tun_read X G orc t (Inr (p, n)) st wr s = Ret s' \<Longrightarrow> server_event X G (From_tun (take n p)) s s'"
| peer: "server_accept_read X orc t k a (Inr m) now1 now2 tun_err s = Ret (ctl, s') \<Longrightarrow> server_event X G (From_peer m) s s'"
| peer_error: "server_accept_read X orc t k a (Inl e) now1 now2 tun_err s = Ret (ctl, s') \<Longrightarrow> server_event X G Quiet s s'"
| accept: "server_accept_conn X G E t k s = Ret (a, s') \<Longrightarrow> server_event X G Quiet s s'"
| kcp_begin: "server_accept_begin X orc t k h st s = Ret (ctl, s') \<Longrightarrow> server_event X G Quiet s s'"
| hello: "server_send_hello orc a s = Ret s' \<Longrightarrow> server_event X G Quiet s s'"
| pings: "server_send_client_pings X orc s = Ret s' \<Longrightarrow> server_event X G Quiet s s'"

lemma server_event_iff: "server_step X G s s' \<longleftrightarrow> (\<exists>e. server_event X G e s s')"
proof
  assume "server_step X G s s'"
  then show "\<exists>e. server_event X G e s s'"
  proof cases
    case (kcp_read orc t k a result now1 now2 tun_err ctl)
    then show ?thesis by (cases result) (auto intro: server_event.peer server_event.peer_error)
  next
    case (tun_read orc t result st wr)
    show ?thesis
    proof (cases result)
      case (Inl e)
      with tun_read show ?thesis by (simp add: server_handle_tun_read_def)
    next
      case (Inr pn)
      with tun_read show ?thesis by (cases pn) (auto intro: server_event.tun)
    qed
  qed (auto intro: server_event.intros)
next
  assume "\<exists>e. server_event X G e s s'"
  then show "server_step X G s s'" by (auto elim!: server_event.cases intro: server_step.intros)
qed

text \<open>What a step sends beside control messages, and what it writes to the tun device.\<close>

fun forwarded :: "event \<Rightarrow> u8 list set" where
  "forwarded (From_tun d) = {d}"
| "forwarded _ = {}"

lemmas quiet_adds = reader_adds [where D = "{}", simplified] prepare_adds commit_adds [where D = "{}", simplified]
  disconnect_adds [where D = "{}", simplified] send_hello_adds [where D = "{}", simplified]
  pings_adds [where D = "{}", simplified]

lemma client_event_adds:
  assumes "client_event X G e s s'"
  shows "adds cl_out (controls \<union> forwarded e)
    (case e of From_peer m \<Rightarrow> if client_message m = Data then {m} else {} | _ \<Rightarrow> {}) s s'"
  using assms
proof cases
  case (peer orc t a m now1 now2 i ctl)
  then show ?thesis
    using message_adds [OF peer(2), of "controls \<union> forwarded e"] by (simp add: client_message_def split: if_splits)
next
  case (tun_error orc t e st wr ctl)
  then show ?thesis by (simp add: client_handle_tun_read_def)
qed (auto intro: tun_read_adds [simplified] quiet_adds paths_adds client_adds_emit)

lemma server_event_adds:
  assumes "server_event X G e s s'"
  shows "adds se_out (insert g_hello (forwarded e))
    (case e of From_peer m \<Rightarrow> if server_message m = Data then {m} else {} | _ \<Rightarrow> {}) s s'"
  using assms
  by cases (auto intro: server_tun_read_adds server_reader_adds accept_adds server_hello_adds server_pings_adds
      dest: server_message_adds [where D = "{g_hello}"])

end
