(* ===== verification/Tunnel.thy ===== *)
theory Tunnel
  imports Traffic
begin

text \<open>
  The two ends of a tunnel as one system. The sessions between them are not modelled beyond this: what
  a session delivers has been written by the peer to some session, whole; it may be lost, delayed,
  reordered, duplicated or delivered on another session. (KCP promises more when it keeps the boundaries
  of what is written, and not even this when it does not.)
\<close>

section \<open>One direction\<close>

text \<open>
  \<open>src\<close> reads packets from its tun device and sends them among control messages \<open>ctl\<close>; \<open>dst\<close> takes what
  it receives for a packet when \<open>is_data\<close> says so.
\<close>

fun delivered :: "(u8 list \<Rightarrow> bool) \<Rightarrow> event \<Rightarrow> u8 list set" where
  "delivered is_data (From_peer m) = (if is_data m then {m} else {})"
| "delivered is_data _ = {}"

locale direction =
  fixes src_out :: "'a \<Rightarrow> effect list"
    and src_event :: "event \<Rightarrow> 'a \<Rightarrow> 'a \<Rightarrow> bool"
    and ctl :: "u8 list set"
    and dst_out :: "'b \<Rightarrow> effect list"
    and dst_event :: "event \<Rightarrow> 'b \<Rightarrow> 'b \<Rightarrow> bool"
    and is_data :: "u8 list \<Rightarrow> bool"
  assumes src_adds: "src_event e s s' \<Longrightarrow> kcp_writes (src_out s') \<subseteq> kcp_writes (src_out s) \<union> ctl \<union> forwarded e"
    and dst_adds: "dst_event e d d' \<Longrightarrow> tun_writes (dst_out d') \<subseteq> tun_writes (dst_out d) \<union> delivered is_data e"
    and told_apart: "m \<in> ctl \<Longrightarrow> \<not> is_data m"
begin

text \<open>\<open>P\<close> is what the source has read from its tun device.\<close>

definition faithful :: "u8 list set \<Rightarrow> 'a \<Rightarrow> 'b \<Rightarrow> bool" where
  "faithful P s d \<longleftrightarrow> kcp_writes (src_out s) \<subseteq> ctl \<union> P \<and> tun_writes (dst_out d) \<subseteq> {m \<in> P. is_data m}"

lemma src_keeps:
  assumes "faithful P s d" "src_event e s s'"
  shows "faithful (P \<union> forwarded e) s' d"
  using assms(1) src_adds [OF assms(2)] by (auto simp: faithful_def)

lemma dst_keeps:
  assumes "faithful P s d" "dst_event e d d'" "\<And>m. e = From_peer m \<Longrightarrow> m \<in> kcp_writes (src_out s)"
  shows "faithful P s d'"
proof -
  have "delivered is_data e \<subseteq> {m \<in> P. is_data m}"
  proof (cases e)
    case (From_peer m)
    then have "m \<in> ctl \<union> P" using assms(1,3) by (auto simp: faithful_def)
    then show ?thesis using From_peer told_apart by auto
  qed simp_all
  with assms(1) dst_adds [OF assms(2)] show ?thesis by (auto simp: faithful_def)
qed

lemma faithful_only: "faithful P s d \<Longrightarrow> tun_writes (dst_out d) \<subseteq> P - ctl"
  using told_apart by (auto simp: faithful_def)

end

lemma client_event_writes:
  assumes "client_event X G e s s'"
  shows "kcp_writes (cl_out s') \<subseteq> kcp_writes (cl_out s) \<union> controls \<union> forwarded e"
    "tun_writes (cl_out s') \<subseteq> tun_writes (cl_out s) \<union> delivered (\<lambda>m. client_message m = Data) e"
  using adds_writes [OF client_event_adds [OF assms]] by (auto split: event.splits if_splits)

lemma server_event_writes:
  assumes "server_event X G e s s'"
  shows "kcp_writes (se_out s') \<subseteq> kcp_writes (se_out s) \<union> {g_hello} \<union> forwarded e"
    "tun_writes (se_out s') \<subseteq> tun_writes (se_out s) \<union> delivered (\<lambda>m. server_message m = Data) e"
  using adds_writes [OF server_event_adds [OF assms]] by (auto split: event.splits if_splits)

interpretation up: direction cl_out "client_event X G" controls se_out "server_event X G'" "\<lambda>m. server_message m = Data"
  for X :: "'r ext" and G G'
  by unfold_locales (erule client_event_writes(1) server_event_writes(2) server_message_control)+

interpretation down: direction se_out "server_event X G'" "{g_hello}" cl_out "client_event X G" "\<lambda>m. client_message m = Data"
  for X :: "'r ext" and G G'
  by unfold_locales (erule server_event_writes(1) client_event_writes(2) | simp)+

section \<open>Both directions\<close>

text \<open>\<open>tn_up\<close> and \<open>tn_down\<close> record what the client and the server have read from their tun devices.\<close>

record 'r tunnel_system =
  tn_client :: "'r client"
  tn_server :: "'r server"
  tn_up :: "u8 list set"
  tn_down :: "u8 list set"

definition init_tunnel :: "'r tunnel_system" where
  "init_tunnel = \<lparr>tn_client = init_client, tn_server = init_server, tn_up = {}, tn_down = {}\<rparr>"

inductive tunnel_step :: "'r ext \<Rightarrow> globals \<Rightarrow> globals \<Rightarrow> 'r tunnel_system \<Rightarrow> 'r tunnel_system \<Rightarrow> bool"
  for X G G' where
  client: "client_event X G e (tn_client w) c \<Longrightarrow>
    (\<And>m. e = From_peer m \<Longrightarrow> m \<in> kcp_writes (se_out (tn_server w))) \<Longrightarrow>
    tunnel_step X G G' w (w\<lparr>tn_client := c, tn_up := tn_up w \<union> forwarded e\<rparr>)"
| server: "server_event X G' e (tn_server w) d \<Longrightarrow>
    (\<And>m. e = From_peer m \<Longrightarrow> m \<in> kcp_writes (cl_out (tn_client w))) \<Longrightarrow>
    tunnel_step X G G' w (w\<lparr>tn_server := d, tn_down := tn_down w \<union> forwarded e\<rparr>)"

inductive tunnel_reachable :: "'r ext \<Rightarrow> globals \<Rightarrow> globals \<Rightarrow> 'r tunnel_system \<Rightarrow> bool" for X G G' where
  start: "tunnel_reachable X G G' init_tunnel"
| step: "tunnel_reachable X G G' w \<Longrightarrow> tunnel_step X G G' w w' \<Longrightarrow> tunnel_reachable X G G' w'"

text \<open>Every run of the system is a run of each end.\<close>

lemma tunnel_reachable_ends:
  "tunnel_reachable X G G' w \<Longrightarrow> client_reachable X G (tn_client w) \<and> server_reachable X G' (tn_server w)"
proof (induction rule: tunnel_reachable.induct)
  case start
  then show ?case by (simp add: init_tunnel_def client_reachable.start server_reachable.start)
next
  case (step w w')
  from step(2,3) show ?case
    by cases (auto intro: client_reachable.step [OF _ client_event_iff [THEN iffD2]]
        server_reachable.step [OF _ server_event_iff [THEN iffD2]])
qed

lemma tunnel_reachable_faithful:
  "tunnel_reachable X G G' w \<Longrightarrow>
     up.faithful (tn_up w) (tn_client w) (tn_server w) \<and> down.faithful (tn_down w) (tn_server w) (tn_client w)"
proof (induction rule: tunnel_reachable.induct)
  case start
  then show ?case
    by (simp add: init_tunnel_def init_client_def init_server_def up.faithful_def down.faithful_def)
next
  case (step w w')
  from step(2) show ?case
  proof cases
    case (client e c)
    have "up.faithful (tn_up w \<union> forwarded e) c (tn_server w)"
      using step(3) client(2) by (blast intro: up.src_keeps)
    moreover have "down.faithful (tn_down w) (tn_server w) c"
      using step(3) down.dst_keeps [OF _ client(2,3)] by blast
    ultimately show ?thesis using client(1) by simp
  next
    case (server e d)
    have "down.faithful (tn_down w \<union> forwarded e) d (tn_client w)"
      using step(3) server(2) by (blast intro: down.src_keeps)
    moreover have "up.faithful (tn_up w) (tn_client w) d"
      using step(3) up.dst_keeps [OF _ server(2,3)] by blast
    ultimately show ?thesis using server(1) by simp
  qed
qed

end
