(* ===== verification/Tunnel_Properties.thy ===== *)
theory Tunnel_Properties
  imports Client_Properties Server_Properties Tunnel
begin

text \<open>
  The properties of the tunnel as a whole: packets get from one end to the other, and nothing
  else does.
\<close>

section \<open>Choosing a session\<close>

lemma client_choose_member:
  assumes "ring_laws X" "client_inv X s" "conn_tbl t s k = Some a" "covers orc (dom (conn_tbl t s))"
    and "g_use_consistent_hashing G \<Longrightarrow> fits_int X (dom (conn_tbl t s)) \<and> (\<exists>key. ExtractSrc X p (int n) = Ret key)"
  obtains c b s1 where "client_choose_kcp_conn X G orc (Some (p, int n)) t s = Ret ((c, None), s1)"
    "conn_tbl t s c = Some b" "conn_tbl t s1 = conn_tbl t s" "cl_heap s1 = cl_heap s" "cl_out s1 = cl_out s"
    "g_server_list s1 t \<noteq> None"
proof (cases "g_use_consistent_hashing G")
  case True
  obtain key where key: "ExtractSrc X p (int n) = Ret key" using assms(5) [OF True] by blast
  obtain sv r where sv: "g_server_list s t = Some sv" "sv_consistent sv = Some r"
    using ch.sync [OF assms(2,3)] by (auto simp: bind_eq_Some_conv)
  then have "Option.bind (g_server_list s t) sv_consistent = Some r" by simp
  with ch.choice_get [OF assms(1-3), of r key] assms(5) [OF True] obtain c b where
    "conn_tbl t s c = Some b" "client_hash_choice X r key = (c, None)" by blast
  with sv key True show ?thesis by (intro that) (auto simp: client_choose_kcp_conn_def)
next
  case False
  obtain sv where sv: "g_server_list s t = Some sv"
    using assms(3) by (auto simp: conn_tbl_def split: option.splits)
  have "conn_tbl t s \<noteq> Map.empty" using assms(3) by auto
  with rr_choice [OF assms(2) sv assms(4), of "Some (p, int n)" G] False obtain c b where
    c: "client_choose_kcp_conn X G orc (Some (p, int n)) t s = Ret ((c, None), upd_sv t (\<lambda>sv. sv\<lparr>sv_last_convid := c\<rparr>) s)"
    "conn_tbl t s c = Some b" by auto
  show ?thesis by (rule that [OF c]) (simp_all add: sv)
qed

lemma server_choose_member:
  assumes "ring_laws X" "server_inv X s" "link_tbl t s k = Some a" "covers orc (dom (link_tbl t s))"
    and "g_use_consistent_hashing G \<Longrightarrow> fits_int X (dom (link_tbl t s)) \<and> (\<exists>key. ExtractDst X p (int n) = Ret key)"
  obtains c b s1 where "server_choose_kcp_conn X G orc (Some (p, int n)) t s = Ret ((c, None), s1)"
    "link_tbl t s c = Some b" "link_tbl t s1 = link_tbl t s" "se_heap s1 = se_heap s" "se_out s1 = se_out s"
    "g_client_list s1 t \<noteq> None"
proof (cases "g_use_consistent_hashing G")
  case True
  obtain key where key: "ExtractDst X p (int n) = Ret key" using assms(5) [OF True] by blast
  obtain ct r where ct: "g_client_list s t = Some ct" "ct_consistent ct = Some r"
    using sh.sync [OF assms(2,3)] by (auto simp: bind_eq_Some_conv)
  then have "Option.bind (g_client_list s t) ct_consistent = Some r" by simp
  with sh.choice_get [OF assms(1-3), of r key] assms(5) [OF True] obtain c b where
    "link_tbl t s c = Some b" "server_hash_choice X r key = (c, None)" by blast
  with ct key True show ?thesis by (intro that) (auto simp: server_choose_kcp_conn_def)
next
  case False
  obtain ct where ct: "g_client_list s t = Some ct"
    using assms(3) by (auto simp: link_tbl_def split: option.splits)
  have "link_tbl t s \<noteq> Map.empty" using assms(3) by auto
  with server_rr_choice [OF assms(2) ct assms(4) False, of "Some (p, int n)"] obtain c b where
    c: "server_choose_kcp_conn X G orc (Some (p, int n)) t s = Ret ((c, None), upd_ct t (\<lambda>ct. ct\<lparr>ct_last_convid := c\<rparr>) s)"
    "link_tbl t s c = Some b" by auto
  show ?thesis by (rule that [OF c]) (simp_all add: ct link_tbl_last)
qed

section \<open>Packets cross the tunnel\<close>

lemma first_byte_data:
  assumes "0 < n" "p \<noteq> []" "p ! 0 \<noteq> 0"
  shows "server_message (take n p) = Data" "client_message (take n p) = Data"
proof -
  have "take n p ! 0 = p ! 0" using assms by simp
  then show "server_message (take n p) = Data" "client_message (take n p) = Data"
    using assms(3) by (simp_all add: server_message_def client_message_def is_hello_def)
qed

lemma client_forwards:
  assumes "ring_laws X" "client_inv X s" "conn_tbl t s k = Some a" "covers orc (dom (conn_tbl t s))"
    and "g_use_consistent_hashing G \<Longrightarrow> fits_int X (dom (conn_tbl t s)) \<and> (\<exists>key. ExtractSrc X p (int n) = Ret key)"
    and "st \<noteq> 0xFFFFFFFF"
  shows "\<exists>c b conn r s1. client_handle_tun_read X G orc t (Inr (p, n)) st None s = Ret (Again 0, s1) \<and>
    conn_tbl t s c = Some b \<and> cl_heap s b = Some conn \<and> sc_session conn = Some r \<and> rs_convid r = c \<and>
    cl_out s1 = cl_out s @ [KcpWriteDeadline (rs_kcp r) g_write_deadline, KcpWrite (rs_kcp r) (take n p)]"
proof -
  obtain c b s1 where c: "client_choose_kcp_conn X G orc (Some (p, int n)) t s = Ret ((c, None), s1)"
    "conn_tbl t s c = Some b" "conn_tbl t s1 = conn_tbl t s" "cl_heap s1 = cl_heap s" "cl_out s1 = cl_out s"
    "g_server_list s1 t \<noteq> None"
    using assms(5) by (rule client_choose_member [OF assms(1-4)])
  obtain conn r where r: "cl_heap s b = Some conn" "sc_session conn = Some r" "rs_convid r = c" "c \<noteq> 0"
    using client_inv_conn_ok [OF assms(2) c(2)] by (auto elim: conn_okD)
  then have "\<exists>s2. client_handle_tun_read X G orc t (Inr (p, n)) st None s = Ret (Again 0, s2) \<and>
      cl_out s2 = cl_out s @ [KcpWriteDeadline (rs_kcp r) g_write_deadline, KcpWrite (rs_kcp r) (take n p)]"
    using c assms(6) by (auto simp: client_handle_tun_read_def client_tun_send_def RatSession_GetState_def
        RatSession_SetWriteDeadline_def RatSession_Write_def)
  with c(2) r show ?thesis by blast
qed

lemma server_forwards:
  assumes "ring_laws X" "server_inv X s" "link_tbl t s k = Some a" "covers orc (dom (link_tbl t s))"
    and "g_use_consistent_hashing G \<Longrightarrow> fits_int X (dom (link_tbl t s)) \<and> (\<exists>key. ExtractDst X p (int n) = Ret key)"
    and "st \<noteq> 0xFFFFFFFF"
  shows "\<exists>c b conn r s1. server_handle_tun_read X G orc t (Inr (p, n)) st None s = Ret s1 \<and>
    link_tbl t s c = Some b \<and> se_heap s b = Some conn \<and> cc_session conn = Some r \<and> rs_convid r = c \<and>
    se_out s1 = se_out s @ [KcpWriteDeadline (rs_kcp r) g_write_deadline, KcpWrite (rs_kcp r) (take n p)]"
proof -
  obtain c b s1 where c: "server_choose_kcp_conn X G orc (Some (p, int n)) t s = Ret ((c, None), s1)"
    "link_tbl t s c = Some b" "link_tbl t s1 = link_tbl t s" "se_heap s1 = se_heap s" "se_out s1 = se_out s"
    "g_client_list s1 t \<noteq> None"
    using assms(5) by (rule server_choose_member [OF assms(1-4)])
  obtain conn r where r: "se_heap s b = Some conn" "cc_session conn = Some r" "rs_convid r = c"
    using server_inv_link_ok [OF assms(2) c(2)] by (auto elim: link_okD)
  then have "\<exists>s2. server_handle_tun_read X G orc t (Inr (p, n)) st None s = Ret s2 \<and>
      se_out s2 = se_out s @ [KcpWriteDeadline (rs_kcp r) g_write_deadline, KcpWrite (rs_kcp r) (take n p)]"
    using c assms(6) by (auto simp: server_handle_tun_read_def server_tun_send_def RatSession_GetState_def
        RatSession_SetWriteDeadline_def RatSession_Write_def)
  with c(2) r show ?thesis by blast
qed

section \<open>A run of the tunnel\<close>

lemma tunnel_join:
  assumes "tunnel_reachable X G G' w" "client_connect_server X G E t src ifname (tn_client w) = Ret c"
  shows "tunnel_reachable X G G' (w\<lparr>tn_client := c\<rparr>)"
proof -
  have quiet: "tunnel_reachable X G G' (u\<lparr>tn_client := d\<rparr>)"
    if "tunnel_reachable X G G' u" "client_event X G Quiet (tn_client u) d" for u d
    using tunnel_reachable.step [OF that(1) tunnel_step.client [OF that(2)]] by simp
  from assms(2) consider (refuse) "client_connect_prepare X G E t src ifname (tn_client w) = Ret (Inl c)"
    | (join) s1 k b wan where "client_connect_prepare X G E t src ifname (tn_client w) = Ret (Inr (s1, k, b, wan))"
        "client_connect_commit X G E t src ifname k b wan s1 = Ret c"
    unfolding client_connect_server_def obind_Ret_iff by (elim exE conjE) (auto split: sum.splits prod.splits)
  then show ?thesis
  proof cases
    case refuse
    then show ?thesis by (intro quiet [OF assms(1)] client_event.refuse)
  next
    case join
    have "tunnel_reachable X G G' (w\<lparr>tn_client := s1\<rparr>)" by (intro quiet [OF assms(1)] client_event.prepare) (rule join(1))
    from quiet [OF this] join(2) show ?thesis by (simp add: client_event.commit)
  qed
qed

lemma tunnel_accept:
  assumes "tunnel_reachable X G G' w" "server_accept_conn X G' E t k (tn_server w) = Ret (a, d)"
  shows "tunnel_reachable X G G' (w\<lparr>tn_server := d\<rparr>)"
  using tunnel_reachable.step [OF assms(1) tunnel_step.server [OF server_event.accept [OF assms(2)]]] by simp

definition demo_tunnel :: "string list tunnel_system" where
  "demo_tunnel = init_tunnel\<lparr>tn_client := demo_client2, tn_server := demo_server2\<rparr>"


lemma demo_tunnel_reachable: "tunnel_reachable demo_ext demo_globals demo_globals demo_tunnel"
proof -
  let ?R = "tunnel_reachable demo_ext demo_globals demo_globals"
  have "?R (init_tunnel\<lparr>tn_client := demo_client1\<rparr>)"
    by (rule tunnel_join [OF tunnel_reachable.start]) (use demo_client1_eq in \<open>simp add: init_tunnel_def\<close>)
  from tunnel_join [OF this] demo_client2_eq have "?R (init_tunnel\<lparr>tn_client := demo_client2\<rparr>)" by simp
  from tunnel_accept [OF this] demo_server1_eq
  have "?R (init_tunnel\<lparr>tn_client := demo_client2, tn_server := demo_server1\<rparr>)" by (simp add: init_tunnel_def)
  from tunnel_accept [OF this] demo_server2_eq show ?thesis by (simp add: demo_tunnel_def)
qed

lemma demo_packet_ok:
  "demo_packet \<noteq> []" "demo_packet ! 0 \<noteq> 0" "take 28 demo_packet = demo_packet"
  "\<exists>key. ExtractSrc demo_ext demo_packet (int 28) = Ret key"
  "demo_answer \<noteq> []" "demo_answer ! 0 \<noteq> 0" "take 28 demo_answer = demo_answer"
  "\<exists>key. ExtractDst demo_ext demo_answer (int 28) = Ret key"
  by (simp_all add: demo_packet_def demo_answer_def ExtractSrc_def ExtractDst_def demo_ext_def demo_ParseHeader_def Let_def)

lemma demo_server_tun: "\<exists>ct. g_client_list demo_server2 660 = Some ct \<and> ct_iface ct = Some ''tun660''"
proof -
  have "Option.bind (g_client_list demo_server2 660) ct_iface = Some ''tun660''" by code_simp
  then show ?thesis by (auto simp: bind_eq_Some_conv)
qed

lemma demo_client_tun: "\<exists>sv. g_server_list demo_client2 660 = Some sv \<and> sv_iface sv = Some ''tun660''"
proof -
  have "Option.bind (g_server_list demo_client2 660) sv_iface = Some ''tun660''" by code_simp
  then show ?thesis by (auto simp: bind_eq_Some_conv)
qed

section \<open>Packets cross\<close>

text \<open>
  C2: a packet that the client reads from its tun device (any packet whose first byte is not 0, as that
  of an IP packet) is written whole and unchanged to one session of the bond, and when the server
  receives it on that session it writes it whole and unchanged to its tun device; neither end does anything
  else with it. Under either scheduler.
\<close>

theorem packet_to_server:
  assumes "ring_laws X" "client_reachable X G s" "conn_tbl t s k = Some a" "covers orc (dom (conn_tbl t s))"
    and "g_use_consistent_hashing G \<longrightarrow> fits_int X (dom (conn_tbl t s)) \<and> (\<exists>key. ExtractSrc X p (int n) = Ret key)"
    and "st \<noteq> 0xFFFFFFFF" "0 < n" "p \<noteq> []" "p ! 0 \<noteq> 0"
    and "g_client_list s' t = Some ct" "ct_iface ct = Some i"
  shows "\<exists>c b conn r s1 s2. client_handle_tun_read X G orc t (Inr (p, n)) st None s = Ret (Again 0, s1) \<and>
    conn_tbl t s c = Some b \<and> cl_heap s b = Some conn \<and> sc_session conn = Some r \<and> rs_convid r = c \<and>
    cl_out s1 = cl_out s @ [KcpWriteDeadline (rs_kcp r) g_write_deadline, KcpWrite (rs_kcp r) (take n p)] \<and>
    server_accept_read X orc' t c a' (Inr (take n p)) now1 now2 None s' = Ret (Continue, s2) \<and>
    se_out s2 = se_out s' @ [TunWrite i (take n p)] \<and> link_tbl t s2 = link_tbl t s'"
proof -
  have "\<exists>s2. server_accept_read X orc' t c a' (Inr (take n p)) now1 now2 None s' = Ret (Continue, s2) \<and>
      se_out s2 = se_out s' @ [TunWrite i (take n p)] \<and> link_tbl t s2 = link_tbl t s'" for c
    using assms(10,11) first_byte_data(1) [OF assms(7-9)] by (simp add: server_accept_read_def Let_def)
  moreover note client_forwards [OF assms(1) client_reachable_inv [OF assms(1,2)] assms(3,4) _ assms(6), of G p n]
  ultimately show ?thesis using assms(5) by meson
qed

theorem packet_to_server_witness:
  "\<exists>c r s1 s2. client_handle_tun_read demo_ext demo_globals demo_orc 660 (Inr (demo_packet, 28)) 0 None demo_client2 = Ret (Again 0, s1) \<and>
    last (cl_out s1) = KcpWrite r demo_packet \<and>
    server_accept_read demo_ext demo_orc 660 c 0 (Inr demo_packet) 0 0 None demo_server2 = Ret (Continue, s2) \<and>
    last (se_out s2) = TunWrite ''tun660'' demo_packet"
proof -
  have k: "conn_tbl 660 demo_client2 660 = Some 0" by (simp add: demo_conn_tbl)
  obtain ct where ct: "g_client_list demo_server2 660 = Some ct" "ct_iface ct = Some ''tun660''" using demo_server_tun by blast
  have h: "g_use_consistent_hashing demo_globals \<longrightarrow> fits_int demo_ext (dom (conn_tbl 660 demo_client2)) \<and>
    (\<exists>key. ExtractSrc demo_ext demo_packet (int 28) = Ret key)" using demo_fits demo_packet_ok(4) by blast
  have "(0 :: u32) \<noteq> 0xFFFFFFFF" "(0 :: nat) < 28" by simp_all
  from packet_to_server [where orc' = demo_orc and a' = 0 and ?now1.0 = 0 and ?now2.0 = 0, OF demo_ring_laws demo_reachable k demo_covers_tbl h this demo_packet_ok(1,2) ct]
  obtain c r s1 s2 where r: "client_handle_tun_read demo_ext demo_globals demo_orc 660 (Inr (demo_packet, 28)) 0 None demo_client2 = Ret (Again 0, s1)"
    "cl_out s1 = cl_out demo_client2 @ [KcpWriteDeadline r g_write_deadline, KcpWrite r demo_packet]"
    "server_accept_read demo_ext demo_orc 660 c 0 (Inr demo_packet) 0 0 None demo_server2 = Ret (Continue, s2)"
    "se_out s2 = se_out demo_server2 @ [TunWrite ''tun660'' demo_packet]" unfolding demo_packet_ok(3)
    by (elim exE conjE) (rule that)
  have "last (cl_out s1) = KcpWrite r demo_packet" "last (se_out s2) = TunWrite ''tun660'' demo_packet"
    using r(2,4) by simp_all
  with r(1,3) show ?thesis by (intro exI conjI)
qed

text \<open>
  C3: and back: a packet that the server reads from its tun device is written to one session of the
  bond, and when the client receives it it writes it to its tun device, whole and unchanged.
\<close>

theorem packet_to_client:
  assumes "ring_laws X" "server_reachable X G s" "link_tbl t s k = Some a" "covers orc (dom (link_tbl t s))"
    and "g_use_consistent_hashing G \<longrightarrow> fits_int X (dom (link_tbl t s)) \<and> (\<exists>key. ExtractDst X p (int n) = Ret key)"
    and "st \<noteq> 0xFFFFFFFF" "0 < n" "p \<noteq> []" "p ! 0 \<noteq> 0"
    and "g_server_list s' t = Some sv" "sv_iface sv = Some i" "cl_heap s' a' = Some conn'"
  shows "\<exists>c b conn r s1 s2. server_handle_tun_read X G orc t (Inr (p, n)) st None s = Ret s1 \<and>
    link_tbl t s c = Some b \<and> se_heap s b = Some conn \<and> cc_session conn = Some r \<and> rs_convid r = c \<and>
    se_out s1 = se_out s @ [KcpWriteDeadline (rs_kcp r) g_write_deadline, KcpWrite (rs_kcp r) (take n p)] \<and>
    client_handle_kcp_read X G' orc' t a' (Inr (take n p)) now1 now2 m s' = Ret (Again 0, s2) \<and>
    cl_out s2 = cl_out s' @ [TunWrite i (take n p)] \<and> conn_tbl t s2 = conn_tbl t s'"
proof -
  have "\<not> is_hello (take n p)" using first_byte_data(2) [OF assms(7-9)] by (simp add: client_message_def split: if_splits)
  then have "\<exists>s2. client_handle_kcp_read X G' orc' t a' (Inr (take n p)) now1 now2 m s' = Ret (Again 0, s2) \<and>
      cl_out s2 = cl_out s' @ [TunWrite i (take n p)] \<and> conn_tbl t s2 = conn_tbl t s'"
    using assms(10-12) by (simp add: client_handle_kcp_read_def Let_def)
  moreover note server_forwards [OF assms(1) server_reachable_inv [OF assms(1,2)] assms(3,4) _ assms(6), of G p n]
  ultimately show ?thesis using assms(5) by meson
qed


theorem packet_to_client_witness:
  "\<exists>r s1 s2. server_handle_tun_read demo_ext demo_globals demo_orc 660 (Inr (demo_answer, 28)) 0 None demo_server2 = Ret s1 \<and>
    last (se_out s1) = KcpWrite r demo_answer \<and>
    client_handle_kcp_read demo_ext demo_globals demo_orc 660 0 (Inr demo_answer) 0 0 0 demo_client2 = Ret (Again 0, s2) \<and>
    last (cl_out s2) = TunWrite ''tun660'' demo_answer"
proof -
  have k: "link_tbl 660 demo_server2 660 = Some 0" by (simp add: demo_link_tbl)
  obtain sv where sv: "g_server_list demo_client2 660 = Some sv" "sv_iface sv = Some ''tun660''" using demo_client_tun by blast
  obtain conn where conn: "cl_heap demo_client2 0 = Some conn"
    using client_inv_conn_ok [OF demo_inv, of 660 660 0] by (auto simp: demo_conn_tbl elim: conn_okD)
  have "dom (link_tbl 660 demo_server2) = dom (conn_tbl 660 demo_client2)" by (auto simp: demo_conn_tbl demo_link_tbl)
  then have h: "g_use_consistent_hashing demo_globals \<longrightarrow> fits_int demo_ext (dom (link_tbl 660 demo_server2)) \<and>
    (\<exists>key. ExtractDst demo_ext demo_answer (int 28) = Ret key)" using demo_fits demo_packet_ok(8) by simp
  have "(0 :: u32) \<noteq> 0xFFFFFFFF" "(0 :: nat) < 28" by simp_all
  from packet_to_client [where orc' = demo_orc and m = 0 and ?now1.0 = 0 and ?now2.0 = 0 and G' = demo_globals,
      OF demo_ring_laws demo_server_reachable k demo_covers_links h this demo_packet_ok(5,6) sv conn]
  obtain r s1 s2 where r: "server_handle_tun_read demo_ext demo_globals demo_orc 660 (Inr (demo_answer, 28)) 0 None demo_server2 = Ret s1"
    "se_out s1 = se_out demo_server2 @ [KcpWriteDeadline r g_write_deadline, KcpWrite r demo_answer]"
    "client_handle_kcp_read demo_ext demo_globals demo_orc 660 0 (Inr demo_answer) 0 0 0 demo_client2 = Ret (Again 0, s2)"
    "cl_out s2 = cl_out demo_client2 @ [TunWrite ''tun660'' demo_answer]" unfolding demo_packet_ok(7)
    by (elim exE conjE) (rule that)
  have "last (se_out s1) = KcpWrite r demo_answer" "last (cl_out s2) = TunWrite ''tun660'' demo_answer"
    using r(2,4) by simp_all
  with r(1,3) show ?thesis by (intro exI conjI)
qed

section \<open>Nothing else crosses the tunnel\<close>



end
