(* ===== verification/Netlink_Properties.thy ===== *)
theory Netlink_Properties
  imports Scenario
begin

text \<open>
  The properties of the reactions to the kernel's messages: which messages matter, what a lost
  interface or default route takes out of the bond, and that no sequence of messages breaks it.
\<close>

section \<open>Any sequence of messages\<close>

text \<open>
  Whatever interface and route messages arrive, in whatever order, and whatever the network
  answers to the joins they cause, the bonds stay in order.
\<close>

theorem netlink_keeps_bonds:
  assumes "ring_laws X" "client_reachable X G s"
    and "netlink_subscribe_ifaces X G t links s = Ret s1" "netlink_subscribe_routes X G t routes s1 = Ret s2"
  shows "client_reachable X G s2 \<and> client_inv X s2"
proof -
  have "client_reachable X G s1"
    using iface_update_reachable assms(2) assms(3) [unfolded netlink_subscribe_ifaces_def] by (rule ofold_keeps)
  with route_update_reachable have "client_reachable X G s2"
    by (rule ofold_keeps [OF _ _ assms(4) [unfolded netlink_subscribe_routes_def]])
  with client_reachable_inv [OF assms(1)] show ?thesis by blast
qed

definition default_net :: ipnet where
  "default_net = \<lparr>net_IP = [0, 0, 0, 0], net_Mask = [0, 0, 0, 0]\<rparr>"

definition demo_route :: "u16 \<Rightarrow> ip option \<Rightarrow> route_update" where
  "demo_route ty src = \<lparr>ru_Type = ty, ru_Route = \<lparr>rt_LinkIndex = 3, rt_Dst = Some default_net, rt_Src = src,
     rt_Gw = None, rt_Table = 100\<rparr>\<rparr>"

definition demo_route_env :: "go_error + string \<Rightarrow> route_env" where
  "demo_route_env i = \<lparr>re_InterfaceByIndex = (\<lambda>_. i), re_connect = demo_env 9, re_answers = demo_orc\<rparr>"

theorem netlink_keeps_bonds_witness:
  "\<exists>s2. netlink_subscribe_routes demo_ext demo_globals 660
      [(demo_route RTM_NEWROUTE None, demo_route_env (Inr ''eth0''))] demo_client2 = Ret s2 \<and> client_inv demo_ext s2"
proof -
  let ?u = "[(\<lparr>lu_Name = ''eth0'', lu_OperState = ''up''\<rparr>, demo_orc)]"
  have a: "netlink_subscribe_ifaces demo_ext demo_globals 660 ?u demo_client2 = Ret demo_client2"
    by (simp add: netlink_subscribe_ifaces_def netlink_iface_update_def)
  have b: "netlink_subscribe_routes demo_ext demo_globals 660
      [(demo_route RTM_NEWROUTE None, demo_route_env (Inr ''eth0''))] demo_client2 = Ret demo_client2"
    by (simp add: netlink_subscribe_routes_def handle_route_update_def demo_route_def RTM_NEWROUTE_def RTM_DELROUTE_def Let_def)
  from netlink_keeps_bonds [OF demo_ring_laws demo_reachable a b] b show ?thesis by blast
qed

section \<open>Interfaces\<close>

text \<open>
  C19: when an interface goes down that is no tunnel device, exactly the connections over it leave
  the bond; messages about tunnel devices and about any other state change nothing.
\<close>

theorem link_down_removes:
  assumes "ring_laws X" "client_inv X s" "covers orc (dom (conn_tbl t s))"
  shows "if str_contains (lu_Name u) ''tun'' \<or> lu_OperState u \<noteq> ''down''
    then netlink_iface_update X G t (u, orc) s = Ret s
    else \<exists>s'. netlink_iface_update X G t (u, orc) s = Ret s' \<and> client_inv X s' \<and>
      (\<forall>k a. conn_tbl t s' k = Some a \<longleftrightarrow>
         conn_tbl t s k = Some a \<and> (\<forall>c. cl_heap s a = Some c \<longrightarrow> sc_ifname c \<noteq> lu_Name u))"
proof (cases "g_server_list s t")
  case None
  with assms(2) show ?thesis
    by (simp add: netlink_iface_update_def client_disconnect_session_by_ifname_def conn_tbl_def Let_def)
next
  case (Some sv)
  obtain s' where "client_disconnect_where X G orc t (\<lambda>c. sc_ifname c = lu_Name u) s = Ret s'" "client_inv X s'"
    "conn_tbl t s' = keep_unless UNIV (selects (\<lambda>c. sc_ifname c = lu_Name u) s) (conn_tbl t s)"
    using client_disconnect_where_ok [OF assms(1,2) _ assms(3), of "\<lambda>c. sc_ifname c = lu_Name u" G] by auto
  with Some show ?thesis
    by (auto simp: netlink_iface_update_def client_disconnect_session_by_ifname_def Let_def keep_unless_selects)
qed

theorem link_down_removes_witness:
  "netlink_iface_update demo_ext demo_globals 660 (\<lparr>lu_Name = ''tun660'', lu_OperState = ''down''\<rparr>, demo_orc) demo_client2 =
     Ret demo_client2 \<and>
   (\<exists>s'. netlink_iface_update demo_ext demo_globals 660 (\<lparr>lu_Name = ''eth0'', lu_OperState = ''down''\<rparr>, demo_orc) demo_client2 =
     Ret s' \<and> conn_tbl 660 s' 661 = Some 1)"
proof -
  note th = link_down_removes [OF demo_ring_laws demo_inv demo_covers_tbl [of 660]]
  have "conn_tbl 660 demo_client2 661 = Some 1" by (simp add: demo_conn_tbl)
  moreover have "\<forall>c. cl_heap demo_client2 1 = Some c \<longrightarrow> sc_ifname c \<noteq> ''eth0''" using demo_heap(2) by auto
  ultimately show ?thesis
    using th [of "\<lparr>lu_Name = ''eth0'', lu_OperState = ''down''\<rparr>" demo_globals]
      th [of "\<lparr>lu_Name = ''tun660'', lu_OperState = ''down''\<rparr>" demo_globals] by auto
qed

section \<open>Routes\<close>

text \<open>
  The client reacts to default routes only: a message about any other IPv4 destination, about
  the main routing table, without a source address, or of another type changes nothing.
\<close>

theorem other_routes_ignored:
  assumes "rt_Dst (ru_Route u) = Some \<lparr>net_IP = q, net_Mask = cidr_bytes n 4\<rparr>" "length q = 4" "n \<le> 32"
    and "q \<noteq> [0, 0, 0, 0] \<or> n \<noteq> 0 \<or> rt_Table (ru_Route u) = 254 \<or> rt_Src (ru_Route u) = None \<or>
      ru_Type u \<notin> {24, 25}"
  shows "handle_route_update X G t (u, E) s = Ret s"
  using assms IPNet_String_default [OF assms(2,3), of "ipv6_String X"]
  by (auto simp: handle_route_update_def RTM_NEWROUTE_def RTM_DELROUTE_def Let_def split: option.splits)

theorem other_routes_ignored_witness:
  "handle_route_update demo_ext demo_globals 660
     (\<lparr>ru_Type = 24, ru_Route = \<lparr>rt_LinkIndex = 3, rt_Dst = Some \<lparr>net_IP = [10, 0, 0, 0], net_Mask = cidr_bytes 8 4\<rparr>,
       rt_Src = Some [10, 0, 0, 1], rt_Gw = None, rt_Table = 100\<rparr>\<rparr>, demo_route_env (Inr ''eth0'')) demo_client2 =
     Ret demo_client2"
  by (rule other_routes_ignored [where q = "[10, 0, 0, 0]" and n = 8]) simp_all

lemma default_text: "rt_Dst r = Some \<lparr>net_IP = [0, 0, 0, 0], net_Mask = [0, 0, 0, 0]\<rparr> \<Longrightarrow>
  IPNet_String v6 (rt_Dst r) = ''0.0.0.0/0''"
proof -
  assume "rt_Dst r = Some \<lparr>net_IP = [0, 0, 0, 0], net_Mask = [0, 0, 0, 0]\<rparr>"
  moreover have "cidr_bytes 0 4 = [0, 0, 0, 0]" by code_simp
  ultimately show ?thesis using IPNet_String_default [of "[0, 0, 0, 0]" 0 v6] by simp
qed

text \<open>
  When a default route outside the main table disappears, exactly the connections from its
  source address leave the bond.
\<close>

theorem default_route_removed:
  assumes "ring_laws X" "client_inv X s" "covers (re_answers E) (dom (conn_tbl t s))" "g_server_list s t = Some sv"
    and "ru_Type u = 25" "rt_Dst (ru_Route u) = Some \<lparr>net_IP = [0, 0, 0, 0], net_Mask = [0, 0, 0, 0]\<rparr>"
    and "rt_Table (ru_Route u) \<noteq> 254" "rt_Src (ru_Route u) = Some q" "length q = 4"
    and "re_InterfaceByIndex E (rt_LinkIndex (ru_Route u)) = Inr ifname"
  shows "\<exists>s'. handle_route_update X G t (u, E) s = Ret s' \<and> client_inv X s' \<and>
    (\<forall>k a. conn_tbl t s' k = Some a \<longleftrightarrow>
       conn_tbl t s k = Some a \<and> (\<forall>c. cl_heap s a = Some c \<longrightarrow> sc_src_address c \<noteq> dotted q))"
proof -
  obtain s' where "client_disconnect_where X G (re_answers E) t (\<lambda>c. sc_src_address c = dotted q) s = Ret s'"
    "client_inv X s'"
    "conn_tbl t s' = keep_unless UNIV (selects (\<lambda>c. sc_src_address c = dotted q) s) (conn_tbl t s)"
    using client_disconnect_where_ok [OF assms(1,2) _ assms(3), of "\<lambda>c. sc_src_address c = dotted q" G] by auto
  then show ?thesis
    using assms(4-10) default_text [OF assms(6)]
    by (auto simp: handle_route_update_def client_disconnect_session_by_src_def RTM_NEWROUTE_def RTM_DELROUTE_def
        Let_def keep_unless_selects)
qed

theorem default_route_removed_witness:
  "\<exists>s'. handle_route_update demo_ext demo_globals 660
      (demo_route 25 (Some [192, 168, 8, 2]), demo_route_env (Inr ''wlan0'')) demo_client2 = Ret s' \<and>
    conn_tbl 660 s' 660 = Some 0"
proof -
  let ?E = "demo_route_env (Inr ''wlan0'')" and ?u = "demo_route 25 (Some [192, 168, 8, 2])"
  obtain sv where sv: "g_server_list demo_client2 660 = Some sv" using demo_conns by auto
  have cov: "covers (re_answers ?E) (dom (conn_tbl 660 demo_client2))"
    using demo_covers_tbl by (simp add: demo_route_env_def)
  have d: "dotted [192, 168, 8, 2] = ''192.168.8.2''" by code_simp
  have "\<forall>c. cl_heap demo_client2 0 = Some c \<longrightarrow> sc_src_address c \<noteq> ''192.168.8.2''" using demo_heap(1) by auto
  moreover have "conn_tbl 660 demo_client2 660 = Some 0" by (simp add: demo_conn_tbl)
  ultimately show ?thesis
    using default_route_removed [OF demo_ring_laws demo_inv cov sv, of ?u "[192, 168, 8, 2]" "''wlan0''" demo_globals]
    by (auto simp: demo_route_def default_net_def demo_route_env_def d simp del: dotted.simps)
qed

text \<open>
  When the interface of a new or removed default route no longer exists, the client panics.
\<close>

theorem vanished_interface_panics:
  assumes "ru_Type u = 24 \<or> ru_Type u = 25"
    and "rt_Dst (ru_Route u) = Some \<lparr>net_IP = [0, 0, 0, 0], net_Mask = [0, 0, 0, 0]\<rparr>"
    and "rt_Table (ru_Route u) \<noteq> 254" "rt_Src (ru_Route u) = Some q"
    and "re_InterfaceByIndex E (rt_LinkIndex (ru_Route u)) = Inl e"
  shows "handle_route_update X G t (u, E) s = Panic ''nil pointer dereference''"
  using assms default_text [OF assms(2)]
  by (auto simp: handle_route_update_def RTM_NEWROUTE_def RTM_DELROUTE_def Let_def)

theorem vanished_interface_panics_witness:
  "handle_route_update demo_ext demo_globals 660
      (demo_route 25 (Some [192, 168, 8, 2]), demo_route_env (Inl ''no such network interface'')) demo_client2 =
     Panic ''nil pointer dereference''"
  by (rule vanished_interface_panics) (simp_all add: demo_route_def default_net_def demo_route_env_def)

end
