(* ===== verification/Bond_Spec.thy ===== *)
theory Bond_Spec
  imports Prelude
begin

text \<open>
  What a bond is, without its implementation: for every tunnel a set of conversations, empty at the
  start, to which one conversation at a time is joined and from which conversations leave. An end
  of the program implements this when its steps are simulated by these.
\<close>

type_synonym bonds = "u32 \<Rightarrow> u32 set"

inductive bond_step :: "bonds \<Rightarrow> bonds \<Rightarrow> bool" where
  join: "bond_step B (B(t := insert k (B t)))"
| leave: "(\<And>t. B' t \<subseteq> B t) \<Longrightarrow> bond_step B B'"

inductive_simps bond_step_iff: "bond_step B B'"

lemma bond_step_refl [simp, intro]: "bond_step B B"
  by (rule bond_step.leave) simp

text \<open>A conversation of a bond has been joined to it, and one step joins at most one.\<close>

lemma bond_step_new:
  assumes "bond_step B B'" "k \<in> B' t" "k \<notin> B t"
  shows "\<forall>t'. B' t' - B t' = (if t' = t then {k} else {})"
  using assms by (auto simp: bond_step_iff split: if_splits)

text \<open>
  The contract of an implementation: \<open>ids\<close> reads the abstract state off a concrete one, \<open>inv\<close> is the
  invariant the simulation rests on.
\<close>

locale bond_refinement =
  fixes init :: 's
    and step :: "'s \<Rightarrow> 's \<Rightarrow> bool"
    and inv :: "'s \<Rightarrow> bool"
    and ids :: "'s \<Rightarrow> bonds"
  assumes init_ids: "ids init = (\<lambda>t. {})"
    and inv_init: "inv init"
    and inv_step: "inv s \<Longrightarrow> step s s' \<Longrightarrow> inv s'"
    and simulates: "inv s \<Longrightarrow> step s s' \<Longrightarrow> bond_step (ids s) (ids s')"
begin

lemma run_inv: "step\<^sup>*\<^sup>* init s \<Longrightarrow> inv s"
  by (induction rule: rtranclp_induct) (auto intro: inv_init inv_step)

lemma run_refines: "step\<^sup>*\<^sup>* init s \<Longrightarrow> bond_step\<^sup>*\<^sup>* (\<lambda>t. {}) (ids s)"
proof (induction rule: rtranclp_induct)
  case base
  show ?case by (simp add: init_ids)
next
  case (step s s')
  then show ?case using simulates [OF run_inv] by (auto intro: rtranclp.rtrancl_into_rtrancl)
qed

end

section \<open>Maps that lose entries only\<close>

text \<open>What happens to a tunnel's connection map in every step but a join: it may lose entries, no more.\<close>

definition shrinks :: "'v gomap option \<Rightarrow> 'v gomap option \<Rightarrow> bool" where
  "shrinks m m' \<longleftrightarrow> (m' = None \<longleftrightarrow> m = None) \<and>
     (\<forall>k v. map_of (case m' of None \<Rightarrow> [] | Some l \<Rightarrow> l) k = Some v \<longrightarrow>
        map_of (case m of None \<Rightarrow> [] | Some l \<Rightarrow> l) k = Some v)"

lemma shrinks_refl [simp, intro]: "shrinks m m"
  by (simp add: shrinks_def)

lemma shrinks_trans: "shrinks a b \<Longrightarrow> shrinks b c \<Longrightarrow> shrinks a c"
  by (auto simp: shrinks_def)

lemma shrinks_del [simp, intro]: "shrinks m (map_option (gm_del k) m)"
  by (cases m) (auto simp: shrinks_def split: if_splits)

lemma rel_option_trans:
  assumes "rel_option R x y" "rel_option R y z" "\<And>a b c. R a b \<Longrightarrow> R b c \<Longrightarrow> R a c"
  shows "rel_option R x z"
  using assms by (cases x; cases y; cases z) auto

end
