(* ===== verification/Bond_Refinement.thy ===== *)
theory Bond_Refinement
  imports Client_Steps Server_Steps Bond_Spec
begin

text \<open>
  Both ends implement the abstract bond (\<^verbatim>\<open>Bond_Spec\<close>): every step of the client and of the server is
  a join or a departure of conversations. On the way: no operation but a join touches a
  connection map other than by deleting from it.
\<close>

section \<open>The client\<close>

definition client_shrinks :: "'r client \<Rightarrow> 'r client \<Rightarrow> bool" where
  "client_shrinks s s' \<longleftrightarrow>
     (\<forall>t. rel_option (\<lambda>sv sv'. shrinks (sv_connections sv) (sv_connections sv')) (g_server_list s t) (g_server_list s' t))"

lemma client_shrinks_same: "g_server_list s' = g_server_list s \<Longrightarrow> client_shrinks s s'"
  by (simp add: client_shrinks_def option.rel_refl)

lemma client_shrinks_refl [simp, intro]: "client_shrinks s s"
  by (simp add: client_shrinks_same)

lemma client_shrinks_trans [trans]: "client_shrinks s u \<Longrightarrow> client_shrinks u v \<Longrightarrow> client_shrinks s v"
  unfolding client_shrinks_def by (blast intro: rel_option_trans shrinks_trans)

lemma client_shrinks_touch [simp]:
  "client_shrinks s (emit es u) = client_shrinks s u"
  "client_shrinks s (upd_conn a f u) = client_shrinks s u"
  by (simp_all add: client_shrinks_def)

lemma client_shrinks_paths [simp]: "client_shrinks s (client_check_paths G route u) = client_shrinks s u"
  by (simp add: client_shrinks_def)

lemma client_shrinks_upd_sv:
  assumes "client_shrinks s u" "\<And>sv. shrinks (sv_connections sv) (sv_connections (f sv))"
  shows "client_shrinks s (upd_sv t f u)"
proof -
  have "client_shrinks u (upd_sv t f u)"
    using assms(2) by (auto simp: client_shrinks_def option.rel_refl option.rel_map intro!: option.rel_refl)
  with assms(1) show ?thesis by (rule client_shrinks_trans)
qed

lemma client_shrinks_ids: "client_shrinks s s' \<Longrightarrow> dom (conn_tbl t s') \<subseteq> dom (conn_tbl t s)"
  unfolding client_shrinks_def
  by (drule spec [of _ t]) (auto simp: conn_tbl_def sv_conns_def shrinks_def split: option.splits)

lemma client_shrinks_range:
  assumes "\<And>k v u u'. body k v u = Ret u' \<Longrightarrow> client_shrinks u u'" "for_range tbl body ks s = Ret s'"
  shows "client_shrinks s s'"
  by (rule for_range_keeps [where I = "client_shrinks s", OF _ client_shrinks_refl assms(2)])
     (blast intro: client_shrinks_trans assms(1))

lemma choose_shrinks:
  "client_choose_kcp_conn X G orc packet t s = Ret ((c, err), s') \<Longrightarrow> client_shrinks s s'"
  by (auto simp: client_choose_kcp_conn_def Let_def outcome_simps split: if_splits intro!: client_shrinks_upd_sv)

lemma close_shrinks: "client_close_connection X t a k s = Ret s' \<Longrightarrow> client_shrinks s s'"
  by (auto simp: client_close_connection_def outcome_simps intro!: client_shrinks_upd_sv)

lemma linkdown_shrinks: "client_send_linkdown_message X G orc t d s = Ret s' \<Longrightarrow> client_shrinks s s'"
  by (auto simp: client_send_linkdown_message_def outcome_simps Let_def case_prod_beta
      split: if_splits option.splits dest!: choose_shrinks)

lemma disconnect_where_shrinks: "client_disconnect_where X G orc t P s = Ret s' \<Longrightarrow> client_shrinks s s'"
  unfolding client_disconnect_where_def
  by (erule client_shrinks_range [rotated])
     (auto simp: client_disconnect_body_def outcome_simps split: if_splits
       dest!: close_shrinks linkdown_shrinks intro: client_shrinks_trans)

lemma disconnect_shrinks:
  "client_disconnect_session_by_convid X G orc t d s = Ret s' \<Longrightarrow> client_shrinks s s'"
  "client_disconnect_session_by_src X G orc t src s = Ret s' \<Longrightarrow> client_shrinks s s'"
  "client_disconnect_session_by_ifname X G orc t ifname s = Ret s' \<Longrightarrow> client_shrinks s s'"
  by (auto simp: client_disconnect_session_by_convid_def client_disconnect_session_by_src_def
      client_disconnect_session_by_ifname_def split: option.splits intro: disconnect_where_shrinks)

lemma disconnect_after_touch:
  "client_disconnect_session_by_convid X G orc t d (upd_conn a f u) = Ret s' \<Longrightarrow> client_shrinks u s'"
  "client_disconnect_session_by_convid X G orc t d (emit es u) = Ret s' \<Longrightarrow> client_shrinks u s'"
  "client_disconnect_session_by_convid X G orc t d (upd_conn a f (emit es u)) = Ret s' \<Longrightarrow> client_shrinks u s'"
  by (auto dest!: disconnect_shrinks(1) simp: client_shrinks_def)

lemma reader_shrinks:
  "client_handle_kcp_begin X G orc t a st n s = Ret (ctl, s') \<Longrightarrow> client_shrinks s s'"
  "client_handle_kcp_read X G orc t a result now1 now2 n s = Ret (ctl, s') \<Longrightarrow> client_shrinks s s'"
  by (cases result; auto simp: client_handle_kcp_begin_def client_handle_kcp_read_def outcome_simps Let_def
      split: if_splits option.splits dest: disconnect_shrinks(1) disconnect_after_touch)+

lemma send_hello_shrinks: "client_send_hello X G orc a base s = Ret s' \<Longrightarrow> client_shrinks s s'"
  by (auto simp: client_send_hello_def outcome_simps Let_def case_prod_beta split: if_splits
      dest!: disconnect_after_touch)

lemma ping_body_shrinks: "client_ping_body X G orc t k a s = Ret s' \<Longrightarrow> client_shrinks s s'"
  by (auto simp: client_ping_body_def outcome_simps Let_def split: if_splits dest: disconnect_shrinks(1))

lemma pings_shrinks: "client_send_server_pings X G orc s = Ret s' \<Longrightarrow> client_shrinks s s'"
  unfolding client_send_server_pings_def
  by (erule client_shrinks_range [rotated], erule client_shrinks_range [rotated]) (rule ping_body_shrinks)

lemma tun_send_shrinks: "client_tun_send X G orc t a data st wr s = Ret s' \<Longrightarrow> client_shrinks s s'"
  by (auto simp: client_tun_send_def outcome_simps Let_def case_prod_beta split: if_splits
      dest: disconnect_shrinks(1) disconnect_after_touch)

lemma tun_read_shrinks: "client_handle_tun_read X G orc t result st wr s = Ret (ctl, s') \<Longrightarrow> client_shrinks s s'"
  by (auto simp: client_handle_tun_read_def outcome_simps split: sum.splits if_splits option.splits
      dest!: choose_shrinks tun_send_shrinks intro: client_shrinks_trans)

lemma prepare_ids:
  "client_connect_prepare X G E t src ifname s = Ret (Inl s') \<Longrightarrow> conn_tbl t' s' = conn_tbl t' s"
  "client_connect_prepare X G E t src ifname s = Ret (Inr (s', k, b, w)) \<Longrightarrow> conn_tbl t' s' = conn_tbl t' s"
  by (auto simp: client_connect_prepare_def client_ensure_tun_def client_ensure_map_def outcome_simps Let_def
      case_prod_beta conn_tbl_def sv_conns_def new_serverType_def split: if_splits option.splits)

lemma commit_ids:
  assumes "client_connect_commit X G E t src ifname k b w s = Ret s'"
  shows "(\<lambda>u. dom (conn_tbl u s')) = (\<lambda>u. dom (conn_tbl u s))(t := insert k (dom (conn_tbl t s)))"
  using assms by (elim connect_commit_eq) (auto simp: conn_tbl_def sv_conns_def fun_eq_iff)

lemma client_simulates:
  assumes "client_step X G s s'"
  shows "bond_step (\<lambda>t. dom (conn_tbl t s)) (\<lambda>t. dom (conn_tbl t s'))"
proof -
  have quiet: ?thesis if "client_shrinks s s'"
    by (rule bond_step.leave) (rule client_shrinks_ids [OF that])
  from assms show ?thesis
  proof cases
    case refuse
    then show ?thesis by (simp add: prepare_ids)
  next
    case prepare
    then show ?thesis by (simp add: prepare_ids)
  next
    case (commit E t src ifname k b w)
    show ?thesis
      unfolding commit_ids [OF commit] using bond_step.join [of "\<lambda>t. dom (conn_tbl t s)" t k] by simp
  qed (auto intro!: quiet dest: disconnect_shrinks reader_shrinks send_hello_shrinks pings_shrinks tun_read_shrinks)
qed

lemma client_init_ids: "dom (conn_tbl t init_client) = {}"
  by (simp add: conn_tbl_def init_client_def)

interpretation client_bond: bond_refinement init_client "client_step X G"
  "\<lambda>s. ring_laws X \<longrightarrow> client_inv X s" "\<lambda>s t. dom (conn_tbl t s)"
  for X :: "'r ext" and G
  by unfold_locales
     (simp_all add: client_init_ids client_inv_init client_simulates, blast intro: client_step_inv)

lemma client_reachable_run: "client_reachable X G s \<longleftrightarrow> (client_step X G)\<^sup>*\<^sup>* init_client s"
proof
  show "client_reachable X G s \<Longrightarrow> (client_step X G)\<^sup>*\<^sup>* init_client s"
    by (induction rule: client_reachable.induct) (auto intro: rtranclp.rtrancl_into_rtrancl)
  show "(client_step X G)\<^sup>*\<^sup>* init_client s \<Longrightarrow> client_reachable X G s"
    by (induction rule: rtranclp_induct) (auto intro: client_reachable.intros)
qed

section \<open>The server\<close>

definition server_shrinks :: "'r server \<Rightarrow> 'r server \<Rightarrow> bool" where
  "server_shrinks s s' \<longleftrightarrow>
     (\<forall>t. rel_option (\<lambda>ct ct'. shrinks (ct_connections ct) (ct_connections ct')) (g_client_list s t) (g_client_list s' t))"

lemma server_shrinks_refl [simp, intro]: "server_shrinks s s"
  by (simp add: server_shrinks_def option.rel_refl)

lemma server_shrinks_trans [trans]: "server_shrinks s u \<Longrightarrow> server_shrinks u v \<Longrightarrow> server_shrinks s v"
  unfolding server_shrinks_def by (blast intro: rel_option_trans shrinks_trans)

lemma server_shrinks_touch [simp]:
  "server_shrinks s (effects es u) = server_shrinks s u"
  "server_shrinks s (upd_link a f u) = server_shrinks s u"
  by (simp_all add: server_shrinks_def)

lemma server_shrinks_upd_ct:
  assumes "server_shrinks s u" "\<And>ct. shrinks (ct_connections ct) (ct_connections (f ct))"
  shows "server_shrinks s (upd_ct t f u)"
proof -
  have "server_shrinks u (upd_ct t f u)"
    using assms(2) by (auto simp: server_shrinks_def option.rel_refl option.rel_map intro!: option.rel_refl)
  with assms(1) show ?thesis by (rule server_shrinks_trans)
qed

lemma server_shrinks_ids: "server_shrinks s s' \<Longrightarrow> dom (link_tbl t s') \<subseteq> dom (link_tbl t s)"
  unfolding server_shrinks_def
  by (drule spec [of _ t]) (auto simp: link_tbl_def ct_conns_def shrinks_def split: option.splits)

lemma server_shrinks_range:
  assumes "\<And>k v u u'. body k v u = Ret u' \<Longrightarrow> server_shrinks u u'" "for_range tbl body ks s = Ret s'"
  shows "server_shrinks s s'"
  by (rule for_range_keeps [where I = "server_shrinks s", OF _ server_shrinks_refl assms(2)])
     (blast intro: server_shrinks_trans assms(1))

lemma server_disconnect_shrinks:
  "server_disconnect_session_by_convid X orc t d s = Ret s' \<Longrightarrow> server_shrinks s s'"
  unfolding server_disconnect_session_by_convid_def
  by (cases "g_client_list s t", simp, simp, erule server_shrinks_range [rotated])
     (auto simp: server_disconnect_body_def server_close_connection_def outcome_simps split: if_splits
       intro!: server_shrinks_upd_ct)

lemma server_disconnect_after_touch:
  "server_disconnect_session_by_convid X orc t d (upd_link a f u) = Ret s' \<Longrightarrow> server_shrinks u s'"
  "server_disconnect_session_by_convid X orc t d (effects es u) = Ret s' \<Longrightarrow> server_shrinks u s'"
  "server_disconnect_session_by_convid X orc t d (effects es (upd_link a f u)) = Ret s' \<Longrightarrow> server_shrinks u s'"
  by (auto dest!: server_disconnect_shrinks simp: server_shrinks_def)

lemma server_reader_shrinks:
  "server_accept_begin X orc t k h st s = Ret (ctl, s') \<Longrightarrow> server_shrinks s s'"
  "server_accept_read X orc t k a result now1 now2 tun_err s = Ret (ctl, s') \<Longrightarrow> server_shrinks s s'"
  by (cases result; auto simp: server_accept_begin_def server_accept_read_def outcome_simps Let_def
      split: if_splits option.splits message.splits
      dest: server_disconnect_shrinks server_disconnect_after_touch)+

lemma server_hello_shrinks: "server_send_hello orc a s = Ret s' \<Longrightarrow> server_shrinks s s'"
  by (auto simp: server_send_hello_def outcome_simps Let_def case_prod_beta split: if_splits)

lemma server_ping_shrinks: "server_ping_body X orc t k a s = Ret s' \<Longrightarrow> server_shrinks s s'"
  by (auto simp: server_ping_body_def outcome_simps Let_def split: if_splits dest: server_disconnect_shrinks)

lemma server_pings_shrinks: "server_send_client_pings X orc s = Ret s' \<Longrightarrow> server_shrinks s s'"
  unfolding server_send_client_pings_def
  by (erule server_shrinks_range [rotated], erule server_shrinks_range [rotated]) (rule server_ping_shrinks)

lemma server_tun_send_shrinks: "server_tun_send X orc t a data st wr s = Ret s' \<Longrightarrow> server_shrinks s s'"
  by (auto simp: server_tun_send_def outcome_simps Let_def case_prod_beta split: if_splits
      dest: server_disconnect_shrinks server_disconnect_after_touch)

lemma server_choose_shrinks:
  "server_choose_kcp_conn X G orc packet t s = Ret ((c, err), s') \<Longrightarrow> server_shrinks s s'"
  by (auto simp: server_choose_kcp_conn_def Let_def outcome_simps split: if_splits intro!: server_shrinks_upd_ct)

lemma server_tun_read_shrinks: "server_handle_tun_read X G orc t result st wr s = Ret s' \<Longrightarrow> server_shrinks s s'"
  by (auto simp: server_handle_tun_read_def outcome_simps split: sum.splits if_splits option.splits
      dest!: server_choose_shrinks server_tun_send_shrinks intro: server_shrinks_trans)

lemma ensure_tun_connections:
  assumes "server_ensure_tun X G E t ct s = Ret (s', b)" "g_client_list s t = Some ct"
  shows "\<exists>ct'. g_client_list s' = (g_client_list s)(t \<mapsto> ct') \<and> ct_connections ct' = ct_connections ct"
proof (cases "ct_iface ct")
  case None
  with assms show ?thesis
    by (auto simp: server_ensure_tun_def outcome_simps Let_def split: prod.splits)
next
  case (Some i)
  with assms have "s' = s" by (simp add: server_ensure_tun_def)
  with assms(2) show ?thesis by (intro exI [of _ ct]) (simp add: map_upd_triv)
qed

lemma accept_ids:
  assumes "server_accept_conn X G E t k s = Ret (a, s')"
  shows "(\<lambda>u. dom (link_tbl u s')) =
    (if a = None then (\<lambda>u. dom (link_tbl u s)) else (\<lambda>u. dom (link_tbl u s))(t := insert k (dom (link_tbl t s))))"
proof -
  define ct where "ct = (case g_client_list s t of None \<Rightarrow> new_clientType | Some ct \<Rightarrow> ct)"
  define s0 where "s0 = effects (setServerConnOptions G (ae_kcp E)) (s\<lparr>g_client_list := (g_client_list s)(t \<mapsto> ct)\<rparr>)"
  have conns: "map_of (ct_conns ct) = link_tbl t s" by (simp add: ct_def link_tbl_def split: option.splits)
  obtain s1 sp where e: "server_ensure_tun X G E t ct s0 = Ret (s1, sp)"
    using assms unfolding server_accept_conn_def Let_def ct_def [symmetric] s0_def [symmetric]
    by (auto simp: outcome_simps)
  have ct0: "g_client_list s0 t = Some ct" by (simp add: s0_def)
  obtain ct' where ct': "g_client_list s1 = (g_client_list s0)(t \<mapsto> ct')" "ct_connections ct' = ct_connections ct"
    using ensure_tun_connections [OF e ct0] by blast
  then have ct'_conns: "ct_conns ct' = ct_conns ct" by (simp add: ct_conns_def)
  have ent: "ct_conns (server_enter X k b (server_ensure_map X (ct'\<lparr>ct_last_convid := 0\<rparr>))) = gm_put k b (ct_conns ct)" for b
    using ct'(2) by (auto simp: ct_conns_def server_enter_def server_ensure_map_def split: option.splits)
  from assms e show ?thesis
    unfolding server_accept_conn_def Let_def ct_def [symmetric] s0_def [symmetric]
    by (auto simp: ct'(1) link_tbl_def fun_eq_iff ent ct'_conns conns ct_conns_def [of "ct'\<lparr>ct_last_convid := 0\<rparr>"]
        ct_conns_def [of ct', symmetric] s0_def split: if_splits)
qed

lemma server_simulates:
  assumes "server_step X G s s'"
  shows "bond_step (\<lambda>t. dom (link_tbl t s)) (\<lambda>t. dom (link_tbl t s'))"
proof -
  have quiet: ?thesis if "server_shrinks s s'"
    by (rule bond_step.leave) (rule server_shrinks_ids [OF that])
  from assms show ?thesis
  proof cases
    case (accept E t k a)
    show ?thesis
      unfolding accept_ids [OF accept] using bond_step.join [of "\<lambda>t. dom (link_tbl t s)" t k] by simp
  qed (auto intro!: quiet dest: server_reader_shrinks server_hello_shrinks server_pings_shrinks server_tun_read_shrinks)
qed

lemma server_init_ids: "dom (link_tbl t init_server) = {}"
  by (simp add: link_tbl_def init_server_def)

interpretation server_bond: bond_refinement init_server "server_step X G"
  "\<lambda>s. ring_laws X \<longrightarrow> server_inv X s" "\<lambda>s t. dom (link_tbl t s)"
  for X :: "'r ext" and G
  by unfold_locales
     (simp_all add: server_init_ids server_inv_init server_simulates, blast intro: server_step_inv)

lemma server_reachable_run: "server_reachable X G s \<longleftrightarrow> (server_step X G)\<^sup>*\<^sup>* init_server s"
proof
  show "server_reachable X G s \<Longrightarrow> (server_step X G)\<^sup>*\<^sup>* init_server s"
    by (induction rule: server_reachable.induct) (auto intro: rtranclp.rtrancl_into_rtrancl)
  show "(server_step X G)\<^sup>*\<^sup>* init_server s \<Longrightarrow> server_reachable X G s"
    by (induction rule: rtranclp_induct) (auto intro: server_reachable.intros)
qed

end
