(* ===== verification/Main_Loop.thy ===== *)
theory Main_Loop
  imports Program Bond_Refinement
begin

text \<open>
  The main loops of \<^verbatim>\<open>run_client\<close> and \<^verbatim>\<open>run_server\<close> (\<^verbatim>\<open>main.go\<close>) as a whole: they never stop and
  never crash on a bond in order, and a HELLO round is due often enough. The two loops share their
  counter, so the argument is made once, for the interface \<open>main_loop\<close>.
\<close>

section \<open>The loops\<close>

text \<open>An element of \<open>env\<close> is what the outside answers during one round.\<close>

definition client_loop ::
  "'r ext \<Rightarrow> globals \<Rightarrow> (answers \<times> print_env \<times> (go_error + string)) list \<Rightarrow> nat \<times> 'r client \<Rightarrow>
     (nat \<times> 'r client) outcome"
where
  "client_loop X G = ofold (\<lambda>(orc, E, route). client_tick X G orc E route)"

definition server_loop ::
  "'r ext \<Rightarrow> (answers \<times> print_env) list \<Rightarrow> nat \<times> 'r server \<Rightarrow> (nat \<times> 'r server) outcome"
where
  "server_loop X = ofold (\<lambda>(orc, E). server_tick X orc E)"

definition next_loop :: "nat \<Rightarrow> nat" where
  "next_loop n = (if (n + 1) mod 1500 = 0 then 1 else n + 1)"

lemma next_loop_range: "n < 1500 \<Longrightarrow> 1 \<le> next_loop n \<and> next_loop n < 1500"
  by (cases "n = 1499") (auto simp: next_loop_def)

lemma next_loop_iter:
  assumes "n < 1500"
  shows "1 \<le> (next_loop ^^ Suc i) n \<and> (next_loop ^^ Suc i) n < 1500"
proof (induction i)
  case (Suc i)
  then show ?case using next_loop_range [of "(next_loop ^^ Suc i) n"] by simp
qed (use next_loop_range [OF assms] in simp)

lemma next_loop_add: "n + i < 1500 \<Longrightarrow> (next_loop ^^ i) n = n + i"
proof (induction i)
  case (Suc i)
  then have "(n + i + 1) mod 1500 = n + i + 1" by (intro mod_less) simp
  with Suc show ?case by (simp add: next_loop_def)
qed simp

text \<open>A multiple of 200 is at most 298 rounds away, although the reset at 1500 skips 1600.\<close>

lemma ping_within_299:
  assumes "1 \<le> n" "n < 1500"
  shows "\<exists>i < 299. ((next_loop ^^ i) n + 1) mod 200 = 0 \<and> (next_loop ^^ i) n + 1 < 1500"
proof (cases "n < 1400")
  case True
  obtain q r where n: "n = 200 * q + r" "r < 200"
    by (metis mult_div_mod_eq mod_less_divisor zero_less_numeral)
  define i where "i = 199 - r"
  have i: "n + i + 1 = 200 * (q + 1)" "i < 299" using n by (simp_all add: i_def)
  have "q < 7" using n True by simp
  then have "n + i + 1 < 1500" using i(1) by simp
  then have "((next_loop ^^ i) n + 1) mod 200 = 0" "(next_loop ^^ i) n + 1 < 1500"
    using next_loop_add [of n i] i(1) by simp_all
  with i(2) show ?thesis by (intro exI [of _ i] conjI)
next
  case False
  have "(next_loop ^^ (1499 - n)) n = 1499" using next_loop_add [of n "1499 - n"] assms by simp
  then have "(next_loop ^^ Suc (1499 - n)) n = 1" by (simp add: next_loop_def)
  then have "(next_loop ^^ (198 + Suc (1499 - n))) n = (next_loop ^^ 198) 1" by (simp only: funpow_add o_apply)
  then have "(next_loop ^^ (198 + Suc (1499 - n))) n = 199" using next_loop_add [of 1 198] by simp
  then show ?thesis using False by (intro exI [of _ "198 + Suc (1499 - n)"]) simp
qed

section \<open>Loops that cannot crash\<close>

text \<open>
  The contract of a round: in a state in order, whatever the outside answers within reason (\<open>ok\<close>), it
  returns, in order again, and counts.
\<close>

locale main_loop =
  fixes tick :: "'e \<Rightarrow> nat \<times> 's \<Rightarrow> (nat \<times> 's) outcome"
    and inv :: "'s \<Rightarrow> bool"
    and ok :: "'e \<Rightarrow> bool"
  assumes tick_total: "inv s \<Longrightarrow> ok e \<Longrightarrow> \<exists>s'. tick e (n, s) = Ret (next_loop n, s') \<and> inv s'"
begin

lemma loop_total:
  assumes "inv s" "\<forall>e \<in> set env. ok e"
  shows "\<exists>s'. ofold tick env (n, s) = Ret ((next_loop ^^ length env) n, s') \<and> inv s'"
  using assms
proof (induction env arbitrary: n s)
  case (Cons e env)
  then obtain s1 where s1: "tick e (n, s) = Ret (next_loop n, s1)" "inv s1" using tick_total by fastforce
  with Cons.IH [of s1 "next_loop n"] Cons.prems(2) show ?case by (auto simp: funpow_swap1)
qed simp

text \<open>Among any 299 rounds there is one whose counter is due, and it is carried out.\<close>

lemma round_due:
  assumes "inv s" "\<forall>e \<in> set env. ok e" "1 \<le> n" "n < 1500" "length env = 299"
  obtains i m u v where "i < 299" "ofold tick (take i env) (n, s) = Ret (m, u)" "inv u" "(m + 1) mod 200 = 0"
    "m + 1 < 1500" "tick (env ! i) (m, u) = Ret (m + 1, v)"
proof -
  obtain i where i: "i < 299" "((next_loop ^^ i) n + 1) mod 200 = 0" "(next_loop ^^ i) n + 1 < 1500"
    using ping_within_299 [OF assms(3,4)] by (elim exE conjE) (rule that)
  let ?m = "(next_loop ^^ i) n"
  have "\<forall>e \<in> set (take i env). ok e" using assms(2) by (meson in_set_takeD)
  from loop_total [OF assms(1) this, of n] i(1) assms(5) obtain u where
    u: "ofold tick (take i env) (n, s) = Ret (?m, u)" "inv u" by auto
  have "ok (env ! i)" using assms(2,5) i(1) by simp
  from tick_total [OF u(2) this, of ?m] obtain v where v: "tick (env ! i) (?m, u) = Ret (next_loop ?m, v)" by blast
  have "next_loop ?m = ?m + 1" using i(3) by (simp add: next_loop_def)
  with v that [OF i(1) u i(2,3)] show ?thesis by simp
qed

end

section \<open>The client's loop\<close>

text \<open>With a mux limit of at least one, a registered tunnel has its map and ring.\<close>

definition has_maps :: "'r client \<Rightarrow> bool" where
  "has_maps s \<longleftrightarrow> (\<forall>t sv. g_server_list s t = Some sv \<longrightarrow> sv_connections sv \<noteq> None)"

lemma has_maps_shrinks: "has_maps s \<Longrightarrow> client_shrinks s s' \<Longrightarrow> has_maps s'"
  unfolding has_maps_def
proof (intro allI impI)
  fix t sv'
  assume maps: "\<forall>t sv. g_server_list s t = Some sv \<longrightarrow> sv_connections sv \<noteq> None"
    and "client_shrinks s s'" "g_server_list s' t = Some sv'"
  then have "rel_option (\<lambda>sv sv'. shrinks (sv_connections sv) (sv_connections sv')) (g_server_list s t) (Some sv')"
    unfolding client_shrinks_def by metis
  with maps show "sv_connections sv' \<noteq> None" by (cases "g_server_list s t") (auto simp: shrinks_def)
qed

lemma has_maps_prepare:
  assumes "has_maps s" "1 \<le> g_mux_max G"
  shows "client_connect_prepare X G E t src ifname s = Ret (Inl s') \<Longrightarrow> has_maps s'"
    and "client_connect_prepare X G E t src ifname s = Ret (Inr (s', k, b, w)) \<Longrightarrow> has_maps s'"
proof -
  define sv where "sv = (case g_server_list s t of None \<Rightarrow> new_serverType | Some sv \<Rightarrow> sv)"
  define s0 where "s0 = s\<lparr>g_server_list := (g_server_list s)(t \<mapsto> sv)\<rparr>"
  have full: "has_maps s0" if "int (client_num_connections_by_src src sv s) \<ge> g_mux_max G"
  proof -
    have "sv_conns sv \<noteq> []" using that assms(2) by (auto simp: client_num_connections_by_src_def)
    then have "sv_connections sv \<noteq> None" by (auto simp: sv_conns_def split: option.splits)
    then show ?thesis using assms(1) by (simp add: has_maps_def s0_def)
  qed
  have tun: "has_maps (upd_sv t (client_ensure_map X) s1)" if "client_ensure_tun X G E t sv s0 = Ret (s1, sp)" for s1 sp
  proof -
    have "\<exists>sv1. g_server_list s1 = (g_server_list s0)(t \<mapsto> sv1)"
    proof (cases "sv_iface sv")
      case None
      with that show ?thesis
        by (auto simp: client_ensure_tun_def outcome_simps Let_def s0_def split: prod.splits)
    next
      case (Some i)
      with that have "s1 = s0" by (simp add: client_ensure_tun_def)
      then show ?thesis by (intro exI [of _ sv]) (simp add: s0_def)
    qed
    moreover have "sv_connections (client_ensure_map X z) \<noteq> None" for z :: "'a serverType"
      by (simp add: client_ensure_map_def)
    ultimately show ?thesis using assms(1) by (auto simp: has_maps_def s0_def)
  qed
  note unf = client_connect_prepare_def Let_def sv_def [symmetric] s0_def [symmetric] outcome_simps
  show "client_connect_prepare X G E t src ifname s = Ret (Inl s') \<Longrightarrow> has_maps s'"
    using full by (auto simp: unf dest!: tun split: if_splits option.splits)
  show "client_connect_prepare X G E t src ifname s = Ret (Inr (s', k, b, w)) \<Longrightarrow> has_maps s'"
    by (auto simp: unf dest!: tun split: if_splits option.splits)
qed

lemma has_maps_step:
  assumes "has_maps s" "1 \<le> g_mux_max G" "client_step X G s s'"
  shows "has_maps s'"
proof -
  note quiet = has_maps_shrinks [OF assms(1)]
  from assms(3) show ?thesis
  proof cases
    case (commit E t src ifname k b w)
    then show ?thesis using assms(1) by (elim connect_commit_eq) (auto simp: has_maps_def)
  qed (auto intro: has_maps_prepare [OF assms(1,2)] quiet dest: disconnect_shrinks reader_shrinks
      send_hello_shrinks pings_shrinks tun_read_shrinks)
qed

lemma client_reachable_maps:
  assumes "client_reachable X G s" "1 \<le> g_mux_max G"
  shows "has_maps s"
  using assms(1)
proof induction
  case start
  show ?case by (simp add: has_maps_def init_client_def)
qed (rule has_maps_step [OF _ assms(2)])

lemma print_loads_total:
  "(\<forall>t \<in> set order. rings t \<noteq> Some None) \<Longrightarrow> \<exists>p. print_loads X rings order = Ret p"
  by (induction order) (fastforce split: option.splits)+

lemma printServerLoads_total:
  assumes "client_inv X s" "has_maps s"
  shows "\<exists>p. printServerLoads X order s = Ret p"
  unfolding printServerLoads_def
proof (rule print_loads_total, rule ballI)
  fix t
  show "map_option sv_consistent (g_server_list s t) \<noteq> Some None"
    using client_inv_bond_ok [OF assms(1), of t] assms(2) unfolding has_maps_def
    by (cases "g_server_list s t") (fastforce simp: bond_ok_def split: option.splits)+
qed

lemma pings_total:
  assumes "ring_laws X" "client_inv X s"
  shows "\<exists>s'. client_send_server_pings X G orc s = Ret s' \<and> client_inv X s'"
  unfolding client_send_server_pings_def
  by (rule for_range_total [where I = "client_inv X", OF _ assms(2)])
     (rule for_range_total [where I = "client_inv X"], rule ping_body_total [OF assms(1)])

text \<open>A state of the client in which its main loop goes on.\<close>

definition loop_ready :: "'r ext \<Rightarrow> globals \<Rightarrow> 'r client \<Rightarrow> bool" where
  "loop_ready X G s \<longleftrightarrow> ring_laws X \<and> 32 \<le> int_bits X \<and> 1 \<le> g_mux_max G \<and> client_reachable X G s"

lemma loop_ready_inv: "loop_ready X G s \<Longrightarrow> client_inv X s"
  by (auto simp: loop_ready_def intro: client_reachable_inv)

lemma loop_ready_step: "loop_ready X G s \<Longrightarrow> client_step X G s s' \<Longrightarrow> loop_ready X G s'"
  by (auto simp: loop_ready_def intro: client_reachable.step)

lemma client_tick_total:
  assumes "loop_ready X G s" "snmp_matches E"
  shows "\<exists>s'. client_tick X G orc E route (n, s) = Ret (next_loop n, s') \<and> loop_ready X G s'"
proof -
  let ?s1 = "if (n + 1) mod 500 = 0 then client_check_paths G route s else s"
  have r1: "loop_ready X G ?s1" using assms(1) by (auto intro: loop_ready_step client_step.paths)
  obtain s2 where s2: "(if (n + 1) mod 200 = 0 then client_send_server_pings X G orc ?s1 else Ret ?s1) = Ret s2"
    "loop_ready X G s2"
  proof (cases "(n + 1) mod 200 = 0")
    case True
    obtain s2 where "client_send_server_pings X G orc ?s1 = Ret s2"
      using pings_total [of X ?s1 G orc] loop_ready_inv [OF r1] assms(1) by (auto simp: loop_ready_def)
    with True show ?thesis
      using that [of s2] loop_ready_step [OF r1 client_step.pings] by simp
  qed (use r1 that in auto)
  have inv2: "client_inv X s2" and maps2: "has_maps s2" and int: "32 \<le> int_bits X"
    using s2(2) by (auto simp: loop_ready_def intro: client_reachable_maps loop_ready_inv)
  obtain p q where "printServerList X E (a_order (orc [])) s2 = Ret p" "printServerLoads X (a_order (orc [])) s2 = Ret q"
    using printServerList_total [OF inv2 int assms(2)] printServerLoads_total [OF inv2 maps2] by metis
  then show ?thesis
    using s2 loop_ready_step [OF s2(2) client_step.poll]
    by (auto simp: client_tick_def next_loop_def Let_def)
qed

interpretation client_main: main_loop "\<lambda>(orc, E, route). client_tick X G orc E route" "loop_ready X G"
  "\<lambda>(orc, E, route). snmp_matches E"
  for X :: "'r ext" and G
  by unfold_locales (use client_tick_total in \<open>auto split: prod.splits\<close>)

section \<open>The server's loop\<close>

definition server_ready :: "'r ext \<Rightarrow> 'r server \<Rightarrow> bool" where
  "server_ready X s \<longleftrightarrow> ring_laws X \<and> 32 \<le> int_bits X \<and> server_inv X s \<and>
     (\<forall>t ct. g_client_list s t = Some ct \<longrightarrow> ct_connections ct \<noteq> None)"

lemma server_pings_total:
  assumes "ring_laws X" "server_inv X s"
  shows "\<exists>s'. server_send_client_pings X orc s = Ret s' \<and> server_inv X s'"
  unfolding server_send_client_pings_def
  by (rule for_range_total [where I = "server_inv X", OF _ assms(2)])
     (rule for_range_total [where I = "server_inv X"], rule server_ping_body_total [OF assms(1)])

lemma printClientLoads_total:
  assumes "server_ready X s"
  shows "\<exists>p. printClientLoads X order s = Ret p"
  unfolding printClientLoads_def
proof (rule print_loads_total, rule ballI)
  fix t
  have "g_client_list s t = Some ct \<Longrightarrow> tunnel_ok X t ct \<and> ct_connections ct \<noteq> None" for ct
    using assms by (auto simp: server_ready_def intro: server_inv_tunnel_ok)
  then show "map_option ct_consistent (g_client_list s t) \<noteq> Some None"
    by (cases "g_client_list s t") (auto simp: tunnel_ok_def split: option.splits)
qed

lemma server_ready_pings:
  assumes "server_ready X s" "server_send_client_pings X orc s = Ret s'" "server_inv X s'"
  shows "server_ready X s'"
proof -
  have "ct_connections ct' \<noteq> None" if ct': "g_client_list s' t = Some ct'" for t ct'
  proof -
    have "rel_option (\<lambda>ct ct'. shrinks (ct_connections ct) (ct_connections ct')) (g_client_list s t) (Some ct')"
      using server_pings_shrinks [OF assms(2)] ct' unfolding server_shrinks_def by metis
    then show ?thesis
      using assms(1) by (cases "g_client_list s t") (auto simp: shrinks_def server_ready_def)
  qed
  with assms(1,3) show ?thesis by (simp add: server_ready_def)
qed

lemma server_tick_total:
  assumes "server_ready X s" "snmp_matches E"
  shows "\<exists>s'. server_tick X orc E (n, s) = Ret (next_loop n, s') \<and> server_ready X s'"
proof -
  obtain s1 where s1: "(if (n + 1) mod 200 = 0 then server_send_client_pings X orc s else Ret s) = Ret s1"
    "server_ready X s1"
    using server_pings_total [of X s orc] server_ready_pings [OF assms(1)] assms(1) unfolding server_ready_def
    by metis
  have inv1: "server_inv X s1" and int: "32 \<le> int_bits X" using s1(2) by (simp_all add: server_ready_def)
  obtain p q where "printClientList X E (a_order (orc [])) s1 = Ret p" "printClientLoads X (a_order (orc [])) s1 = Ret q"
    using printClientList_total [OF inv1 int assms(2)] printClientLoads_total [OF s1(2)] by metis
  with s1 show ?thesis by (auto simp: server_tick_def next_loop_def Let_def)
qed

interpretation server_main: main_loop "\<lambda>(orc, E). server_tick X orc E" "server_ready X" "\<lambda>(orc, E). snmp_matches E"
  for X :: "'r ext"
  by unfold_locales (use server_tick_total in \<open>auto split: prod.splits\<close>)

end
