(* ===== verification/Loop_Properties.thy ===== *)
theory Loop_Properties
  imports Scenario Main_Loop
begin

text \<open>
  The properties of the main loops and of the status texts, and that both ends implement the
  abstract bond.
\<close>

section \<open>The abstract bond\<close>





section \<open>The main loops\<close>

definition demo_print :: print_env where
  "demo_print = \<lparr>pe_kcp = (\<lambda>h. \<lparr>ki_state = 0, ki_rto = 100, ki_names = [''BytesSent''], ki_values = [''7'']\<rparr>),
     pe_ut = (\<lambda>a. ns_per_s), pe_t1 = (\<lambda>a. ns_per_s)\<rparr>"

lemma demo_snmp: "snmp_matches demo_print"
  by (simp add: snmp_matches_def demo_print_def)

lemma demo_int_bits [simp]: "int_bits demo_ext = 64"
  by (simp add: demo_ext_def)

lemma demo_mux: "1 \<le> g_mux_max demo_globals"
  by (simp add: demo_globals_def)



text \<open>
  C11: among any 299 rounds of the client's main loop (2.99 seconds of sleep, less than the five
  seconds after which a silent peer is dropped) there is one that carries out a HELLO round, also
  across the reset of the counter, which skips the one due at 1600.
\<close>

theorem hello_every_299_rounds:
  assumes "ring_laws X" "32 \<le> int_bits X" "1 \<le> g_mux_max G" "client_reachable X G s"
    and "1 \<le> n" "n < 1500" "length env = 299" "\<forall>(orc, E, route) \<in> set env. snmp_matches E"
  shows "\<exists>i < 299. \<exists>m u v orc E route. env ! i = (orc, E, route) \<and>
    client_loop X G (take i env) (n, s) = Ret (m, u) \<and> client_tick X G orc E route (m, u) = Ret (m + 1, v) \<and>
    client_send_server_pings X G orc (if (m + 1) mod 500 = 0 then client_check_paths G route u else u) = Ret v"
proof -
  have "loop_ready X G s" using assms by (simp add: loop_ready_def)
  then obtain i m u v where i: "i < 299" and run: "client_loop X G (take i env) (n, s) = Ret (m, u)"
    and due: "(m + 1) mod 200 = 0" and small: "m + 1 < 1500"
    and tick: "(case env ! i of (orc, E, route) \<Rightarrow> client_tick X G orc E route) (m, u) = Ret (m + 1, v)"
    unfolding client_loop_def by (rule client_main.round_due [OF _ assms(8,5,6,7)])
  obtain orc E route where e: "env ! i = (orc, E, route)" by (cases "env ! i")
  from small have "(m + 1) mod 1500 \<noteq> 0" by (subst mod_less) simp_all
  with tick e due have t: "client_tick X G orc E route (m, u) = Ret (m + 1, v)"
    and "client_send_server_pings X G orc (if (m + 1) mod 500 = 0 then client_check_paths G route u else u) = Ret v"
    by (auto simp: client_tick_def outcome_simps Let_def)
  with i run e show ?thesis by (intro exI conjI)
qed

theorem hello_every_299_rounds_witness:
  "\<exists>i < 299. \<exists>m u v.
    client_loop demo_ext demo_globals (take i (replicate 299 (demo_orc, demo_print, Inr ''''))) (1, demo_client2) = Ret (m, u) \<and>
    client_send_server_pings demo_ext demo_globals demo_orc
      (if (m + 1) mod 500 = 0 then client_check_paths demo_globals (Inr '''') u else u) = Ret v"
proof -
  let ?env = "replicate 299 (demo_orc, demo_print, Inr '''') :: (answers \<times> print_env \<times> (go_error + string)) list"
  have len: "length ?env = 299" "\<forall>(orc, E, route) \<in> set ?env. snmp_matches E" "(1 :: nat) \<le> 1" "(1 :: nat) < 1500"
    "32 \<le> int_bits demo_ext" using demo_snmp by simp_all
  from hello_every_299_rounds [OF demo_ring_laws len(5) demo_mux demo_reachable len(3,4,1,2)] obtain i m u v orc E route where
    i: "i < 299" and e: "?env ! i = (orc, E, route)" and "client_loop demo_ext demo_globals (take i ?env) (1, demo_client2) = Ret (m, u)"
    "client_send_server_pings demo_ext demo_globals orc
      (if (m + 1) mod 500 = 0 then client_check_paths demo_globals route u else u) = Ret v" by (elim exE conjE)
  moreover have "orc = demo_orc" "route = Inr ''''" using e unfolding nth_replicate [OF i] by simp_all
  ultimately show ?thesis by blast
qed

text \<open>
  The server's main loop sends its HELLO round as often, in every state whose tunnels have their
  map and ring.
\<close>

theorem server_hello_every_299_rounds:
  assumes "ring_laws X" "32 \<le> int_bits X" "server_inv X s"
    and "\<forall>t ct. g_client_list s t = Some ct \<longrightarrow> ct_connections ct \<noteq> None"
    and "1 \<le> n" "n < 1500" "length env = 299" "\<forall>(orc, E) \<in> set env. snmp_matches E"
  shows "\<exists>i < 299. \<exists>m u v orc E. env ! i = (orc, E) \<and>
    server_loop X (take i env) (n, s) = Ret (m, u) \<and> server_tick X orc E (m, u) = Ret (m + 1, v) \<and>
    server_send_client_pings X orc u = Ret v"
proof -
  have "server_ready X s" using assms by (simp add: server_ready_def)
  then obtain i m u v where i: "i < 299" and run: "server_loop X (take i env) (n, s) = Ret (m, u)"
    and due: "(m + 1) mod 200 = 0" and small: "m + 1 < 1500"
    and tick: "(case env ! i of (orc, E) \<Rightarrow> server_tick X orc E) (m, u) = Ret (m + 1, v)"
    unfolding server_loop_def by (rule server_main.round_due [OF _ assms(8,5,6,7)])
  obtain orc E where e: "env ! i = (orc, E)" by (cases "env ! i")
  from small have "(m + 1) mod 1500 \<noteq> 0" by (subst mod_less) simp_all
  with tick e due have "server_tick X orc E (m, u) = Ret (m + 1, v)" "server_send_client_pings X orc u = Ret v"
    by (auto simp: server_tick_def outcome_simps Let_def)
  with i run e show ?thesis by (intro exI conjI)
qed

theorem server_hello_every_299_rounds_witness:
  "\<exists>i < 299. \<exists>m u v. server_loop demo_ext (take i (replicate 299 (demo_orc, demo_print))) (1, demo_server2) = Ret (m, u) \<and>
    server_send_client_pings demo_ext demo_orc u = Ret v"
proof -
  let ?env = "replicate 299 (demo_orc, demo_print) :: (answers \<times> print_env) list"
  have len: "length ?env = 299" "\<forall>(orc, E) \<in> set ?env. snmp_matches E" "(1 :: nat) \<le> 1" "(1 :: nat) < 1500"
    "32 \<le> int_bits demo_ext" using demo_snmp by simp_all
  have "ct_connections ct \<noteq> None" if "g_client_list demo_server2 t = Some ct" for t ct
    using that demo_links demo_server_other [of t]
    by (cases "t = 660") (auto simp: ct_conns_def split: option.splits)
  then have maps: "\<forall>t ct. g_client_list demo_server2 t = Some ct \<longrightarrow> ct_connections ct \<noteq> None" by blast
  from server_hello_every_299_rounds [OF demo_ring_laws len(5) demo_server_inv maps len(3,4,1,2)] obtain i m u v orc E where
    i: "i < 299" and e: "?env ! i = (orc, E)" and "server_loop demo_ext (take i ?env) (1, demo_server2) = Ret (m, u)"
    "server_send_client_pings demo_ext orc u = Ret v" by (elim exE conjE)
  moreover have "orc = demo_orc" using e unfolding nth_replicate [OF i] by simp
  ultimately show ?thesis by blast
qed

lemma print_loads_nil: "t \<in> set order \<Longrightarrow> rings t = Some None \<Longrightarrow> (\<forall>u. rings u \<noteq> None \<longrightarrow> u = t) \<Longrightarrow>
  print_loads X rings order = Panic ''nil pointer dereference''"
  by (induction order) (auto split: option.splits)

text \<open>
  With a mux limit of zero (\<^verbatim>\<open>--mux=0\<close>) the first join registers a tunnel without a hash ring,
  and the next housekeeping round of the main loop crashes on it while it formats a trace message.
\<close>

theorem mux_zero_crashes:
  assumes "g_mux_max G \<le> 0" "t \<in> set (a_order (orc []))"
  shows "\<exists>s. client_connect_server X G E t src ifname init_client = Ret s \<and>
    client_tick X G orc P route (1499, s) = Panic ''nil pointer dereference''"
proof -
  let ?s = "init_client\<lparr>g_server_list := [t \<mapsto> new_serverType]\<rparr> :: 'a client"
  let ?u = "client_check_paths G route ?s"
  have c: "client_connect_server X G E t src ifname init_client = Ret ?s"
    using assms(1) by (simp add: client_connect_server_def client_connect_prepare_def init_client_def
        client_num_connections_by_src_def new_serverType_def sv_conns_def)
  have "\<exists>p. printServerList X P (a_order (orc [])) ?u = Ret p"
    unfolding printServerList_def
    by (rule print_list_total) (auto simp: printServer_def split: if_splits)
  moreover have "printServerLoads X (a_order (orc [])) ?u = Panic ''nil pointer dereference''"
    unfolding printServerLoads_def
    by (rule print_loads_nil [OF assms(2)]) (simp_all add: new_serverType_def)
  ultimately have "client_tick X G orc P route (1499, ?s) = Panic ''nil pointer dereference''"
    by (auto simp: client_tick_def)
  with c show ?thesis by blast
qed

theorem mux_zero_crashes_witness:
  "\<exists>s. client_connect_server demo_ext (demo_globals\<lparr>g_mux_max := 0\<rparr>) (demo_env 1) 660 ''192.168.1.2'' ''eth0'' init_client = Ret s \<and>
     client_tick demo_ext (demo_globals\<lparr>g_mux_max := 0\<rparr>) demo_orc demo_print (Inr '''') (1499, s) =
       Panic ''nil pointer dereference''"
  by (rule mux_zero_crashes) (simp_all add: demo_orc_def)

section \<open>The status page\<close>

text \<open>
  The status page can always be computed: in all states the two ends can reach, in every mode,
  \<^verbatim>\<open>http_status\<close> returns; in particular the texts computed for log messages never crash the program.
\<close>

theorem status_page_total:
  assumes "ring_laws X" "32 \<le> int_bits X" "client_reachable X G s" "server_reachable X G s'" "snmp_matches E"
  shows "\<exists>p. http_status X H E order s s' = Ret p"
  by (rule http_status_total [OF client_reachable_inv [OF assms(1,3)] server_reachable_inv [OF assms(1,4)] assms(2,5)])

theorem status_page_total_witness:
  "\<exists>p. http_status demo_ext (demo_globals\<lparr>g_run_client := True, g_run_server := True\<rparr>) demo_print [660]
     demo_client2 demo_server2 = Ret p"
  by (rule status_page_total [OF demo_ring_laws _ demo_reachable demo_server_reachable demo_snmp]) simp

text \<open>
  C39: on a 64-bit host the status text of a tunnel shows each of its connections exactly once, in
  ascending order of the conversation ids, and nothing else.
\<close>

theorem status_lists_links:
  assumes "ring_laws X" "client_reachable X G s" "g_server_list s t = Some sv" "int_bits X = 64" "snmp_matches E"
  shows "\<exists>body. (\<forall>k a. conn_tbl t s k = Some a \<longrightarrow> printServerConnection E a s = Ret (body k)) \<and>
    printServer X E sv t s = Ret (server_head sv t
      @ concat (map (\<lambda>k. [Txt (tab @ ''convid='' @ dec_u32 k @ '' '')] @ body k @ [Txt (''  '' @ newline)])
          (sorted_list_of_set (dom (conn_tbl t s))))
      @ [Txt (''}'' @ newline)])"
  using printServer_links [OF client_reachable_inv [OF assms(1,2)] assms(3,4,5)] by (simp add: conn_lines_def)

theorem status_lists_links_witness:
  "\<exists>sv (body :: u32 \<Rightarrow> piece list). g_server_list demo_client2 660 = Some sv \<and>
     printServer demo_ext demo_print sv 660 demo_client2 = Ret (server_head sv 660
       @ [Txt (tab @ ''convid='' @ dec_u32 660 @ '' '')] @ body 660 @ [Txt (''  '' @ newline)]
       @ [Txt (tab @ ''convid='' @ dec_u32 661 @ '' '')] @ body 661 @ [Txt (''  '' @ newline)]
       @ [Txt (''}'' @ newline)])"
proof -
  obtain sv where sv: "g_server_list demo_client2 660 = Some sv" using demo_conns by blast
  have "sorted_list_of_set {660, 661 :: u32} = [660, 661]" by simp
  moreover have "dom (conn_tbl 660 demo_client2) = {660, 661}" by (auto simp: demo_conn_tbl)
  moreover obtain body where "printServer demo_ext demo_print sv 660 demo_client2 = Ret (server_head sv 660
      @ concat (map (\<lambda>k. [Txt (tab @ ''convid='' @ dec_u32 k @ '' '')] @ body k @ [Txt (''  '' @ newline)])
          (sorted_list_of_set (dom (conn_tbl 660 demo_client2)))) @ [Txt (''}'' @ newline)])"
    using status_lists_links [OF demo_ring_laws demo_reachable sv demo_int_bits demo_snmp] by blast
  ultimately show ?thesis using sv by (intro exI [of _ sv] exI [of _ body]) simp
qed

end
