(* ===== verification/Logging.thy ===== *)
theory Logging
  imports Program
begin

text \<open>
  \<^verbatim>\<open>p_logging.go\<close>: the logger's level and its hooks. \<^verbatim>\<open>logrus\<close> itself is a library: its levels and the
  fields the program sets are data here, what its formatter makes of an entry is an argument.
\<close>

section \<open>Levels\<close>

text \<open>\<^verbatim>\<open>logrus.Level\<close>, the most severe first.\<close>

datatype level = PanicLevel | FatalLevel | ErrorLevel | WarnLevel | InfoLevel | DebugLevel | TraceLevel

primrec level_no :: "level \<Rightarrow> nat" where
  "level_no PanicLevel = 0"
| "level_no FatalLevel = 1"
| "level_no ErrorLevel = 2"
| "level_no WarnLevel = 3"
| "level_no InfoLevel = 4"
| "level_no DebugLevel = 5"
| "level_no TraceLevel = 6"

lemma level_no_inject [simp]: "level_no a = level_no b \<longleftrightarrow> a = b"
  by (cases a; cases b) simp_all

instantiation level :: linorder
begin

definition less_eq_level :: "level \<Rightarrow> level \<Rightarrow> bool" where
  "less_eq_level a b \<longleftrightarrow> level_no a \<le> level_no b"

definition less_level :: "level \<Rightarrow> level \<Rightarrow> bool" where
  "less_level a b \<longleftrightarrow> level_no a < level_no b"

instance
  by intro_classes (auto simp: less_eq_level_def less_level_def)

end

section \<open>Hooks\<close>

text \<open>
  Where a hook writes. \<^verbatim>\<open>syslog.New\<close> may fail; its error is dropped and the nil writer kept.
\<close>

datatype writer = Stderr | Syslog "handle option"

datatype field_key = FieldKeyTime | FieldKeyLevel | FieldKeyMsg | FieldKeyFunc

text \<open>\<open>tf_CallerPrettyfier\<close> reads the settings when it is called, not when it is installed.\<close>

record TextFormatter =
  tf_CallerPrettyfier :: "globals \<Rightarrow> string \<Rightarrow> string \<times> string"
  tf_ForceColors :: bool
  tf_DisableTimestamp :: bool
  tf_TimestampFormat :: string
  tf_DisableColors :: bool
  tf_QuoteEmptyFields :: bool
  tf_DisableLevelTruncation :: bool
  tf_PadLevelText :: bool
  tf_FullTimestamp :: bool
  tf_FieldMap :: "field_key \<rightharpoonup> string"

record FormatterHook =
  fh_Writer :: writer
  fh_LogLevels :: "level list"
  fh_Formatter :: TextFormatter

record logger =
  lg_Level :: level
  lg_Hooks :: "FormatterHook list"
  lg_discard :: bool
  lg_ReportCaller :: bool
  lg_mqtt :: "string list"

text \<open>
  \<open>line\<close> is what the hook's formatter makes of the entry, \<open>werr\<close> the answer of the writer. Writing
  to a nil \<^verbatim>\<open>*syslog.Writer\<close> dereferences it.
\<close>

definition Fire ::
  "FormatterHook \<Rightarrow> (TextFormatter \<Rightarrow> go_error + string) \<Rightarrow> go_error option \<Rightarrow>
     (go_error option \<times> (writer \<times> string) list) outcome"
where
  "Fire hook format werr =
     (case format (fh_Formatter hook) of
        Inl e \<Rightarrow> Ret (Some e, [])
      | Inr line \<Rightarrow>
          (if fh_Writer hook = Syslog None then Panic ''nil pointer dereference''
           else Ret (werr, [(fh_Writer hook, line)])))"

definition Levels :: "FormatterHook \<Rightarrow> level list" where
  "Levels hook = fh_LogLevels hook"

definition stderr_caller :: "globals \<Rightarrow> string \<Rightarrow> string \<times> string" where
  "stderr_caller G func =
     (if \<not> g_debug G \<and> \<not> g_trace G then ('''', func @ '':: '') else (func @ '':: '', ''''))"

definition syslog_caller :: "globals \<Rightarrow> string \<Rightarrow> string \<times> string" where
  "syslog_caller G func =
     (if \<not> g_debug G \<and> \<not> g_trace G then ('''', '''') else (func @ ''()'', ''''))"

definition stderr_hook :: FormatterHook where
  "stderr_hook = \<lparr>fh_Writer = Stderr,
     fh_LogLevels = [DebugLevel, TraceLevel, PanicLevel, FatalLevel, ErrorLevel, WarnLevel, InfoLevel],
     fh_Formatter = \<lparr>tf_CallerPrettyfier = stderr_caller, tf_ForceColors = True, tf_DisableTimestamp = False,
       tf_TimestampFormat = ''2006-01-02 15:04:05'', tf_DisableColors = False, tf_QuoteEmptyFields = True,
       tf_DisableLevelTruncation = True, tf_PadLevelText = True, tf_FullTimestamp = True,
       tf_FieldMap = [FieldKeyTime \<mapsto> ''@timestamp'', FieldKeyLevel \<mapsto> ''severity'', FieldKeyMsg \<mapsto> ''message'',
         FieldKeyFunc \<mapsto> ''caller'']\<rparr>\<rparr>"

definition syslog_hook :: "handle option \<Rightarrow> FormatterHook" where
  "syslog_hook w = \<lparr>fh_Writer = Syslog w,
     fh_LogLevels = [PanicLevel, FatalLevel, ErrorLevel, WarnLevel, InfoLevel],
     fh_Formatter = \<lparr>tf_CallerPrettyfier = syslog_caller, tf_ForceColors = False, tf_DisableTimestamp = True,
       tf_TimestampFormat = '''', tf_DisableColors = True, tf_QuoteEmptyFields = True,
       tf_DisableLevelTruncation = False, tf_PadLevelText = False, tf_FullTimestamp = False,
       tf_FieldMap = [FieldKeyLevel \<mapsto> ''severity'', FieldKeyMsg \<mapsto> ''message'', FieldKeyFunc \<mapsto> ''caller'']\<rparr>\<rparr>"

text \<open>\<open>sys\<close> is the answer of \<^verbatim>\<open>syslog.New\<close>.\<close>

definition init_logging :: "globals \<Rightarrow> go_error + handle \<Rightarrow> logger" where
  "init_logging G sys = \<lparr>
     lg_Level = (if g_trace G then TraceLevel else if g_debug G then DebugLevel else InfoLevel),
     lg_Hooks = stderr_hook #
       (if g_use_syslog G then [syslog_hook (case sys of Inl e \<Rightarrow> None | Inr h \<Rightarrow> Some h)] else []),
     lg_discard = True, lg_ReportCaller = True,
     lg_mqtt = [''[MQTT:ERROR] '', ''[MQTT:CRIT] '', ''[MQTT:WARN]  '']\<rparr>"

section \<open>What becomes of a message\<close>

text \<open>
  What \<^verbatim>\<open>logrus\<close> documents: an entry less severe than the logger's level is dropped; otherwise the hooks
  that name its level are fired in the order they were added, until one fails.
\<close>

fun fire_hooks ::
  "(TextFormatter \<Rightarrow> go_error + string) \<Rightarrow> (writer \<Rightarrow> go_error option) \<Rightarrow> FormatterHook list \<Rightarrow>
     (writer \<times> string) list outcome"
where
  "fire_hooks format werr [] = Ret []"
| "fire_hooks format werr (h # hs) =
     obind (Fire h format (werr (fh_Writer h))) (\<lambda>(err, out).
       if err \<noteq> None then Ret out
       else obind (fire_hooks format werr hs) (\<lambda>rest. Ret (out @ rest)))"

definition log_entry ::
  "logger \<Rightarrow> level \<Rightarrow> (TextFormatter \<Rightarrow> go_error + string) \<Rightarrow> (writer \<Rightarrow> go_error option) \<Rightarrow>
     (writer \<times> string) list outcome"
where
  "log_entry L lvl format werr =
     (if lg_Level L < lvl then Ret []
      else fire_hooks format werr (filter (\<lambda>h. lvl \<in> set (Levels h)) (lg_Hooks L)))"

lemma level_le_Info: "lvl \<le> InfoLevel \<longleftrightarrow> lvl \<in> {PanicLevel, FatalLevel, ErrorLevel, WarnLevel, InfoLevel}"
  by (cases lvl) (simp_all add: less_eq_level_def)

lemma stderr_hook_all: "lvl \<in> set (Levels stderr_hook)"
  by (cases lvl) (simp_all add: Levels_def stderr_hook_def)

lemma syslog_hook_levels: "lvl \<in> set (Levels (syslog_hook w)) \<longleftrightarrow> lvl \<le> InfoLevel"
  by (auto simp: Levels_def syslog_hook_def level_le_Info)

lemma hook_writers [simp]:
  "fh_Writer stderr_hook = Stderr" "fh_Writer (syslog_hook w) = Syslog w"
  by (simp_all add: stderr_hook_def syslog_hook_def)

lemma log_entry_writers:
  assumes "\<And>f. \<exists>line. format f = Inr line" "\<And>w. werr w = None"
  shows "\<exists>out. log_entry (init_logging G (Inr h)) lvl format werr = Ret out \<and>
    map fst out = (if lg_Level (init_logging G (Inr h)) < lvl then []
      else Stderr # (if g_use_syslog G \<and> lvl \<le> InfoLevel then [Syslog (Some h)] else []))"
proof -
  obtain l where l: "\<And>f. format f = Inr (l f)" using assms(1) by metis
  show ?thesis
    by (auto simp: log_entry_def init_logging_def stderr_hook_all syslog_hook_levels Fire_def l assms(2))
qed

end
