(* ===== verification/Program_Properties.thy ===== *)
theory Program_Properties
  imports Scenario
begin

text \<open>
  The properties of the command line, of the interface lookup and of the helpers of \<^verbatim>\<open>p_utils.go\<close>.
\<close>

section \<open>The command line\<close>

lemma set_addr_Ret:
  assumes "set_addr X v f G = Ret G'"
  shows "if v = '''' then G' = G else ParseAddrPort (parseIPv6 X) v \<noteq> None \<and> G' = f v G"
  using assms by (auto simp: set_addr_def split: if_splits option.splits)

text \<open>What \<^verbatim>\<open>netip.ParseAddrPort\<close> makes of the usual text of an IPv4 address and a port.\<close>

lemma splitAddrPort_at:
  assumes "CHR '':'' \<notin> set port" "port \<noteq> []" "host \<noteq> []" "hd host \<noteq> CHR ''[''"
  shows "splitAddrPort (host @ CHR '':'' # port) = Some (host, port, False)"
proof -
  have "takeWhile (\<lambda>c. c \<noteq> CHR '':'') (rev port @ CHR '':'' # rev host) = rev port"
    "dropWhile (\<lambda>c. c \<noteq> CHR '':'') (rev port @ CHR '':'' # rev host) = CHR '':'' # rev host"
    using assms(1) by (auto simp: takeWhile_append dropWhile_append)
  with assms(2-4) show ?thesis by (simp add: splitAddrPort_def Let_def)
qed

lemma ParseAddrPort_dotted:
  assumes "length q = 4"
  shows "ParseAddrPort p6 (dotted q @ CHR '':'' # dec_of (unat p)) = Some (q, p)"
proof -
  have d: "c \<noteq> CHR '':''" if "c \<in> set (dec_of n)" for c n
    using dec_of_digits that by (fastforce simp: is_digit_def)
  obtain a b c e where q: "q = [a, b, c, e]" using assms by (rule length_4_cases)
  have hd: "hd (dotted q) \<noteq> CHR ''[''" "dotted q \<noteq> []"
    using hd_dec_of_digit [of "unat a"] dec_of_nonempty [of "unat a"] unfolding q
    by (auto simp: is_digit_def hd_append)
  have "splitAddrPort (dotted q @ CHR '':'' # dec_of (unat p)) = Some (dotted q, dec_of (unat p), False)"
    by (rule splitAddrPort_at) (use d hd in auto)
  moreover have "parse_port (dec_of (unat p)) = Some p"
    using unsigned_less [of p, where ?'a = nat] by (simp add: parse_port_def digits_val_dec_of)
  ultimately show ?thesis using assms by (simp add: ParseAddrPort_def ParseAddr_dotted)
qed

lemma parse_cli_RetE:
  assumes "parse_cli X c G = Ret (G', cmd)"
  obtains G1 G2 G3 G6 where
    "set_addr X (cli_ConnectAddr c) (\<lambda>v G. G\<lparr>g_connect_addr := v\<rparr>) (parse_flags X c G) = Ret G1"
    "set_addr X (cli_ListenAddr c) (\<lambda>v G. G\<lparr>g_listen_addr := v\<rparr>) G1 = Ret G2"
    "set_addr X (cli_MqttBrokerAddr c) (\<lambda>v G. G\<lparr>g_mqtt_broker_addr := v\<rparr>) G2 = Ret G3"
    "g_connect_addr G6 = g_connect_addr G3" "g_listen_addr G6 = g_listen_addr G3"
    "set_tunnel_ip X (cli_TunnelIp c) G6 = Ret G'" "cmd = cli_command c" "g_run_client G6 = g_run_client G3"
    "cli_HttpListenAddr c = ''disable'' \<or> (\<exists>G5. set_addr X (cli_HttpListenAddr c) (\<lambda>v G. G\<lparr>g_http_listen_addr := v\<rparr>) G5 = Ret G6)"
proof -
  define H where "H = (\<lambda>G3 :: globals. let G4 = (if cli_MqttUsername c \<noteq> '''' then G3\<lparr>g_mqtt_username := cli_MqttUsername c\<rparr> else G3)
      in (if cli_MqttPassword c \<noteq> '''' then G4\<lparr>g_mqtt_password := cli_MqttPassword c\<rparr> else G4))"
  obtain G1 G2 G3 G6 where *: "set_addr X (cli_ConnectAddr c) (\<lambda>v G. G\<lparr>g_connect_addr := v\<rparr>) (parse_flags X c G) = Ret G1"
    "set_addr X (cli_ListenAddr c) (\<lambda>v G. G\<lparr>g_listen_addr := v\<rparr>) G1 = Ret G2"
    "set_addr X (cli_MqttBrokerAddr c) (\<lambda>v G. G\<lparr>g_mqtt_broker_addr := v\<rparr>) G2 = Ret G3"
    "(if cli_HttpListenAddr c = ''disable'' then Ret ((H G3)\<lparr>g_http_listen_addr := ''''\<rparr>)
      else set_addr X (cli_HttpListenAddr c) (\<lambda>v G. G\<lparr>g_http_listen_addr := v\<rparr>) (H G3)) = Ret G6"
    "set_tunnel_ip X (cli_TunnelIp c) G6 = Ret G'" "cmd = cli_command c"
    using assms unfolding parse_cli_def Let_def H_def by (auto simp: outcome_simps)
  have "g_connect_addr (H G3) = g_connect_addr G3" "g_listen_addr (H G3) = g_listen_addr G3"
    "g_run_client (H G3) = g_run_client G3"
    by (simp_all add: H_def Let_def)
  then have "g_connect_addr G6 = g_connect_addr G3" "g_listen_addr G6 = g_listen_addr G3" "g_run_client G6 = g_run_client G3"
    using *(4) by (auto split: if_splits dest!: set_addr_Ret)
  moreover have "cli_HttpListenAddr c = ''disable'' \<or> (\<exists>G5. set_addr X (cli_HttpListenAddr c) (\<lambda>v G. G\<lparr>g_http_listen_addr := v\<rparr>) G5 = Ret G6)"
    using *(4) by (auto split: if_splits)
  ultimately show ?thesis using *(1,2,3,5,6) that by blast
qed

lemma set_tunnel_ip_addrs:
  assumes "set_tunnel_ip X v G = Ret G'"
  shows "g_connect_addr G' = g_connect_addr G" "g_listen_addr G' = g_listen_addr G"
    "g_run_client G' = g_run_client G"
  using assms by (auto simp: set_tunnel_ip_def outcome_simps split: if_splits sum.splits prod.splits)

text \<open>
  A command line that is accepted has left the connect and the listen address unset or set
  to an address and port that parse; anything else ends the process.
\<close>

theorem accepted_addresses_parse:
  assumes "parse_cli X c G = Ret (G', cmd)"
  shows "cmd = cli_command c \<and>
    (if cli_ConnectAddr c = '''' then g_connect_addr G' = g_connect_addr G
     else g_connect_addr G' = cli_ConnectAddr c \<and> ParseAddrPort (parseIPv6 X) (cli_ConnectAddr c) \<noteq> None) \<and>
    (if cli_ListenAddr c = '''' then g_listen_addr G' = g_listen_addr G
     else g_listen_addr G' = cli_ListenAddr c \<and> ParseAddrPort (parseIPv6 X) (cli_ListenAddr c) \<noteq> None)"
  using assms
proof (rule parse_cli_RetE)
  fix G1 G2 G3 G6
  assume *: "set_addr X (cli_ConnectAddr c) (\<lambda>v G. G\<lparr>g_connect_addr := v\<rparr>) (parse_flags X c G) = Ret G1"
    "set_addr X (cli_ListenAddr c) (\<lambda>v G. G\<lparr>g_listen_addr := v\<rparr>) G1 = Ret G2"
    "set_addr X (cli_MqttBrokerAddr c) (\<lambda>v G. G\<lparr>g_mqtt_broker_addr := v\<rparr>) G2 = Ret G3"
    "g_connect_addr G6 = g_connect_addr G3" "g_listen_addr G6 = g_listen_addr G3"
    "set_tunnel_ip X (cli_TunnelIp c) G6 = Ret G'" "cmd = cli_command c"
  have "g_connect_addr (parse_flags X c G) = g_connect_addr G" "g_listen_addr (parse_flags X c G) = g_listen_addr G"
    by (simp_all add: parse_flags_def Let_def)
  with * set_tunnel_ip_addrs [OF *(6)] show ?thesis
    using set_addr_Ret [OF *(1)] set_addr_Ret [OF *(2)] set_addr_Ret [OF *(3)] by (simp split: if_splits)
qed

definition demo_cli :: CLI where
  "demo_cli = \<lparr>cli_Debug = False, cli_Trace = False, cli_Nosyslog = True, cli_Secret = '''', cli_Aes = True,
     cli_BalanceConsistent = True, cli_BalanceRoundrobin = False, cli_ConnectAddr = '''', cli_ListenAddr = '''',
     cli_MqttBrokerAddr = '''', cli_MqttUsername = '''', cli_MqttPassword = '''', cli_TunnelId = 660,
     cli_TunName = '''', cli_TunnelIp = dotted [10, 10, 10, 41] @ ''/30'', cli_Mux = 1,
     cli_HttpListenAddr = ''disable'', cli_command = ''server''\<rparr>"

lemma fffffffc: "n \<le> 32 \<Longrightarrow> IPMask_String (cidr_bytes n 4) = ''fffffffc'' \<longleftrightarrow> n = 30"
proof -
  assume "n \<le> 32"
  moreover have "list_all (\<lambda>n. (IPMask_String (cidr_bytes n 4) = ''fffffffc'') = (n = 30)) [0..<33]" by code_simp
  ultimately show ?thesis by (auto simp: list_all_iff)
qed

lemma set_tunnel_ip_30:
  "set_tunnel_ip X (dotted [a, b, c, d] @ ''/30'') G =
     Ret (G\<lparr>g_client_tun_ip := dotted [a, b, c, (d AND 252) + 1], g_server_tun_ip := dotted [a, b, c, (d AND 252) + 2]\<rparr>)"
proof -
  have "IPMask_String [255, 255, 255, 252] = ''fffffffc''" by code_simp
  moreover have "dotted [a, b, c, d] @ ''/30'' \<noteq> ''''" by simp
  ultimately show ?thesis
    unfolding set_tunnel_ip_def ParseCIDR_30 IpHosts_30 by (simp del: dotted.simps)
qed

lemma demo_parse: "\<exists>G' cmd. parse_cli demo_ext demo_cli init_globals = Ret (G', cmd)"
  by (simp add: parse_cli_def demo_cli_def set_addr_def set_tunnel_ip_30 Let_def del: dotted.simps)

theorem accepted_addresses_parse_witness:
  "\<exists>G'. parse_cli demo_ext demo_cli init_globals = Ret (G', ''server'') \<and> g_listen_addr G' = ''0.0.0.0:12345''"
proof -
  obtain G' cmd where p: "parse_cli demo_ext demo_cli init_globals = Ret (G', cmd)" using demo_parse by blast
  from accepted_addresses_parse [OF p] p show ?thesis by (simp add: demo_cli_def init_globals_def)
qed

text \<open>
  C34: with \<^verbatim>\<open>--tunnel-ip\<close> set to a /30 network, written around any of its four addresses, the client's
  end of the tunnel gets its first host and the server's end the second; they differ.
\<close>

theorem tunnel_ip_assigns_hosts:
  assumes "parse_cli X c G = Ret (G', cmd)" "cli_TunnelIp c = dotted [p, q, r, s] @ ''/30''"
  shows "g_client_tun_ip G' = dotted [p, q, r, (s AND 252) + 1] \<and>
    g_server_tun_ip G' = dotted [p, q, r, (s AND 252) + 2] \<and> g_client_tun_ip G' \<noteq> g_server_tun_ip G'"
  using assms(1)
proof (rule parse_cli_RetE)
  fix G6
  assume "set_tunnel_ip X (cli_TunnelIp c) G6 = Ret G'"
  then have "G' = G6\<lparr>g_client_tun_ip := dotted [p, q, r, (s AND 252) + 1], g_server_tun_ip := dotted [p, q, r, (s AND 252) + 2]\<rparr>"
    unfolding assms(2) set_tunnel_ip_30 by simp
  moreover have "(s AND 252) + 1 \<noteq> (s AND 252) + 2" by simp
  ultimately show ?thesis using dotted_inject [of "[p, q, r, (s AND 252) + 1]" "[p, q, r, (s AND 252) + 2]"]
    by (simp del: dotted.simps)
qed

theorem tunnel_ip_assigns_hosts_witness:
  "\<exists>G' cmd. parse_cli demo_ext demo_cli init_globals = Ret (G', cmd) \<and> g_client_tun_ip G' = ''10.10.10.41'' \<and>
     g_server_tun_ip G' = ''10.10.10.42''"
proof -
  obtain G' cmd where p: "parse_cli demo_ext demo_cli init_globals = Ret (G', cmd)" using demo_parse by blast
  have "(41 :: u8) AND 252 = 40" by simp
  moreover have "dotted [10, 10, 10, 40 + 1] = ''10.10.10.41''" "dotted [10, 10, 10, 40 + 2] = ''10.10.10.42''"
    by code_simp+
  ultimately show ?thesis
    using tunnel_ip_assigns_hosts [OF p, of 10 10 10 41] p by (simp add: demo_cli_def del: dotted.simps)
qed

text \<open>
  Any other prefix length is refused, with exit status 1.
\<close>

theorem tunnel_ip_only_30:
  assumes "ParseCIDR (parseIPv6 X) v = Inr (a, nt)" "net_Mask nt = cidr_bytes n 4" "n \<le> 32" "n \<noteq> 30" "v \<noteq> ''''"
  shows "set_tunnel_ip X v G = Exit 1"
  using assms fffffffc [OF assms(3)] by (simp add: set_tunnel_ip_def)

theorem tunnel_ip_only_30_witness: "set_tunnel_ip demo_ext ''10.10.10.0/24'' init_globals = Exit 1"
proof (rule tunnel_ip_only_30 [where n = 24])
  have "cidr_bytes 24 (Suc (Suc (Suc (Suc 0)))) = cidr_bytes 24 4" by code_simp
  moreover have "dtoi 0 ''24'' = Some 24" by (simp add: is_digit_def digit_val_def)
  moreover have "ParseAddr (parseIPv6 demo_ext) ''10.10.10.0'' = Some [10, 10, 10, 0]" by code_simp
  ultimately show "ParseCIDR (parseIPv6 demo_ext) ''10.10.10.0/24'' =
      Inr (As16 [10, 10, 10, 0], \<lparr>net_IP = IP_Mask (As16 [10, 10, 10, 0]) (cidr_bytes 24 4), net_Mask = cidr_bytes 24 4\<rparr>)"
    by (simp add: ParseCIDR_def Let_def del: dtoi.simps cidr_bytes.simps)
qed simp_all

section \<open>Interfaces\<close>

text \<open>
  \<^verbatim>\<open>network_getIpAddr\<close> gives at most one address, the first of the interface, and only if that is an
  IPv4 address; an interface whose first address is an IPv6 address has none.
\<close>

theorem getIpAddr_first_ipv4:
  assumes "ifas = Inr (is1 @ i # is2)" "ni_name i = name" "name \<noteq> ''''" "name \<notin> ni_name ` set is1"
    and "ni_addrs i = Inr (NetAddr a # as)"
  shows "network_getIpAddr ifas name = Inr (case To4 a of Some q \<Rightarrow> [dotted q] | None \<Rightarrow> [])"
proof -
  have "getIpAddr_loop name (is1 @ i # is2) = (case To4 a of Some q \<Rightarrow> [dotted q] | None \<Rightarrow> [])"
    using assms(2-5) by (induction is1) auto
  then show ?thesis using assms(1) by (simp add: network_getIpAddr_def)
qed

theorem getIpAddr_first_ipv4_witness:
  "network_getIpAddr (Inr demo_ifaces) ''eth0'' = Inr [dotted [192, 168, 1, 2]]"
  using getIpAddr_first_ipv4 [of "Inr demo_ifaces" "[demo_ifaces ! 0]" "demo_ifaces ! 1" "[demo_ifaces ! 2]" "''eth0''"
      "[192, 168, 1, 2]" "[]"]
  by (simp add: demo_ifaces_def del: dotted.simps)

text \<open>
  A join over an interface without an IPv4 address as its first panics, after the tunnel has
  been set up and before anything is entered into the bond.
\<close>

theorem join_without_ipv4_panics:
  assumes "network_getIpAddr (ce_ifaces E) ifname = Inr []" "g_server_list s t = None" "1 \<le> g_mux_max G"
    and "ce_tun E = Inr i" "unat t + 11 < 2 ^ 32"
  shows "client_connect_server X G E t src ifname s = Panic ''index out of range''"
proof -
  let ?s0 = "s\<lparr>g_server_list := (g_server_list s)(t \<mapsto> new_serverType)\<rparr>"
  have "\<exists>s1. client_ensure_tun X G E t new_serverType ?s0 = Ret (s1, True)"
    using assms(4) by (simp add: client_ensure_tun_def new_serverType_def createTun_def Let_def)
  then obtain s1 where s1: "client_ensure_tun X G E t new_serverType ?s0 = Ret (s1, True)" by blast
  define used where "used = (\<lambda>k. conn_tbl t (upd_sv t (client_ensure_map X) s1) k \<noteq> None)"
  have lim: "unat (t + 10) = unat t + 10" using assms(5) by (simp add: unat_word_ariths)
  obtain k where k: "find_avail used (t + 10) t = Some k" "t \<le> k" "unat k \<le> unat t + 11"
    using find_avail_range [of "t + 10" t used] lim assms(5) by auto
  have "k \<noteq> t + 100"
  proof
    assume "k = t + 100"
    then have "unat (k - t) = 100" by simp
    then show False using k(2,3) unat_sub [OF k(2)] by simp
  qed
  moreover have "get_wan_ip (ce_ifaces E) (ce_resolve E) (ce_http E) ifname = Panic ''index out of range''"
    using assms(1) by (simp add: get_wan_ip_def)
  moreover have "client_num_connections_by_src src new_serverType s = 0"
    by (simp add: client_num_connections_by_src_def)
  ultimately have "client_connect_prepare X G E t src ifname s = Panic ''index out of range''"
    using assms(2,3) s1 k(1) by (simp add: client_connect_prepare_def Let_def used_def)
  then show ?thesis by (simp add: client_connect_server_def)
qed

theorem join_without_ipv4_panics_witness:
  "client_connect_server demo_ext demo_globals
     ((demo_env 1)\<lparr>ce_ifaces := Inr [\<lparr>ni_name = ''wwan0'', ni_hw = '''', ni_addrs = Inr [NetAddr [32, 1, 13, 184, 0, 0, 0, 0, 0, 0, 0, 0, 0, 0, 0, 1]]\<rparr>]\<rparr>)
     660 ''192.168.1.2'' ''wwan0'' init_client = Panic ''index out of range''"
  by (rule join_without_ipv4_panics [where i = "''tun660''"])
     (simp_all add: network_getIpAddr_def To4_def v4InV6Prefix_def init_client_def demo_globals_def
       init_globals_def demo_env_def)

section \<open>Byte counts\<close>

text \<open>
  \<^verbatim>\<open>ByteCountDecimal\<close> and \<^verbatim>\<open>ByteCountBinary\<close> format every non-negative 64-bit count: the index into
  the prefixes stays in range, and the divisor is the power of the unit below the count.
\<close>

theorem byte_counts_format:
  assumes "unit \<le> b" "b < 2 ^ 63" "unit = 1000 \<or> unit = 1024"
  shows "\<exists>e < 6. unit ^ (e + 1) \<le> b \<and> b < unit ^ (e + 2) \<and>
    (unit = 1000 \<longrightarrow> ByteCountDecimal b = Ret (Scaled b (unit ^ (e + 1)) (''kMGTPE'' ! e) ''B'')) \<and>
    (unit = 1024 \<longrightarrow> ByteCountBinary b = Ret (Scaled b (unit ^ (e + 1)) (''KMGTPE'' ! e) ''iB''))"
proof -
  have d: "b < 1000 ^ (length ''kMGTPE'' + 1)" "b < 1024 ^ (length ''KMGTPE'' + 1)" using assms(2) by simp_all
  show ?thesis
  proof (cases "unit = 1000")
    case True
    with byte_count_spec [of 1000 b, OF _ _ d(1), of "''B''"] assms(1) show ?thesis by (auto simp: ByteCountDecimal_def)
  next
    case False
    then have "unit = 1024" using assms(3) by simp
    with byte_count_spec [of 1024 b, OF _ _ d(2), of "''iB''"] assms(1) show ?thesis by (auto simp: ByteCountBinary_def)
  qed
qed

theorem byte_counts_format_witness: "\<exists>e < 6. ByteCountDecimal 1500000 = Ret (Scaled 1500000 (1000 ^ (e + 1)) (''kMGTPE'' ! e) ''B'')"
  using byte_counts_format [of 1000 1500000] by auto

end
