(* ===== verification/Logging_Properties.thy ===== *)
theory Logging_Properties
  imports Logging Program_Properties
begin

text \<open>The properties of the logger as the command line sets it up.\<close>



text \<open>
  On a host without a system log the program crashes with its first message of level info or
  above, unless \<^verbatim>\<open>--nosyslog\<close> is given: the error of \<^verbatim>\<open>syslog.New\<close> is dropped and its nil writer written to.
\<close>

theorem missing_syslog_crashes:
  assumes "\<not> cli_Nosyslog c" "lvl \<le> InfoLevel" "\<And>f. \<exists>line. format f = Inr line" "werr Stderr = None"
  shows "log_entry (init_logging (parse_flags X c init_globals) (Inl e)) lvl format werr =
    Panic ''nil pointer dereference''"
proof -
  obtain l where l: "\<And>f. format f = Inr (l f)" using assms(3) by metis
  have "g_use_syslog (parse_flags X c init_globals)" using assms(1) by (simp add: parse_flags_def init_globals_def Let_def)
  moreover have "\<not> lg_Level (init_logging G (Inl e)) < lvl" for G
    using assms(2) by (cases lvl) (simp_all add: init_logging_def less_level_def less_eq_level_def)
  ultimately show ?thesis
    using assms(2,4)
    by (auto simp: log_entry_def init_logging_def stderr_hook_all syslog_hook_levels Fire_def l not_less)
qed

theorem missing_syslog_crashes_witness:
  "log_entry (init_logging (parse_flags demo_ext (demo_cli\<lparr>cli_Nosyslog := False\<rparr>) init_globals) (Inl ''Unix syslog delivery error'')) InfoLevel
     (\<lambda>f. Inr ''hi'') (\<lambda>w. None) = Panic ''nil pointer dereference''"
  by (rule missing_syslog_crashes) simp_all

end
