(* ===== verification/Go_Json.thy ===== *)
theory Go_Json
  imports Prelude
begin

text \<open>
  \<^verbatim>\<open>encoding/json\<close>, as far as the program uses it: \<^verbatim>\<open>json.Unmarshal\<close> into a \<^verbatim>\<open>[]string\<close>. It succeeds on the
  literal \<^verbatim>\<open>null\<close> (the nil slice) and on an array of strings and \<^verbatim>\<open>null\<close>s (an empty string each), and
  fails on every other text: what is no JSON, and JSON of any other type. Bytes are characters.
\<close>

section \<open>String literals\<close>

text \<open>A string literal as its raw bytes and its UTF-16 code units.\<close>

datatype json_char = Raw char | Unit nat

definition code :: "char \<Rightarrow> nat" where
  "code c = of_char c"

definition hex_val :: "char \<Rightarrow> nat option" where
  "hex_val c =
     (if 48 \<le> code c \<and> code c \<le> 57 then Some (code c - 48)
      else if 97 \<le> code c \<and> code c \<le> 102 then Some (code c - 87)
      else if 65 \<le> code c \<and> code c \<le> 70 then Some (code c - 55)
      else None)"

fun hex_number :: "nat \<Rightarrow> string \<Rightarrow> nat option" where
  "hex_number acc [] = Some acc"
| "hex_number acc (c # cs) = (case hex_val c of None \<Rightarrow> None | Some v \<Rightarrow> hex_number (16 * acc + v) cs)"

definition simple_escape :: "char \<Rightarrow> char option" where
  "simple_escape c =
     (if c = CHR 0x22 \<or> c = CHR 0x5C \<or> c = CHR ''/'' then Some c
      else if c = CHR ''b'' then Some (CHR 0x08)
      else if c = CHR ''f'' then Some (CHR 0x0C)
      else if c = CHR ''n'' then Some (CHR 0x0A)
      else if c = CHR ''r'' then Some (CHR 0x0D)
      else if c = CHR ''t'' then Some (CHR 0x09)
      else None)"

definition add_char :: "json_char \<Rightarrow> (json_char list \<times> string) option \<Rightarrow> (json_char list \<times> string) option" where
  "add_char x r = map_option (\<lambda>(xs, rest). (x # xs, rest)) r"

text \<open>What follows the opening quote, up to the closing one.\<close>

function scan_string :: "string \<Rightarrow> (json_char list \<times> string) option" where
  "scan_string s =
     (case s of
        [] \<Rightarrow> None
      | c # r \<Rightarrow>
          if c = CHR 0x22 then Some ([], r)
          else if c = CHR 0x5C then
            (case r of
               [] \<Rightarrow> None
             | e # r1 \<Rightarrow>
                 if e = CHR ''u'' then
                   (if length r1 < 4 then None
                    else case hex_number 0 (take 4 r1) of
                      None \<Rightarrow> None
                    | Some v \<Rightarrow> add_char (Unit v) (scan_string (drop 4 r1)))
                 else (case simple_escape e of
                         None \<Rightarrow> None
                       | Some x \<Rightarrow> add_char (Raw x) (scan_string r1)))
          else if code c < 32 then None
          else add_char (Raw c) (scan_string r))"
  by pat_completeness auto
termination by (relation "measure length") auto

declare scan_string.simps [simp del]

text \<open>UTF-8: the length of the encoding at the head of a text, \<open>0\<close> when it is none.\<close>

definition cont :: "string \<Rightarrow> nat \<Rightarrow> nat \<Rightarrow> nat \<Rightarrow> bool" where
  "cont s i lo hi \<longleftrightarrow> i < length s \<and> lo \<le> code (s ! i) \<and> code (s ! i) \<le> hi"

definition utf8_size :: "string \<Rightarrow> nat" where
  "utf8_size s =
     (if s = [] then 0
      else let b = code (hd s)
      in if b < 0x80 then 1
         else if 0xC2 \<le> b \<and> b \<le> 0xDF then (if cont s 1 0x80 0xBF then 2 else 0)
         else if 0xE0 \<le> b \<and> b \<le> 0xEF then
           (if cont s 1 (if b = 0xE0 then 0xA0 else 0x80) (if b = 0xED then 0x9F else 0xBF) \<and> cont s 2 0x80 0xBF
            then 3 else 0)
         else if 0xF0 \<le> b \<and> b \<le> 0xF4 then
           (if cont s 1 (if b = 0xF0 then 0x90 else 0x80) (if b = 0xF4 then 0x8F else 0xBF) \<and>
               cont s 2 0x80 0xBF \<and> cont s 3 0x80 0xBF
            then 4 else 0)
         else 0)"

definition replacement :: string where
  "replacement = [CHR 0xEF, CHR 0xBF, CHR 0xBD]"

definition EncodeRune :: "nat \<Rightarrow> string" where
  "EncodeRune r =
     (if r < 0x80 then [char_of r]
      else if r < 0x800 then [char_of (0xC0 + r div 64), char_of (0x80 + r mod 64)]
      else if r < 0x10000 then [char_of (0xE0 + r div 4096), char_of (0x80 + r div 64 mod 64), char_of (0x80 + r mod 64)]
      else [char_of (0xF0 + r div 262144), char_of (0x80 + r div 4096 mod 64), char_of (0x80 + r div 64 mod 64),
            char_of (0x80 + r mod 64)])"

definition is_surrogate :: "nat \<Rightarrow> bool" where
  "is_surrogate r \<longleftrightarrow> 0xD800 \<le> r \<and> r < 0xE000"

text \<open>The raw bytes at the head of a scanned literal.\<close>

fun raw_prefix :: "json_char list \<Rightarrow> string" where
  "raw_prefix (Raw c # xs) = c # raw_prefix xs"
| "raw_prefix _ = []"

text \<open>
  The text a literal stands for: surrogate pairs joined, everything that is no rune replaced by
  U+FFFD. Escaped bytes are ASCII and so are no part of a longer encoding.
\<close>

function unquote :: "json_char list \<Rightarrow> string" where
  "unquote xs =
     (case xs of
        [] \<Rightarrow> []
      | Raw c # r \<Rightarrow>
          (let n = utf8_size (take 4 (raw_prefix xs))
           in if n = 0 then replacement @ unquote r else take n (raw_prefix xs) @ unquote (drop n xs))
      | Unit u # r \<Rightarrow>
          if is_surrogate u then
            (case r of
               Unit v # r2 \<Rightarrow>
                 if u < 0xDC00 \<and> 0xDC00 \<le> v \<and> v < 0xE000
                 then EncodeRune ((u - 0xD800) * 1024 + (v - 0xDC00) + 0x10000) @ unquote r2
                 else replacement @ unquote r
             | _ \<Rightarrow> replacement @ unquote r)
          else EncodeRune u @ unquote r)"
  by pat_completeness auto
termination by (relation "measure length") auto

declare unquote.simps [simp del]

section \<open>Arrays of strings\<close>

definition is_space :: "char \<Rightarrow> bool" where
  "is_space c \<longleftrightarrow> c = CHR '' '' \<or> c = CHR 0x09 \<or> c = CHR 0x0A \<or> c = CHR 0x0D"

definition skip :: "string \<Rightarrow> string" where
  "skip s = dropWhile is_space s"

text \<open>A string or \<^verbatim>\<open>null\<close>.\<close>

definition json_elem :: "string \<Rightarrow> (string \<times> string) option" where
  "json_elem s =
     (if take 4 s = ''null'' then Some ('''', drop 4 s)
      else if s \<noteq> [] \<and> hd s = CHR 0x22 then map_option (\<lambda>(xs, rest). (unquote xs, rest)) (scan_string (tl s))
      else None)"

lemma add_char_Some: "add_char x r = Some (xs, rest) \<longleftrightarrow> (\<exists>ys. r = Some (ys, rest) \<and> xs = x # ys)"
  by (auto simp: add_char_def)

lemma scan_string_shorter: "scan_string s = Some (xs, rest) \<Longrightarrow> length rest < length s"
proof (induction s arbitrary: xs rule: measure_induct_rule [of length])
  case (less s)
  have sub: "length rest < length r" if "length r < length s" "scan_string r = Some (ys, rest)" for r ys
    by (rule less.IH [OF that])
  from less.prems show ?case
    unfolding scan_string.simps [of s]
    by (auto simp: add_char_Some split: list.splits if_splits option.splits dest!: sub [rotated])
qed

lemma json_elem_shorter: "json_elem s = Some (v, rest) \<Longrightarrow> length rest < length s"
proof -
  assume e: "json_elem s = Some (v, rest)"
  show ?thesis
  proof (cases "take 4 s = ''null''")
    case True
    then have "s \<noteq> []" by auto
    with True e show ?thesis by (auto simp: json_elem_def)
  next
    case False
    with e obtain xs where "s \<noteq> []" "scan_string (tl s) = Some (xs, rest)"
      by (auto simp: json_elem_def split: if_splits)
    then show ?thesis using scan_string_shorter [of "tl s" xs rest] by (cases s) simp_all
  qed
qed

lemma skip_le: "length (skip s) \<le> length s"
  by (simp add: skip_def length_dropWhile_le)

text \<open>What follows the opening bracket, or a comma, of an array: an element, and a comma or the closing bracket.\<close>

function json_elems :: "string \<Rightarrow> (string list \<times> string) option" where
  "json_elems s =
     (case json_elem (skip s) of
        None \<Rightarrow> None
      | Some (v, rest) \<Rightarrow>
          (case skip rest of
             [] \<Rightarrow> None
           | c # r \<Rightarrow>
               if c = CHR '']'' then Some ([v], r)
               else if c = CHR '','' then map_option (\<lambda>(vs, q). (v # vs, q)) (json_elems r)
               else None))"
  by pat_completeness auto
termination
proof (relation "measure length")
  fix s x v rest c r
  assume "json_elem (skip s) = Some x" "(v, rest) = x" "skip rest = c # r"
  then show "(r, s) \<in> measure length"
    using json_elem_shorter [of "skip s" v rest] skip_le [of s] skip_le [of rest] by auto
qed simp

declare json_elems.simps [simp del]

definition Unmarshal_strings :: "string \<Rightarrow> go_error + string list" where
  "Unmarshal_strings data =
     (let s = skip data
      in if take 4 s = ''null'' \<and> skip (drop 4 s) = [] then Inr []
         else if s = [] \<or> hd s \<noteq> CHR ''['' then Inl ''invalid''
         else if skip (tl s) \<noteq> [] \<and> hd (skip (tl s)) = CHR '']'' then
           (if skip (tl (skip (tl s))) = [] then Inr [] else Inl ''invalid'')
         else case json_elems (tl s) of
           Some (vs, rest) \<Rightarrow> if skip rest = [] then Inr vs else Inl ''invalid''
         | None \<Rightarrow> Inl ''invalid'')"

section \<open>Plain texts\<close>

text \<open>
  \<open>json_array xs\<close> writes the texts as an array, without any escape; a text of printable ASCII
  characters other than the quote and the backslash needs none.
\<close>

definition plain :: "string \<Rightarrow> bool" where
  "plain s \<longleftrightarrow> (\<forall>c \<in> set s. 32 \<le> code c \<and> code c < 128 \<and> c \<noteq> CHR 0x22 \<and> c \<noteq> CHR 0x5C)"

fun json_items :: "string list \<Rightarrow> string" where
  "json_items [] = '']''"
| "json_items [x] = [CHR 0x22] @ x @ [CHR 0x22] @ '']''"
| "json_items (x # xs) = [CHR 0x22] @ x @ [CHR 0x22] @ '','' @ json_items xs"

definition json_array :: "string list \<Rightarrow> string" where
  "json_array xs = ''['' @ json_items xs"

lemma scan_string_plain: "plain x \<Longrightarrow> scan_string (x @ CHR 0x22 # rest) = Some (map Raw x, rest)"
proof (induction x)
  case Nil
  show ?case by (subst scan_string.simps) simp
next
  case (Cons c x)
  then show ?case by (subst scan_string.simps) (auto simp: plain_def add_char_def)
qed

lemma unquote_plain: "plain x \<Longrightarrow> unquote (map Raw x) = x"
proof (induction x)
  case Nil
  show ?case by (subst unquote.simps) simp
next
  case (Cons c x)
  then have "utf8_size (take 4 (raw_prefix (map Raw (c # x)))) = 1"
    by (auto simp: utf8_size_def plain_def)
  with Cons show ?case by (subst unquote.simps) (simp add: plain_def Let_def)
qed

lemma skip_quote [simp]: "skip (CHR 0x22 # s) = CHR 0x22 # s" "skip (CHR '','' # s) = CHR '','' # s"
  "skip (CHR '']'' # s) = CHR '']'' # s" "skip (CHR ''['' # s) = CHR ''['' # s" "skip [] = []"
  by (simp_all add: skip_def is_space_def)

lemma json_elem_plain: "plain x \<Longrightarrow> json_elem (CHR 0x22 # x @ CHR 0x22 # rest) = Some (x, rest)"
  by (simp add: json_elem_def scan_string_plain unquote_plain)

lemma json_elems_items:
  "xs \<noteq> [] \<Longrightarrow> \<forall>x \<in> set xs. plain x \<Longrightarrow> json_elems (json_items xs) = Some (xs, [])"
proof (induction xs rule: json_items.induct)
  case (2 x)
  then show ?case by (subst json_elems.simps) (simp add: json_elem_plain)
next
  case (3 x y zs)
  then show ?case by (subst json_elems.simps) (simp add: json_elem_plain)
qed simp

lemma Unmarshal_json_array:
  assumes "\<forall>x \<in> set xs. plain x"
  shows "Unmarshal_strings (json_array xs) = Inr xs"
proof (cases xs)
  case Nil
  then show ?thesis by (simp add: Unmarshal_strings_def json_array_def)
next
  case (Cons y ys)
  obtain r where "json_items xs = CHR 0x22 # r" by (cases ys) (simp_all add: Cons)
  with json_elems_items [of xs] assms Cons show ?thesis
    by (simp add: Unmarshal_strings_def json_array_def)
qed

end
