(* ===== verification/Aggregator.thy ===== *)
theory Aggregator
  imports Main_Loop Go_Json
begin

text \<open>
  The mode \<^verbatim>\<open>connectaggregator\<close> (\<^verbatim>\<open>p_mqtt.go\<close>, \<^verbatim>\<open>p_aggregator.go\<close>): a client that gets its command line from
  an MQTT broker. The MQTT library calls the three handlers from goroutines of its own; they and
  the main loop share global variables without a lock, so each of them is a step of a transition
  system.

  The library is not modelled: what is asked of it are effects, and what it answers are arguments. So
  are the flag parser (\<open>K\<close>, from \<^verbatim>\<open>os.Args\<close> to the flags) and the host's interfaces.
\<close>

section \<open>State\<close>

datatype mqtt_effect =
    MqttConnect handle string string string
  | MqttDisconnect handle nat
  | MqttSubscribe handle string nat
  | MqttPublish handle string "piece list"
  | Go_run_client CLI globals

record aggregator =
  ag_globals :: globals
  ag_CLI :: CLI
  g_things_broker :: string
  g_things_broker_port :: int
  g_things_mqttclient :: "handle option"
  g_things_mqtt_connected :: bool
  g_mqtt_token :: string
  g_mqtt_token_secret :: string
  g_mqtt_argv :: string
  g_mac :: string
  ag_out :: "mqtt_effect list"

text \<open>The package variables when \<^verbatim>\<open>run_aggregator\<close> is called, the command line having been parsed.\<close>

definition init_aggregator :: "globals \<Rightarrow> CLI \<Rightarrow> aggregator" where
  "init_aggregator G c = \<lparr>ag_globals = G, ag_CLI = c, g_things_broker = '''', g_things_broker_port = 1833,
     g_things_mqttclient = None, g_things_mqtt_connected = False, g_mqtt_token = '''',
     g_mqtt_token_secret = ''testing'', g_mqtt_argv = '''', g_mac = '''', ag_out = []\<rparr>"

definition mqtt_do :: "mqtt_effect list \<Rightarrow> aggregator \<Rightarrow> aggregator" where
  "mqtt_do es s = s\<lparr>ag_out := ag_out s @ es\<rparr>"

section \<open>Topics\<close>

text \<open>What the aggregator listens to.\<close>

definition token_topic :: "string \<Rightarrow> string" where
  "token_topic mac = ''/ratbondserver/'' @ mac @ ''/token''"

definition session_topics :: "string \<Rightarrow> string" where
  "session_topics token = ''/ratbondserver/'' @ token @ ''/+''"

definition argv_topic :: "string \<Rightarrow> string" where
  "argv_topic token = ''/ratbondserver/'' @ token @ ''/argv''"

text \<open>What it publishes to.\<close>

definition need_token_topic :: "string \<Rightarrow> string" where
  "need_token_topic mac = ''/ratbond/'' @ mac @ ''/need-token''"

definition need_argv_topic :: "string \<Rightarrow> string" where
  "need_argv_topic token = ''/ratbond/'' @ token @ ''/need-argv''"

definition hello_topic :: "string \<Rightarrow> string" where
  "hello_topic token = ''/ratbond/'' @ token @ ''/hello''"

lemma token_argv_topics: "token_topic m \<noteq> argv_topic t"
proof
  assume "token_topic m = argv_topic t"
  then have "rev (token_topic m) = rev (argv_topic t)" by simp
  then show False by (simp add: token_topic_def argv_topic_def)
qed

section \<open>\<open>p_mqtt.go\<close>\<close>

definition mqtt_sub :: "handle option \<Rightarrow> string \<Rightarrow> aggregator \<Rightarrow> aggregator" where
  "mqtt_sub client topic s =
     (case client of
        None \<Rightarrow> s
      | Some h \<Rightarrow> if g_things_mqtt_connected s then mqtt_do [MqttSubscribe h topic 1] s else s)"

definition mqtt_send :: "string \<Rightarrow> piece list \<Rightarrow> aggregator \<Rightarrow> aggregator" where
  "mqtt_send topic payload s =
     (case g_things_mqttclient s of
        None \<Rightarrow> s
      | Some h \<Rightarrow> if g_things_mqtt_connected s then mqtt_do [MqttPublish h topic payload] s else s)"

text \<open>\<open>h\<close> is the new client, \<open>err\<close> the error of its connection attempt.\<close>

definition mqtt_connect_things :: "handle \<Rightarrow> go_error option \<Rightarrow> aggregator \<Rightarrow> bool \<times> aggregator" where
  "mqtt_connect_things h err s =
     (let s1 = (case g_things_mqttclient s of None \<Rightarrow> s | Some h0 \<Rightarrow> mqtt_do [MqttDisconnect h0 1000] s);
          url = ''tcp://'' @ g_things_broker s @ '':'' @ dec_int (g_things_broker_port s);
          s2 = mqtt_do [MqttConnect h url (g_mqtt_username (ag_globals s)) (g_mqtt_password (ag_globals s))]
                 (s1\<lparr>g_things_mqttclient := Some h\<rparr>)
      in (err = None, s2))"

definition mqtt_check_brokers :: "handle \<Rightarrow> go_error option \<Rightarrow> aggregator \<Rightarrow> aggregator" where
  "mqtt_check_brokers h err s = (if g_things_mqtt_connected s then s else snd (mqtt_connect_things h err s))"

section \<open>\<open>do_mqtt_requests\<close>\<close>

text \<open>\<^verbatim>\<open>network_get_mac\<close>, which also keeps the address in \<^verbatim>\<open>g_mac\<close>.\<close>

definition ask_mac :: "go_error + net_iface list \<Rightarrow> aggregator \<Rightarrow> (string \<times> aggregator) outcome" where
  "ask_mac ifas s = obind (network_get_mac ifas (g_mac s)) (\<lambda>(m, g). Ret (m, s\<lparr>g_mac := g\<rparr>))"

text \<open>
  What the aggregator asks for next: a token, then a command line; with both, the client is
  started, as a goroutine that sets \<^verbatim>\<open>g_run_client\<close> itself.
\<close>

definition do_mqtt_requests ::
  "'r ext \<Rightarrow> (string list \<Rightarrow> CLI outcome) \<Rightarrow> go_error + net_iface list \<Rightarrow> aggregator \<Rightarrow> aggregator outcome"
where
  "do_mqtt_requests X K ifas s =
     (if g_mqtt_token s = '''' then
        obind (ask_mac ifas s) (\<lambda>(m, s1).
          Ret (mqtt_send (need_token_topic m) [Txt (g_mqtt_token_secret s1)] s1))
      else if g_mqtt_argv s = '''' then
        Ret (mqtt_send (need_argv_topic (g_mqtt_token s)) [Txt ''hello''] s)
      else if \<not> g_run_client (ag_globals s) then
        (case Unmarshal_strings (g_mqtt_argv s) of
           Inl e \<Rightarrow> Ret s
         | Inr arr \<Rightarrow>
             obind (K arr) (\<lambda>c.
             obind (parse_cli X c (ag_globals s)) (\<lambda>(G, cmd).
               Ret (mqtt_do [Go_run_client c G] (s\<lparr>ag_globals := G, ag_CLI := c\<rparr>)))))
      else Ret s)"

section \<open>The handlers\<close>

definition things_connectHandler ::
  "'r ext \<Rightarrow> (string list \<Rightarrow> CLI outcome) \<Rightarrow> go_error + net_iface list \<Rightarrow> aggregator \<Rightarrow> aggregator outcome"
where
  "things_connectHandler X K ifas s =
     (let s1 = s\<lparr>g_things_mqtt_connected := True, g_mqtt_token := ''''\<rparr>
      in obind (ask_mac ifas s1) (\<lambda>(m, s2).
           do_mqtt_requests X K ifas (mqtt_sub (g_things_mqttclient s2) (token_topic m) s2)))"

definition things_connectLostHandler :: "aggregator \<Rightarrow> aggregator outcome" where
  "things_connectLostHandler s =
     obind (of_option ''nil pointer dereference'' (g_things_mqttclient s)) (\<lambda>h.
       Ret ((mqtt_do [MqttDisconnect h 1000] s)\<lparr>g_things_mqtt_connected := False, g_things_mqttclient := None,
              g_mqtt_token := ''''\<rparr>))"

definition things_messagePubHandler ::
  "go_error + net_iface list \<Rightarrow> string \<Rightarrow> string \<Rightarrow> aggregator \<Rightarrow> aggregator outcome"
where
  "things_messagePubHandler ifas topic payload s =
     obind (ask_mac ifas s) (\<lambda>(m, s1).
       if topic = token_topic m then
         Ret (mqtt_sub (g_things_mqttclient s1) (session_topics payload) (s1\<lparr>g_mqtt_token := payload\<rparr>))
       else if topic = argv_topic (g_mqtt_token s1) then
         (if g_mqtt_argv s1 \<noteq> '''' \<and> g_mqtt_argv s1 \<noteq> payload then Exit 1
          else Ret (s1\<lparr>g_mqtt_argv := payload\<rparr>))
       else Ret s1)"

section \<open>\<open>run_aggregator\<close>\<close>

text \<open>Up to the pause of 100 ms after the first connection attempt, and from there to the loop.\<close>

definition run_aggregator_start ::
  "'r ext \<Rightarrow> handle \<Rightarrow> go_error option \<Rightarrow> aggregator \<Rightarrow> aggregator outcome"
where
  "run_aggregator_start X h err s0 =
     (let s = s0\<lparr>ag_globals := (ag_globals s0)\<lparr>g_run_aggregator := True\<rparr>\<rparr>
      in if g_mqtt_broker_addr (ag_globals s) = '''' then Exit 1
         else case ParseAddrPort (parseIPv6 X) (g_mqtt_broker_addr (ag_globals s)) of
           None \<Rightarrow> Exit 1
         | Some (a, p) \<Rightarrow>
             Ret (mqtt_check_brokers h err (s\<lparr>g_things_broker := IP_String (ipv6_String X) a,
               g_things_broker_port := int (unat p)\<rparr>)))"

definition run_aggregator_begin ::
  "'r ext \<Rightarrow> (string list \<Rightarrow> CLI outcome) \<Rightarrow> go_error + net_iface list \<Rightarrow> aggregator \<Rightarrow> aggregator outcome"
where
  "run_aggregator_begin X K ifas s =
     obind (if g_things_mqtt_connected s then do_mqtt_requests X K ifas s else Ret s) (\<lambda>s1.
     obind (ask_mac ifas s1) (\<lambda>(m, s2). Ret (s2\<lparr>g_mqtt_token_secret := m\<rparr>)))"

text \<open>
  One round of the loop. \<open>stats\<close> is the text of \<^verbatim>\<open>printServerList\<close>, computed when the client runs.
\<close>

definition run_aggregator_tick ::
  "'r ext \<Rightarrow> (string list \<Rightarrow> CLI outcome) \<Rightarrow> go_error + net_iface list \<Rightarrow> handle \<Rightarrow> go_error option \<Rightarrow>
     piece list outcome \<Rightarrow> nat \<times> aggregator \<Rightarrow> (nat \<times> aggregator) outcome"
where
  "run_aggregator_tick X K ifas h err stats = (\<lambda>(loopcount0, s).
     let loopcount = loopcount0 + 1
     in obind (if loopcount mod 200 = 0 \<and> g_things_mqtt_connected s then do_mqtt_requests X K ifas s else Ret s) (\<lambda>s1.
          if loopcount mod 1500 = 0 then
            (let s2 = mqtt_check_brokers h err s1
             in if g_run_client (ag_globals s2) then
                  obind stats (\<lambda>text.
                    Ret (1, if g_mqtt_token s2 \<noteq> ''''
                            then mqtt_send (hello_topic (g_mqtt_token s2)) text s2 else s2))
                else Ret (1, s2))
          else Ret (loopcount, s1)))"

text \<open>The rounds of the loop, each with what the outside answers during it.\<close>

definition aggregator_loop ::
  "'r ext \<Rightarrow> (string list \<Rightarrow> CLI outcome) \<Rightarrow>
     ((go_error + net_iface list) \<times> handle \<times> go_error option \<times> piece list outcome) list \<Rightarrow>
     nat \<times> aggregator \<Rightarrow> (nat \<times> aggregator) outcome"
where
  "aggregator_loop X K = ofold (\<lambda>(ifas, h, err, stats). run_aggregator_tick X K ifas h err stats)"

text \<open>The goroutine that \<open>Go_run_client\<close> stands for, up to its own loop.\<close>

definition aggregator_run_client :: "aggregator \<Rightarrow> (effect list \<times> aggregator) outcome" where
  "aggregator_run_client s =
     obind (run_client_start (ag_CLI s) (ag_globals s)) (\<lambda>(G, es). Ret (es, s\<lparr>ag_globals := G\<rparr>))"

section \<open>The transition system\<close>

text \<open>
  The library calls the connect and the connection-lost handler for the client that is connected. A
  round may find the client's state in any way, so its text is arbitrary.
\<close>

inductive agg_step ::
  "'r ext \<Rightarrow> (string list \<Rightarrow> CLI outcome) \<Rightarrow> aggregator \<Rightarrow> aggregator \<Rightarrow> bool" for X K where
  on_connect: "g_things_mqttclient s \<noteq> None \<Longrightarrow> things_connectHandler X K ifas s = Ret s' \<Longrightarrow> agg_step X K s s'"
| on_lost: "things_connectLostHandler s = Ret s' \<Longrightarrow> agg_step X K s s'"
| on_message: "things_messagePubHandler ifas topic payload s = Ret s' \<Longrightarrow> agg_step X K s s'"
| begin_loop: "run_aggregator_begin X K ifas s = Ret s' \<Longrightarrow> agg_step X K s s'"
| tick: "run_aggregator_tick X K ifas h err stats (n, s) = Ret (n', s') \<Longrightarrow> agg_step X K s s'"
| client: "aggregator_run_client s = Ret (es, s') \<Longrightarrow> agg_step X K s s'"

inductive agg_reachable ::
  "'r ext \<Rightarrow> (string list \<Rightarrow> CLI outcome) \<Rightarrow> aggregator \<Rightarrow> bool" for X K where
  start: "run_aggregator_start X h err (init_aggregator G c) = Ret s \<Longrightarrow> agg_reachable X K s"
| step: "agg_reachable X K s \<Longrightarrow> agg_step X K s s' \<Longrightarrow> agg_reachable X K s'"

inductive_cases agg_stepE: "agg_step X K s s'"

section \<open>What the operations leave alone\<close>

definition same_session :: "aggregator \<Rightarrow> aggregator \<Rightarrow> bool" where
  "same_session s s' \<longleftrightarrow> g_things_mqttclient s' = g_things_mqttclient s \<and>
     g_things_mqtt_connected s' = g_things_mqtt_connected s \<and> g_mqtt_token s' = g_mqtt_token s \<and>
     g_mqtt_argv s' = g_mqtt_argv s \<and> g_mqtt_token_secret s' = g_mqtt_token_secret s \<and>
     g_things_broker s' = g_things_broker s \<and> g_things_broker_port s' = g_things_broker_port s"

lemma same_session_refl [simp]: "same_session s s"
  by (simp add: same_session_def)

lemma mqtt_do_fields [simp]:
  "ag_globals (mqtt_do es s) = ag_globals s" "ag_CLI (mqtt_do es s) = ag_CLI s"
  "g_things_mqttclient (mqtt_do es s) = g_things_mqttclient s"
  "g_things_mqtt_connected (mqtt_do es s) = g_things_mqtt_connected s"
  "g_mqtt_token (mqtt_do es s) = g_mqtt_token s" "g_mqtt_argv (mqtt_do es s) = g_mqtt_argv s"
  "g_mqtt_token_secret (mqtt_do es s) = g_mqtt_token_secret s"
  "g_things_broker (mqtt_do es s) = g_things_broker s" "g_things_broker_port (mqtt_do es s) = g_things_broker_port s"
  "g_mac (mqtt_do es s) = g_mac s" "ag_out (mqtt_do es s) = ag_out s @ es"
  by (simp_all add: mqtt_do_def)

lemma mqtt_talk_same [simp]:
  "same_session s (mqtt_send topic payload s)" "same_session s (mqtt_sub c topic s)"
  by (simp_all add: mqtt_send_def mqtt_sub_def same_session_def split: option.splits)

lemma mqtt_talk_globals [simp]:
  "ag_globals (mqtt_send topic payload s) = ag_globals s" "ag_globals (mqtt_sub c topic s) = ag_globals s"
  by (simp_all add: mqtt_send_def mqtt_sub_def split: option.splits)

lemma ask_mac_Ret:
  assumes "ask_mac ifas s = Ret (m, s1)"
  obtains g where "s1 = s\<lparr>g_mac := g\<rparr>" "network_get_mac ifas (g_mac s) = Ret (m, g)"
  using assms by (auto simp: ask_mac_def outcome_simps)

lemma do_mqtt_requests_cases:
  assumes "do_mqtt_requests X K ifas s = Ret s'"
  obtains (token) m g where "g_mqtt_token s = ''''" "network_get_mac ifas (g_mac s) = Ret (m, g)"
      "s' = mqtt_send (need_token_topic m) [Txt (g_mqtt_token_secret s)] (s\<lparr>g_mac := g\<rparr>)"
    | (argv) "s' = mqtt_send (need_argv_topic (g_mqtt_token s)) [Txt ''hello''] s"
    | (start) c G where "s' = mqtt_do [Go_run_client c G] (s\<lparr>ag_globals := G, ag_CLI := c\<rparr>)"
    | (idle) "s' = s"
proof -
  consider (t) "g_mqtt_token s = ''''" | (a) "g_mqtt_token s \<noteq> ''''" "g_mqtt_argv s = ''''"
    | (r) "g_mqtt_token s \<noteq> ''''" "g_mqtt_argv s \<noteq> ''''" "g_run_client (ag_globals s)"
    | (s) "g_mqtt_token s \<noteq> ''''" "g_mqtt_argv s \<noteq> ''''" "\<not> g_run_client (ag_globals s)" by blast
  then show ?thesis
  proof cases
    case t
    with assms obtain m s1 where m: "ask_mac ifas s = Ret (m, s1)"
      and s': "s' = mqtt_send (need_token_topic m) [Txt (g_mqtt_token_secret s1)] s1"
      unfolding do_mqtt_requests_def by (simp add: outcome_simps) blast
    from m obtain g where g: "s1 = s\<lparr>g_mac := g\<rparr>" "network_get_mac ifas (g_mac s) = Ret (m, g)" by (rule ask_mac_Ret)
    show ?thesis by (rule token [OF t g(2)]) (simp add: s' g(1))
  next
    case a
    show ?thesis by (rule argv) (use assms a in \<open>simp add: do_mqtt_requests_def\<close>)
  next
    case r
    show ?thesis by (rule idle) (use assms r in \<open>simp add: do_mqtt_requests_def\<close>)
  next
    case s
    show ?thesis
    proof (cases "Unmarshal_strings (g_mqtt_argv s)")
      case (Inl e)
      show ?thesis by (rule idle) (use assms s Inl in \<open>simp add: do_mqtt_requests_def\<close>)
    next
      case (Inr arr)
      with assms s obtain c G where "s' = mqtt_do [Go_run_client c G] (s\<lparr>ag_globals := G, ag_CLI := c\<rparr>)"
        unfolding do_mqtt_requests_def by (auto simp: outcome_simps)
      then show ?thesis by (rule start)
    qed
  qed
qed

lemma do_mqtt_requests_same:
  assumes "do_mqtt_requests X K ifas s = Ret s'"
  shows "same_session s s'"
  using assms
proof (cases rule: do_mqtt_requests_cases)
  case (token m g)
  then show ?thesis
    using mqtt_talk_same(1) [of "s\<lparr>g_mac := g\<rparr>" "need_token_topic m" "[Txt (g_mqtt_token_secret s)]"]
    by (simp add: same_session_def)
qed (simp_all add: same_session_def [of s "mqtt_do es u" for es u])

section \<open>Talking to the broker\<close>

text \<open>
  \<open>says s s'\<close>: what was published and subscribed to between the two states went through the client
  that is connected in the second.
\<close>

definition through :: "handle \<Rightarrow> mqtt_effect \<Rightarrow> bool" where
  "through h e \<longleftrightarrow>
     (case e of MqttSubscribe h' t q \<Rightarrow> h' = h | MqttPublish h' t p \<Rightarrow> h' = h | _ \<Rightarrow> True)"

definition talks :: "mqtt_effect \<Rightarrow> bool" where
  "talks e \<longleftrightarrow> (case e of MqttSubscribe h t q \<Rightarrow> True | MqttPublish h t p \<Rightarrow> True | _ \<Rightarrow> False)"

definition says :: "aggregator \<Rightarrow> aggregator \<Rightarrow> bool" where
  "says s s' \<longleftrightarrow> (\<exists>es. ag_out s' = ag_out s @ es \<and>
     (\<forall>e \<in> set es. talks e \<longrightarrow>
        (\<exists>h. g_things_mqttclient s' = Some h \<and> g_things_mqtt_connected s' \<and> through h e)))"

lemma saysI:
  assumes "ag_out s' = ag_out s @ es"
    and "\<And>e. e \<in> set es \<Longrightarrow> talks e \<Longrightarrow>
      \<exists>h. g_things_mqttclient s' = Some h \<and> g_things_mqtt_connected s' \<and> through h e"
  shows "says s s'"
  using assms by (auto simp: says_def)

lemma says_quiet: "ag_out s' = ag_out s \<Longrightarrow> says s s'"
  by (rule saysI [of _ _ "[]"]) simp_all

lemma says_trans:
  assumes "says s u" "says u v" "same_session u v"
  shows "says s v"
proof -
  obtain es fs where "ag_out u = ag_out s @ es" "ag_out v = ag_out u @ fs"
    "\<forall>e \<in> set es. talks e \<longrightarrow> (\<exists>h. g_things_mqttclient u = Some h \<and> g_things_mqtt_connected u \<and> through h e)"
    "\<forall>e \<in> set fs. talks e \<longrightarrow> (\<exists>h. g_things_mqttclient v = Some h \<and> g_things_mqtt_connected v \<and> through h e)"
    using assms(1,2) unfolding says_def by blast
  with assms(3) show ?thesis
    by (intro saysI [of _ _ "es @ fs"]) (auto simp: same_session_def)
qed

lemma mqtt_send_says: "says s (mqtt_send topic payload s)"
proof (cases "g_things_mqttclient s")
  case None
  then show ?thesis by (simp add: mqtt_send_def says_quiet)
next
  case (Some h)
  then show ?thesis
    by (cases "g_things_mqtt_connected s")
       (auto simp: mqtt_send_def through_def says_quiet intro: saysI [of _ _ "[MqttPublish h topic payload]"])
qed

lemma mqtt_sub_says: "says s (mqtt_sub (g_things_mqttclient s) topic s)"
proof (cases "g_things_mqttclient s")
  case None
  then show ?thesis by (simp add: mqtt_sub_def says_quiet)
next
  case (Some h)
  then show ?thesis
    by (cases "g_things_mqtt_connected s")
       (auto simp: mqtt_sub_def through_def says_quiet intro: saysI [of _ _ "[MqttSubscribe h topic 1]"])
qed

lemma says_after: "says u s' \<Longrightarrow> ag_out u = ag_out s \<Longrightarrow> says s s'"
  by (simp add: says_def)

lemma do_mqtt_requests_says:
  assumes "do_mqtt_requests X K ifas s = Ret s'"
  shows "says s s'"
  using assms
proof (cases rule: do_mqtt_requests_cases)
  case (token m g)
  then show ?thesis using says_after [OF mqtt_send_says, of "s\<lparr>g_mac := g\<rparr>" s] by simp
next
  case (start c G)
  then show ?thesis by (intro saysI [of _ _ "[Go_run_client c G]"]) (simp_all add: talks_def)
qed (simp_all add: mqtt_send_says says_quiet)

text \<open>Only a connected client is marked connected.\<close>

definition agg_inv :: "aggregator \<Rightarrow> bool" where
  "agg_inv s \<longleftrightarrow> (g_things_mqtt_connected s \<longrightarrow> g_things_mqttclient s \<noteq> None)"

lemma same_session_inv: "agg_inv s \<Longrightarrow> same_session s s' \<Longrightarrow> agg_inv s'"
  by (simp add: agg_inv_def same_session_def)

lemma check_brokers_step:
  "agg_inv s \<Longrightarrow> agg_inv (mqtt_check_brokers h err s)" "says s (mqtt_check_brokers h err s)"
  "g_mqtt_argv (mqtt_check_brokers h err s) = g_mqtt_argv s"
  by (auto simp: mqtt_check_brokers_def mqtt_connect_things_def agg_inv_def says_def talks_def Let_def split: option.splits)

lemma check_brokers_connected: "g_things_mqtt_connected s \<Longrightarrow> mqtt_check_brokers h err s = s"
  by (simp add: mqtt_check_brokers_def)

text \<open>What every step keeps.\<close>

definition orderly :: "aggregator \<Rightarrow> aggregator \<Rightarrow> bool" where
  "orderly s s' \<longleftrightarrow> (agg_inv s \<longrightarrow> agg_inv s') \<and> says s s' \<and>
     (g_mqtt_argv s \<noteq> '''' \<longrightarrow> g_mqtt_argv s' = g_mqtt_argv s)"

lemma orderly_quiet: "same_session s s' \<Longrightarrow> says s s' \<Longrightarrow> orderly s s'"
  by (auto simp: orderly_def same_session_def agg_inv_def)

lemma do_mqtt_requests_orderly: "do_mqtt_requests X K ifas s = Ret s' \<Longrightarrow> orderly s s'"
  by (blast intro: orderly_quiet do_mqtt_requests_same do_mqtt_requests_says)

lemma connect_orderly:
  assumes "things_connectHandler X K ifas s = Ret s'" "g_things_mqttclient s \<noteq> None"
  shows "orderly s s'"
proof -
  let ?s1 = "s\<lparr>g_things_mqtt_connected := True, g_mqtt_token := ''''\<rparr>"
  from assms(1) obtain m g where
    ret: "do_mqtt_requests X K ifas (mqtt_sub (g_things_mqttclient s) (token_topic m) (?s1\<lparr>g_mac := g\<rparr>)) = Ret s'"
    by (auto simp: things_connectHandler_def Let_def outcome_simps elim!: ask_mac_Ret)
  let ?u = "mqtt_sub (g_things_mqttclient s) (token_topic m) (?s1\<lparr>g_mac := g\<rparr>)"
  have "says (?s1\<lparr>g_mac := g\<rparr>) ?u" using mqtt_sub_says [of "?s1\<lparr>g_mac := g\<rparr>"] by simp
  then have "says (?s1\<lparr>g_mac := g\<rparr>) s'"
    by (rule says_trans [OF _ do_mqtt_requests_says [OF ret] do_mqtt_requests_same [OF ret]])
  then have "says s s'" by (rule says_after) simp
  moreover have "same_session ?u s'" by (rule do_mqtt_requests_same [OF ret])
  moreover have "same_session (?s1\<lparr>g_mac := g\<rparr>) ?u" by simp
  ultimately show ?thesis using assms(2) by (simp add: orderly_def agg_inv_def same_session_def)
qed

lemma lost_orderly: "things_connectLostHandler s = Ret s' \<Longrightarrow> orderly s s'"
  by (auto simp: things_connectLostHandler_def outcome_simps orderly_def agg_inv_def says_def talks_def)

lemma message_cases:
  assumes "things_messagePubHandler ifas topic payload s = Ret s'"
  obtains (token) g where "s' = mqtt_sub (g_things_mqttclient s) (session_topics payload)
      (s\<lparr>g_mac := g, g_mqtt_token := payload\<rparr>)"
    | (argv) g where "g_mqtt_argv s = '''' \<or> g_mqtt_argv s = payload" "s' = s\<lparr>g_mac := g, g_mqtt_argv := payload\<rparr>"
    | (other) g where "s' = s\<lparr>g_mac := g\<rparr>"
proof -
  from assms obtain m s1 where m: "ask_mac ifas s = Ret (m, s1)"
    by (auto simp: things_messagePubHandler_def outcome_simps)
  then obtain g where s1: "s1 = s\<lparr>g_mac := g\<rparr>" by (rule ask_mac_Ret)
  show ?thesis
    using assms token [of g] argv [of g] other [of g] unfolding things_messagePubHandler_def m s1
    by (auto split: if_splits)
qed

lemma message_orderly:
  assumes "things_messagePubHandler ifas topic payload s = Ret s'"
  shows "orderly s s'"
  using assms
proof (cases rule: message_cases)
  case (token g)
  let ?u = "s\<lparr>g_mac := g, g_mqtt_token := payload\<rparr>"
  have "says ?u s'" "same_session ?u s'"
    using mqtt_sub_says [of ?u "session_topics payload"] token by simp_all
  then show ?thesis by (auto simp: orderly_def agg_inv_def same_session_def intro: says_after)
next
  case (argv g)
  then show ?thesis by (auto simp: orderly_def agg_inv_def says_quiet)
qed (simp_all add: orderly_def agg_inv_def says_quiet)

lemma begin_orderly:
  assumes "run_aggregator_begin X K ifas s = Ret s'"
  shows "orderly s s'"
proof -
  obtain u g m where u: "u = s \<or> do_mqtt_requests X K ifas s = Ret u" "s' = u\<lparr>g_mac := g, g_mqtt_token_secret := m\<rparr>"
    using assms by (auto simp: run_aggregator_begin_def outcome_simps split: if_splits elim!: ask_mac_Ret)
  have "orderly s u" using u(1) do_mqtt_requests_orderly by (auto intro: orderly_quiet says_quiet)
  with u(2) show ?thesis by (simp add: orderly_def agg_inv_def says_def)
qed

lemma tick_orderly:
  assumes "run_aggregator_tick X K ifas h err stats (n, s) = Ret (n', s')"
  shows "orderly s s'"
proof -
  obtain s1 where s1: "s1 = s \<or> do_mqtt_requests X K ifas s = Ret s1 \<and> g_things_mqtt_connected s"
    and s': "s' = s1 \<or> s' = mqtt_check_brokers h err s1 \<or>
      (\<exists>t p. s' = mqtt_send t p (mqtt_check_brokers h err s1))"
    using assms by (auto simp: run_aggregator_tick_def Let_def outcome_simps split: if_splits)
  have o1: "orderly s s1" using s1 do_mqtt_requests_orderly by (auto intro: orderly_quiet says_quiet)
  let ?s2 = "mqtt_check_brokers h err s1"
  have "says s ?s2"
  proof (cases "s1 = s")
    case True
    then show ?thesis by (simp add: check_brokers_step)
  next
    case False
    with s1 have "g_things_mqtt_connected s1"
      using do_mqtt_requests_same [of X K ifas s s1] by (simp add: same_session_def)
    with o1 show ?thesis by (simp add: check_brokers_connected orderly_def)
  qed
  with o1 have o2: "orderly s ?s2" using check_brokers_step [where s = s1 and h = h and err = err] by (auto simp: orderly_def)
  have "orderly s (mqtt_send t p ?s2)" for t p
    using o2 says_trans [OF _ mqtt_send_says mqtt_talk_same(1), of s ?s2 t p] mqtt_talk_same(1) [of ?s2 t p]
    by (auto simp: orderly_def same_session_def agg_inv_def)
  with s' o1 o2 show ?thesis by auto
qed

lemma client_orderly: "aggregator_run_client s = Ret (es, s') \<Longrightarrow> orderly s s'"
  by (auto simp: aggregator_run_client_def outcome_simps orderly_def agg_inv_def says_def)

lemma agg_step_orderly: "agg_step X K s s' \<Longrightarrow> orderly s s'"
  by (erule agg_stepE) (auto intro: connect_orderly lost_orderly message_orderly begin_orderly tick_orderly client_orderly)

lemma agg_start_inv:
  "run_aggregator_start X h err (init_aggregator G c) = Ret s \<Longrightarrow> agg_inv s"
  by (auto simp: run_aggregator_start_def init_aggregator_def agg_inv_def Let_def mqtt_check_brokers_def
      mqtt_connect_things_def split: if_splits option.splits)

lemma agg_reachable_inv: "agg_reachable X K s \<Longrightarrow> agg_inv s"
  by (induction rule: agg_reachable.induct) (auto intro: agg_start_inv dest: agg_step_orderly simp: orderly_def)

end
