(* ===== verification/Aggregator_Properties.thy ===== *)
theory Aggregator_Properties
  imports Aggregator Program_Properties
begin

text \<open>The properties of the mode that takes its orders from an MQTT broker.\<close>

section \<open>A broker and a host to test on\<close>

definition demo_kong :: "string list \<Rightarrow> CLI outcome" where
  "demo_kong argv =
     (if argv = [''ratbond'', ''--tunnel-id=660''] then Ret (demo_cli\<lparr>cli_TunnelIp := ''''\<rparr>) else Exit 1)"

definition demo_argv :: string where
  "demo_argv = json_array [''ratbond'', ''--tunnel-id=660'']"

definition demo_mac :: string where
  "demo_mac = ''DE:AD:BE:EF:00:01''"

definition demo_agg :: aggregator where
  "demo_agg = (init_aggregator demo_globals demo_cli)\<lparr>g_things_mqttclient := Some 5, g_things_mqtt_connected := True\<rparr>"

lemma demo_get_mac: "network_get_mac (Inr demo_ifaces) '''' = Ret (demo_mac, ''de:ad:be:ef:00:01'')"
  by code_simp

lemma demo_argv_ok: "Unmarshal_strings demo_argv = Inr [''ratbond'', ''--tunnel-id=660'']" "demo_argv \<noteq> ''''"
proof -
  show "Unmarshal_strings demo_argv = Inr [''ratbond'', ''--tunnel-id=660'']"
    unfolding demo_argv_def by (rule Unmarshal_json_array) (simp add: plain_def code_def)
  show "demo_argv \<noteq> ''''" by (simp add: demo_argv_def json_array_def)
qed

lemma demo_kong_ok: "demo_kong [''ratbond'', ''--tunnel-id=660''] = Ret (demo_cli\<lparr>cli_TunnelIp := ''''\<rparr>)"
  by (simp add: demo_kong_def)

lemma demo_kong_parse: "\<exists>G. parse_cli demo_ext (demo_cli\<lparr>cli_TunnelIp := ''''\<rparr>) H = Ret (G, ''server'') \<and> g_run_client G = g_run_client H"
  by (simp add: parse_cli_def set_addr_def set_tunnel_ip_def parse_flags_def demo_cli_def Let_def)

section \<open>The handshake\<close>

lemma get_mac_again: "network_get_mac ifas g0 = Ret (m, g) \<Longrightarrow> network_get_mac ifas g = Ret (m, g)"
proof -
  have last: "last_or (last_or d xs) xs = last_or d xs" for d xs
    by (cases xs rule: rev_cases) (simp_all add: last_or_def)
  show "network_get_mac ifas g0 = Ret (m, g) \<Longrightarrow> ?thesis"
    by (auto simp: network_get_mac_def Let_def last split: sum.splits)
qed



section \<open>Safety\<close>

text \<open>
  C17: a command line is final: whatever happens after the aggregator has received one, it keeps
  it, and a message with another one ends the process.
\<close>

theorem argv_is_final:
  assumes "g_mqtt_argv s \<noteq> ''''" "(agg_step X K)\<^sup>*\<^sup>* s s'" "network_get_mac ifas (g_mac s') = Ret (m, g)"
    and "payload \<noteq> g_mqtt_argv s"
  shows "g_mqtt_argv s' = g_mqtt_argv s \<and> things_messagePubHandler ifas (argv_topic (g_mqtt_token s')) payload s' = Exit 1"
proof -
  from assms(2) have "g_mqtt_argv s' = g_mqtt_argv s"
    by (induction rule: rtranclp_induct) (use assms(1) agg_step_orderly in \<open>fastforce simp: orderly_def\<close>)+
  then show ?thesis
    using assms(1,3,4) token_argv_topics [of m "g_mqtt_token s'"]
    by (auto simp: things_messagePubHandler_def ask_mac_def)
qed

theorem argv_is_final_witness:
  "things_messagePubHandler (Inr demo_ifaces) (argv_topic '''') ''[]'' (demo_agg\<lparr>g_mqtt_argv := demo_argv\<rparr>) = Exit 1"
proof -
  let ?s = "demo_agg\<lparr>g_mqtt_argv := demo_argv\<rparr>"
  have mac: "network_get_mac (Inr demo_ifaces) (g_mac ?s) = Ret (demo_mac, ''de:ad:be:ef:00:01'')"
    using demo_get_mac by (simp add: demo_agg_def init_aggregator_def)
  have ne: "g_mqtt_argv ?s \<noteq> ''''" "''[]'' \<noteq> g_mqtt_argv ?s"
    using demo_argv_ok(2) by (simp_all add: demo_argv_def json_array_def)
  have "g_mqtt_token ?s = ''''" by (simp add: demo_agg_def init_aggregator_def)
  with argv_is_final [OF ne(1) rtranclp.rtrancl_refl mac ne(2)] show ?thesis by simp
qed

text \<open>
  The aggregator talks only to the broker it is connected to: in every state it can reach it
  is marked connected only if it has a client, and what a step publishes or subscribes to goes through
  the client that is connected after the step.
\<close>

theorem talks_when_connected:
  assumes "agg_reachable X K s" "agg_step X K s s'"
  shows "(g_things_mqtt_connected s' \<longrightarrow> g_things_mqttclient s' \<noteq> None) \<and>
    (\<exists>es. ag_out s' = ag_out s @ es \<and>
      (\<forall>h topic payload qos. MqttPublish h topic payload \<in> set es \<or> MqttSubscribe h topic qos \<in> set es \<longrightarrow>
         g_things_mqtt_connected s' \<and> g_things_mqttclient s' = Some h))"
proof -
  have o: "orderly s s'" by (rule agg_step_orderly [OF assms(2)])
  then have "agg_inv s'" using agg_reachable_inv [OF assms(1)] by (simp add: orderly_def)
  moreover obtain es where es: "ag_out s' = ag_out s @ es"
    "\<forall>e \<in> set es. talks e \<longrightarrow> (\<exists>h. g_things_mqttclient s' = Some h \<and> g_things_mqtt_connected s' \<and> through h e)"
    using o unfolding orderly_def says_def by blast
  moreover have "g_things_mqtt_connected s' \<and> g_things_mqttclient s' = Some h"
    if "MqttPublish h topic payload \<in> set es \<or> MqttSubscribe h topic qos \<in> set es" for h topic payload qos
    using that es(2) by (fastforce simp: talks_def through_def)
  ultimately show ?thesis unfolding agg_inv_def by blast
qed

definition demo_agg_globals :: globals where
  "demo_agg_globals = demo_globals\<lparr>g_mqtt_broker_addr := ''10.1.2.3:18''\<rparr>"

lemma demo_agg_start:
  "\<exists>s. run_aggregator_start demo_ext 5 None (init_aggregator demo_agg_globals demo_cli) = Ret s \<and>
     g_things_mqttclient s = Some 5 \<and> \<not> g_things_mqtt_connected s \<and> g_mqtt_token_secret s = ''testing'' \<and>
     g_mac s = '''' \<and> g_mqtt_token s = ''''"
proof -
  have "''10.1.2.3:18'' = dotted [10, 1, 2, 3] @ CHR '':'' # dec_of (unat (18 :: u16))" by code_simp
  then have "ParseAddrPort (parseIPv6 demo_ext) ''10.1.2.3:18'' = Some ([10, 1, 2, 3], 18)"
    using ParseAddrPort_dotted [of "[10, 1, 2, 3]" "parseIPv6 demo_ext" 18] by (simp del: dec_of.simps)
  then show ?thesis
    by (simp add: run_aggregator_start_def init_aggregator_def demo_agg_globals_def mqtt_check_brokers_def
        mqtt_connect_things_def Let_def)
qed

lemma demo_connect:
  assumes "g_things_mqttclient s = Some h" "g_mac s = ''''"
  shows "\<exists>s'. things_connectHandler X K (Inr demo_ifaces) s = Ret s' \<and>
    last (ag_out s') = MqttPublish h (need_token_topic demo_mac) [Txt (g_mqtt_token_secret s)] \<and> g_things_mqtt_connected s'"
  using assms demo_get_mac get_mac_again [OF demo_get_mac]
  by (simp add: things_connectHandler_def do_mqtt_requests_def ask_mac_def mqtt_sub_def mqtt_send_def mqtt_do_def Let_def)

theorem talks_when_connected_witness:
  "\<exists>s s'. things_connectHandler demo_ext demo_kong (Inr demo_ifaces) s = Ret s' \<and> g_things_mqttclient s' \<noteq> None"
proof -
  obtain s where s: "run_aggregator_start demo_ext 5 None (init_aggregator demo_agg_globals demo_cli) = Ret s"
    "g_things_mqttclient s = Some 5" "g_mac s = ''''" using demo_agg_start by blast
  obtain s' where s': "things_connectHandler demo_ext demo_kong (Inr demo_ifaces) s = Ret s'" "g_things_mqtt_connected s'"
    using demo_connect [OF s(2,3)] by blast
  have "g_things_mqttclient s \<noteq> None" using s(2) by simp
  from talks_when_connected [OF agg_reachable.start [OF s(1)] agg_step.on_connect [OF this s'(1)]] s' show ?thesis by blast
qed

section \<open>Losing the connection\<close>

lemma idle_rounds:
  assumes "\<not> g_things_mqtt_connected s"
  shows "n + length env < 1500 \<Longrightarrow> aggregator_loop X K env (n, s) = Ret (n + length env, s)"
proof (induction env arbitrary: n)
  case (Cons e env)
  obtain ifas h err stats where e: "e = (ifas, h, err, stats)" by (cases e)
  have "(n + 1) mod 1500 \<noteq> 0" using Cons.prems by simp
  then have "run_aggregator_tick X K ifas h err stats (n, s) = Ret (n + 1, s)"
    using assms by (simp add: run_aggregator_tick_def)
  moreover have "aggregator_loop X K env (n + 1, s) = Ret (n + 1 + length env, s)" by (rule Cons.IH) (use Cons.prems in simp)
  ultimately show ?case unfolding aggregator_loop_def e by simp
qed (simp add: aggregator_loop_def)

lemma ofold_snoc: "ofold f (es @ [e]) s = obind (ofold f es s) (f e)"
proof (induction es arbitrary: s)
  case Nil
  have "ofold f [] = Ret" by (rule ext) simp
  moreover have "obind x Ret = x" for x :: "'a outcome" by (cases x) simp_all
  ultimately show ?case by simp
next
  case (Cons a es)
  then show ?case by (cases "f a s") simp_all
qed

text \<open>
  C16: a lost connection is given up and retried: the handler disconnects the client and forgets
  it, the token and the connection; nothing happens until the round in which the counter reaches
  1500, and that round connects a new client to the broker, whether or not the attempt succeeds.
\<close>

theorem lost_connection_retried:
  assumes "g_things_mqttclient s = Some h" "n + length env + 1 = 1500"
    and "g_run_client (ag_globals s) \<longrightarrow> stats = Ret text"
  shows "\<exists>s1 s2. things_connectLostHandler s = Ret s1 \<and>
    aggregator_loop X K (env @ [(ifas, k, err, stats)]) (n, s1) = Ret (1, s2) \<and>
    g_things_mqttclient s1 = None \<and> g_mqtt_token s1 = '''' \<and> g_things_mqttclient s2 = Some k \<and>
    ag_out s2 = ag_out s @ [MqttDisconnect h 1000,
      MqttConnect k (''tcp://'' @ g_things_broker s @ '':'' @ dec_int (g_things_broker_port s))
        (g_mqtt_username (ag_globals s)) (g_mqtt_password (ag_globals s))]"
proof -
  define s1 where "s1 = (mqtt_do [MqttDisconnect h 1000] s)\<lparr>g_things_mqtt_connected := False, g_things_mqttclient := None,
    g_mqtt_token := ''''\<rparr>"
  have lost: "things_connectLostHandler s = Ret s1"
    using assms(1) by (simp add: things_connectLostHandler_def s1_def of_option_def)
  let ?s2 = "snd (mqtt_connect_things k err s1)"
  have "aggregator_loop X K env (n, s1) = Ret (n + length env, s1)"
    by (rule idle_rounds) (use assms(2) in \<open>simp_all add: s1_def\<close>)
  moreover have "n + length env + 1 = 1500" by (rule assms(2))
  then have "run_aggregator_tick X K ifas k err stats (n + length env, s1) = Ret (1, ?s2)"
    using assms(3) by (simp add: run_aggregator_tick_def s1_def mqtt_check_brokers_def mqtt_connect_things_def Let_def)
  ultimately have "aggregator_loop X K (env @ [(ifas, k, err, stats)]) (n, s1) = Ret (1, ?s2)"
    by (simp add: aggregator_loop_def ofold_snoc)
  moreover have "g_things_mqttclient ?s2 = Some k" "ag_out ?s2 = ag_out s @ [MqttDisconnect h 1000,
      MqttConnect k (''tcp://'' @ g_things_broker s @ '':'' @ dec_int (g_things_broker_port s))
        (g_mqtt_username (ag_globals s)) (g_mqtt_password (ag_globals s))]"
    by (simp_all add: s1_def mqtt_connect_things_def Let_def)
  moreover have "g_things_mqttclient s1 = None" "g_mqtt_token s1 = ''''" by (simp_all add: s1_def)
  ultimately show ?thesis using lost by blast
qed

theorem lost_connection_retried_witness:
  "\<exists>s1 s2. things_connectLostHandler demo_agg = Ret s1 \<and>
    aggregator_loop demo_ext demo_kong [(Inl ''no interfaces'', 0, None, Ret []), (Inl ''no interfaces'', 6, None, Ret [])] (1498, s1)
      = Ret (1, s2) \<and> g_things_mqttclient s2 = Some 6"
proof -
  have s: "g_things_mqttclient demo_agg = Some 5" by (simp add: demo_agg_def)
  have n: "1498 + length [(Inl ''no interfaces'' :: go_error + net_iface list, 0 :: handle, None :: go_error option, Ret [] :: piece list outcome)] + 1 = 1500"
    by simp
  have "g_run_client (ag_globals demo_agg) \<longrightarrow> (Ret [] :: piece list outcome) = Ret []" by simp
  from lost_connection_retried [where k = 6 and err = None and ifas = "Inl ''no interfaces''" and X = demo_ext and K = demo_kong, OF s n this]
  show ?thesis by auto
qed

section \<open>Two flaws\<close>

text \<open>Whether a command line is accepted does not depend on the settings it changes.\<close>

lemma set_addr_again: "set_addr X v f G = Ret G' \<Longrightarrow> \<exists>H'. set_addr X v f' H = Ret H'"
  by (auto simp: set_addr_def split: if_splits option.splits)

lemma set_tunnel_ip_again: "set_tunnel_ip X v G = Ret G' \<Longrightarrow> \<exists>H'. set_tunnel_ip X v H = Ret H'"
  by (auto simp: set_tunnel_ip_def outcome_simps split: if_splits sum.splits)

lemma parse_cli_again:
  assumes "parse_cli X c G = Ret (G', cmd)"
  shows "\<exists>H'. parse_cli X c H = Ret (H', cmd)"
proof -
  show ?thesis
    using assms
  proof (rule parse_cli_RetE)
    fix G1 G2 G3 G6
    assume a: "set_addr X (cli_ConnectAddr c) (\<lambda>v G. G\<lparr>g_connect_addr := v\<rparr>) (parse_flags X c G) = Ret G1"
      "set_addr X (cli_ListenAddr c) (\<lambda>v G. G\<lparr>g_listen_addr := v\<rparr>) G1 = Ret G2"
      "set_addr X (cli_MqttBrokerAddr c) (\<lambda>v G. G\<lparr>g_mqtt_broker_addr := v\<rparr>) G2 = Ret G3"
      "set_tunnel_ip X (cli_TunnelIp c) G6 = Ret G'" "cmd = cli_command c"
      "cli_HttpListenAddr c = ''disable'' \<or> (\<exists>G5. set_addr X (cli_HttpListenAddr c) (\<lambda>v G. G\<lparr>g_http_listen_addr := v\<rparr>) G5 = Ret G6)"
    obtain H1 where H1: "set_addr X (cli_ConnectAddr c) (\<lambda>v G. G\<lparr>g_connect_addr := v\<rparr>) (parse_flags X c H) = Ret H1"
      using set_addr_again [OF a(1)] by blast
    obtain H2 where H2: "set_addr X (cli_ListenAddr c) (\<lambda>v G. G\<lparr>g_listen_addr := v\<rparr>) H1 = Ret H2"
      using set_addr_again [OF a(2)] by blast
    obtain H3 where H3: "set_addr X (cli_MqttBrokerAddr c) (\<lambda>v G. G\<lparr>g_mqtt_broker_addr := v\<rparr>) H2 = Ret H3"
      using set_addr_again [OF a(3)] by blast
    define H5 where "H5 = (let H4 = (if cli_MqttUsername c \<noteq> '''' then H3\<lparr>g_mqtt_username := cli_MqttUsername c\<rparr> else H3)
      in if cli_MqttPassword c \<noteq> '''' then H4\<lparr>g_mqtt_password := cli_MqttPassword c\<rparr> else H4)"
    obtain H6 where H6: "(if cli_HttpListenAddr c = ''disable'' then Ret (H5\<lparr>g_http_listen_addr := ''''\<rparr>)
        else set_addr X (cli_HttpListenAddr c) (\<lambda>v G. G\<lparr>g_http_listen_addr := v\<rparr>) H5) = Ret H6"
    proof (cases "cli_HttpListenAddr c = ''disable''")
      case False
      then obtain G5 where "set_addr X (cli_HttpListenAddr c) (\<lambda>v G. G\<lparr>g_http_listen_addr := v\<rparr>) G5 = Ret G6"
        using a(6) by blast
      then obtain H6 where "set_addr X (cli_HttpListenAddr c) (\<lambda>v G. G\<lparr>g_http_listen_addr := v\<rparr>) H5 = Ret H6"
        using set_addr_again by blast
      with False that show ?thesis by simp
    qed simp
    obtain H7 where "set_tunnel_ip X (cli_TunnelIp c) H6 = Ret H7" using set_tunnel_ip_again [OF a(4)] by blast
    then have "parse_cli X c H = Ret (H7, cmd)"
      using H6 unfolding parse_cli_def H1 obind.simps H2 H3 H5_def Let_def by (simp only: obind.simps a(5))
    then show ?thesis ..
  qed
qed

lemma parse_cli_run:
  assumes "parse_cli X c G = Ret (G', cmd)"
  shows "g_run_client G' = g_run_client G"
  using assms
proof (rule parse_cli_RetE)
  fix G1 G2 G3 G6
  assume a: "set_addr X (cli_ConnectAddr c) (\<lambda>v G. G\<lparr>g_connect_addr := v\<rparr>) (parse_flags X c G) = Ret G1"
    "set_addr X (cli_ListenAddr c) (\<lambda>v G. G\<lparr>g_listen_addr := v\<rparr>) G1 = Ret G2"
    "set_addr X (cli_MqttBrokerAddr c) (\<lambda>v G. G\<lparr>g_mqtt_broker_addr := v\<rparr>) G2 = Ret G3"
    "set_tunnel_ip X (cli_TunnelIp c) G6 = Ret G'" "g_run_client G6 = g_run_client G3"
  have "g_run_client (parse_flags X c G) = g_run_client G" by (simp add: parse_flags_def Let_def)
  then show ?thesis
    using set_addr_Ret [OF a(1)] set_addr_Ret [OF a(2)] set_addr_Ret [OF a(3)] a(5) set_tunnel_ip_addrs(3) [OF a(4)]
    by (simp split: if_splits)
qed

text \<open>
  The goroutine that runs the client is the one that marks it running, so the main loop and
  the connect handler may both start one: in every state in which a command line has come that
  decodes and parses, and as long as none of the goroutines has run, each round of requests starts one more.
\<close>

theorem second_client_started:
  assumes "g_mqtt_token s \<noteq> ''''" "g_mqtt_argv s \<noteq> ''''" "\<not> g_run_client (ag_globals s)"
    and "Unmarshal_strings (g_mqtt_argv s) = Inr argv" "K argv = Ret c"
    and "parse_cli X c (ag_globals s) = Ret (G, cmd)"
  shows "\<exists>s1 s2 G'. do_mqtt_requests X K ifas s = Ret s1 \<and> do_mqtt_requests X K ifas' s1 = Ret s2 \<and>
    ag_out s2 = ag_out s @ [Go_run_client c G, Go_run_client c G']"
proof -
  have "g_run_client G = g_run_client (ag_globals s)" by (rule parse_cli_run [OF assms(6)])
  moreover obtain G' where "parse_cli X c G = Ret (G', cmd)" using parse_cli_again [OF assms(6)] by blast
  ultimately show ?thesis using assms by (simp add: do_mqtt_requests_def)
qed

theorem second_client_started_witness:
  "\<exists>s1 s2 G G'. do_mqtt_requests demo_ext demo_kong (Inl ''no interfaces'') (demo_agg\<lparr>g_mqtt_token := ''T0'', g_mqtt_argv := demo_argv\<rparr>) = Ret s1 \<and>
    do_mqtt_requests demo_ext demo_kong (Inl ''no interfaces'') s1 = Ret s2 \<and>
    ag_out s2 = [Go_run_client (demo_cli\<lparr>cli_TunnelIp := ''''\<rparr>) G, Go_run_client (demo_cli\<lparr>cli_TunnelIp := ''''\<rparr>) G']"
proof -
  let ?s = "demo_agg\<lparr>g_mqtt_token := ''T0'', g_mqtt_argv := demo_argv\<rparr>"
  have s: "g_mqtt_token ?s \<noteq> ''''" "g_mqtt_argv ?s \<noteq> ''''" "\<not> g_run_client (ag_globals ?s)" "ag_out ?s = []"
    "Unmarshal_strings (g_mqtt_argv ?s) = Inr [''ratbond'', ''--tunnel-id=660'']"
    using demo_argv_ok by (simp_all add: demo_agg_def init_aggregator_def demo_globals_def init_globals_def)
  obtain G where G: "parse_cli demo_ext (demo_cli\<lparr>cli_TunnelIp := ''''\<rparr>) (ag_globals ?s) = Ret (G, ''server'')"
    using demo_kong_parse by blast
  from second_client_started [where X = demo_ext and K = demo_kong, OF s(1-3,5) demo_kong_ok G] s(4) show ?thesis
    by fastforce
qed

text \<open>
  The first request for a token carries the built-in secret: when the broker accepts the
  first connection during the 100 ms the program waits for it, the request that the connect handler
  publishes carries the secret \<^verbatim>\<open>testing\<close>, because the address that replaces it is assigned after the wait.
\<close>

theorem first_request_secret:
  assumes "run_aggregator_start X h err (init_aggregator G c) = Ret s" "network_get_mac ifas '''' = Ret (m, g)"
  shows "\<exists>s'. things_connectHandler X K ifas s = Ret s' \<and>
    last (ag_out s') = MqttPublish h (need_token_topic m) [Txt ''testing'']"
proof -
  have s: "g_things_mqttclient s = Some h" "g_mac s = ''''" "g_mqtt_token_secret s = ''testing''"
    using assms(1) by (auto simp: run_aggregator_start_def init_aggregator_def Let_def mqtt_check_brokers_def
        mqtt_connect_things_def split: if_splits option.splits)
  with assms(2) get_mac_again [OF assms(2)] show ?thesis
    by (simp add: things_connectHandler_def do_mqtt_requests_def ask_mac_def mqtt_sub_def mqtt_send_def mqtt_do_def Let_def)
qed

theorem first_request_secret_witness:
  "\<exists>s s'. run_aggregator_start demo_ext 5 None (init_aggregator demo_agg_globals demo_cli) = Ret s \<and>
    things_connectHandler demo_ext demo_kong (Inr demo_ifaces) s = Ret s' \<and>
    last (ag_out s') = MqttPublish 5 (need_token_topic demo_mac) [Txt ''testing'']"
proof -
  obtain s where s: "run_aggregator_start demo_ext 5 None (init_aggregator demo_agg_globals demo_cli) = Ret s"
    using demo_agg_start by blast
  from first_request_secret [OF s demo_get_mac, of demo_kong] s show ?thesis by blast
qed

end
