(* ===== verification/Go_Channel.thy ===== *)
theory Go_Channel
  imports Prelude
begin

text \<open>
  The memory that the goroutines of \<^verbatim>\<open>t/main_withchannels.go\<close> share beside the bonds: byte buffers and
  buffered channels of packets. A packet that is sent on a channel is copied, but its bytes are not:
  \<^verbatim>\<open>buff\<close> is a slice, so the copy refers to the same buffer. The contract of a bounded queue is the
  locale \<open>bounded_fifo\<close>; \<open>piped_system\<close> is that of a system whose goroutines exchange packets through such queues.
\<close>

section \<open>Buffers and channels\<close>

type_synonym mem_addr = nat

record packetType =
  pt_sequence :: u64
  pt_len :: int
  pt_buff :: mem_addr

record channel =
  ch_cap :: nat
  ch_queue :: "packetType list"

record memory =
  m_buffs :: "mem_addr \<rightharpoonup> u8 list"
  m_chans :: "mem_addr \<rightharpoonup> channel"
  m_next :: mem_addr

definition init_memory :: memory where
  "init_memory = \<lparr>m_buffs = Map.empty, m_chans = Map.empty, m_next = 0\<rparr>"

text \<open>\<^verbatim>\<open>make([]byte, n)\<close> and \<^verbatim>\<open>make(chan packetType, n)\<close>.\<close>

definition buf_make :: "nat \<Rightarrow> memory \<Rightarrow> mem_addr \<times> memory" where
  "buf_make n m = (m_next m, m\<lparr>m_buffs := (m_buffs m)(m_next m \<mapsto> replicate n 0), m_next := Suc (m_next m)\<rparr>)"

definition chan_make :: "nat \<Rightarrow> memory \<Rightarrow> mem_addr \<times> memory" where
  "chan_make n m = (m_next m, m\<lparr>m_chans := (m_chans m)(m_next m \<mapsto> \<lparr>ch_cap = n, ch_queue = []\<rparr>), m_next := Suc (m_next m)\<rparr>)"

text \<open>\<^verbatim>\<open>Read(buff)\<close> puts the data at the start of the buffer and leaves the rest of it as it was.\<close>

definition overwrite :: "u8 list \<Rightarrow> u8 list \<Rightarrow> u8 list" where
  "overwrite data old = take (length old) data @ drop (length data) old"

definition buf_read :: "mem_addr \<Rightarrow> u8 list \<Rightarrow> memory \<Rightarrow> memory" where
  "buf_read b data m = m\<lparr>m_buffs := (m_buffs m)(b := map_option (overwrite data) (m_buffs m b))\<rparr>"

text \<open>\<^verbatim>\<open>buff[:len]\<close>, with the run-time check of the bound.\<close>

definition buf_slice :: "mem_addr \<Rightarrow> int \<Rightarrow> memory \<Rightarrow> u8 list outcome" where
  "buf_slice b len m =
     obind (of_option ''nil pointer dereference'' (m_buffs m b)) (\<lambda>bs.
       if 0 \<le> len \<and> len \<le> int (length bs) then Ret (take (nat len) bs)
       else Panic ''slice bounds out of range'')"

text \<open>\<^verbatim>\<open>c <- p\<close> and the receive of \<^verbatim>\<open>range c\<close>; \<open>None\<close>: the goroutine has to wait. The channels are never closed.\<close>

definition chan_send :: "mem_addr \<Rightarrow> packetType \<Rightarrow> memory \<Rightarrow> memory option" where
  "chan_send c p m =
     (case m_chans m c of
        None \<Rightarrow> None
      | Some ch \<Rightarrow>
          if length (ch_queue ch) < ch_cap ch
          then Some (m\<lparr>m_chans := (m_chans m)(c \<mapsto> ch\<lparr>ch_queue := ch_queue ch @ [p]\<rparr>)\<rparr>) else None)"

definition chan_recv :: "mem_addr \<Rightarrow> memory \<Rightarrow> (packetType \<times> memory) option" where
  "chan_recv c m =
     (case m_chans m c of
        None \<Rightarrow> None
      | Some ch \<Rightarrow>
          (case ch_queue ch of
             [] \<Rightarrow> None
           | p # ps \<Rightarrow> Some (p, m\<lparr>m_chans := (m_chans m)(c \<mapsto> ch\<lparr>ch_queue := ps\<rparr>)\<rparr>)))"

named_theorems mem_simps

lemma length_overwrite [simp]: "length (overwrite data old) = length old"
  by (simp add: overwrite_def)

lemma take_overwrite [simp]: "length data \<le> length old \<Longrightarrow> take (length data) (overwrite data old) = data"
  by (simp add: overwrite_def)

lemma buf_make_fields [mem_simps]:
  "buf_make n m = (b, m') \<Longrightarrow> b = m_next m"
  "buf_make n m = (b, m') \<Longrightarrow> m_chans m' = m_chans m"
  "buf_make n m = (b, m') \<Longrightarrow> m_buffs m' = (m_buffs m)(b \<mapsto> replicate n 0)"
  "buf_make n m = (b, m') \<Longrightarrow> m_next m' = Suc (m_next m)"
  by (auto simp: buf_make_def)

lemma chan_make_fields [mem_simps]:
  "chan_make n m = (c, m') \<Longrightarrow> c = m_next m"
  "chan_make n m = (c, m') \<Longrightarrow> m_chans m' = (m_chans m)(c \<mapsto> \<lparr>ch_cap = n, ch_queue = []\<rparr>)"
  "chan_make n m = (c, m') \<Longrightarrow> m_buffs m' = m_buffs m"
  "chan_make n m = (c, m') \<Longrightarrow> m_next m' = Suc (m_next m)"
  by (auto simp: chan_make_def)

lemma buf_read_fields [simp]:
  "m_chans (buf_read b data m) = m_chans m"
  "m_next (buf_read b data m) = m_next m"
  "m_buffs (buf_read b data m) = (m_buffs m)(b := map_option (overwrite data) (m_buffs m b))"
  by (simp_all add: buf_read_def)

lemma chan_send_Some:
  "chan_send c p m = Some m' \<longleftrightarrow> (\<exists>ch. m_chans m c = Some ch \<and> length (ch_queue ch) < ch_cap ch \<and>
     m' = m\<lparr>m_chans := (m_chans m)(c \<mapsto> ch\<lparr>ch_queue := ch_queue ch @ [p]\<rparr>)\<rparr>)"
  by (auto simp: chan_send_def split: option.splits if_splits)

lemma chan_recv_Some:
  "chan_recv c m = Some (p, m') \<longleftrightarrow> (\<exists>ch ps. m_chans m c = Some ch \<and> ch_queue ch = p # ps \<and>
     m' = m\<lparr>m_chans := (m_chans m)(c \<mapsto> ch\<lparr>ch_queue := ps\<rparr>)\<rparr>)"
  by (auto simp: chan_recv_def split: option.splits list.splits)

section \<open>A channel is a bounded queue\<close>

datatype 'e fifo_op = Snd 'e | Rcv

text \<open>
  Operations tried one after the other; one that would have to wait is given up. The result: what was sent, what was received,
  the queue.
\<close>

fun fifo_run ::
  "('e \<Rightarrow> 'q \<Rightarrow> 'q option) \<Rightarrow> ('q \<Rightarrow> ('e \<times> 'q) option) \<Rightarrow> 'e fifo_op list \<Rightarrow> 'q \<Rightarrow> 'e list \<times> 'e list \<times> 'q"
where
  "fifo_run snd_op rcv_op [] q = ([], [], q)"
| "fifo_run snd_op rcv_op (Snd e # ops) q =
     (case snd_op e q of
        None \<Rightarrow> fifo_run snd_op rcv_op ops q
      | Some q' \<Rightarrow> let (ins, outs, u) = fifo_run snd_op rcv_op ops q' in (e # ins, outs, u))"
| "fifo_run snd_op rcv_op (Rcv # ops) q =
     (case rcv_op q of
        None \<Rightarrow> fifo_run snd_op rcv_op ops q
      | Some (e, q') \<Rightarrow> let (ins, outs, u) = fifo_run snd_op rcv_op ops q' in (ins, e # outs, u))"

locale bounded_fifo =
  fixes snd_op :: "'e \<Rightarrow> 'q \<Rightarrow> 'q option"
    and rcv_op :: "'q \<Rightarrow> ('e \<times> 'q) option"
    and contents :: "'q \<Rightarrow> 'e list"
    and good :: "'q \<Rightarrow> bool"
    and cap :: nat
  assumes snd_room: "good q \<Longrightarrow> length (contents q) < cap \<Longrightarrow>
      \<exists>q'. snd_op e q = Some q' \<and> good q' \<and> contents q' = contents q @ [e]"
    and snd_full: "good q \<Longrightarrow> cap \<le> length (contents q) \<Longrightarrow> snd_op e q = None"
    and rcv_empty: "good q \<Longrightarrow> contents q = [] \<Longrightarrow> rcv_op q = None"
    and rcv_first: "good q \<Longrightarrow> contents q = e # es \<Longrightarrow>
      \<exists>q'. rcv_op q = Some (e, q') \<and> good q' \<and> contents q' = es"
begin

lemma snd_cases:
  assumes "good q"
  obtains (full) "snd_op e q = None" "cap \<le> length (contents q)"
    | (room) q' where "snd_op e q = Some q'" "good q'" "contents q' = contents q @ [e]" "length (contents q) < cap"
  using snd_room [OF assms, of e] snd_full [OF assms, of e] by (cases "length (contents q) < cap") auto

lemma rcv_cases:
  assumes "good q"
  obtains (wait) "rcv_op q = None" "contents q = []"
    | (first) e q' where "rcv_op q = Some (e, q')" "good q'" "contents q = e # contents q'"
  using rcv_empty [OF assms] rcv_first [OF assms] by (cases "contents q") force+

text \<open>What comes out is what went in, in the order in which it went in; nothing is lost or doubled.\<close>

lemma in_order:
  assumes "good q" "length (contents q) \<le> cap" "fifo_run snd_op rcv_op ops q = (ins, outs, q')"
  shows "outs @ contents q' = contents q @ ins \<and> good q' \<and> length (contents q') \<le> cap"
  using assms
proof (induction ops arbitrary: q ins outs)
  case Nil
  then show ?case by simp
next
  case (Cons op ops)
  show ?case
  proof (cases op)
    case (Snd e)
    from Cons.prems(1) show ?thesis
    proof (cases rule: snd_cases [of _ e])
      case full
      with Cons Snd show ?thesis by simp
    next
      case (room q1)
      with Cons.prems Snd obtain ins1 where run: "fifo_run snd_op rcv_op ops q1 = (ins1, outs, q')" "ins = e # ins1"
        by (auto split: prod.splits)
      show ?thesis using Cons.IH [OF room(2) _ run(1)] room run(2) by simp
    qed
  next
    case Rcv
    from Cons.prems(1) show ?thesis
    proof (cases rule: rcv_cases)
      case wait
      with Cons Rcv show ?thesis by simp
    next
      case (first e q1)
      with Cons.prems Rcv obtain outs1 where run: "fifo_run snd_op rcv_op ops q1 = (ins, outs1, q')" "outs = e # outs1"
        by (auto split: prod.splits)
      show ?thesis using Cons.IH [OF first(2) _ run(1)] Cons.prems(2) first run(2) by simp
    qed
  qed
qed

end

definition queue_of :: "mem_addr \<Rightarrow> memory \<Rightarrow> packetType list" where
  "queue_of c m = (case m_chans m c of None \<Rightarrow> [] | Some ch \<Rightarrow> ch_queue ch)"

definition is_chan :: "nat \<Rightarrow> mem_addr \<Rightarrow> memory \<Rightarrow> bool" where
  "is_chan n c m \<longleftrightarrow> (\<exists>ch. m_chans m c = Some ch \<and> ch_cap ch = n \<and> length (ch_queue ch) \<le> n)"

interpretation gochan: bounded_fifo "chan_send c" "chan_recv c" "queue_of c" "is_chan n c" n for c n
proof
  fix m :: memory and p ps
  assume "is_chan n c m" "queue_of c m = p # ps"
  then obtain ch where "m_chans m c = Some ch" "ch_cap ch = n" "ch_queue ch = p # ps" "length (p # ps) \<le> n"
    by (auto simp: is_chan_def queue_of_def)
  then show "\<exists>m'. chan_recv c m = Some (p, m') \<and> is_chan n c m' \<and> queue_of c m' = ps"
    by (intro exI [of _ "m\<lparr>m_chans := (m_chans m)(c \<mapsto> ch\<lparr>ch_queue := ps\<rparr>)\<rparr>"])
       (auto simp: chan_recv_def is_chan_def queue_of_def)
qed (auto simp: chan_send_def chan_recv_def queue_of_def is_chan_def split: option.splits)

section \<open>Goroutines that exchange packets\<close>

text \<open>What a step does to the channels: it sends one packet, receives one, or does neither (it may make a new channel).\<close>

datatype chan_event = Put mem_addr packetType | Take mem_addr packetType | Quiet

fun put_on :: "mem_addr \<Rightarrow> chan_event \<Rightarrow> packetType list" where
  "put_on c (Put c' p) = (if c' = c then [p] else [])"
| "put_on c e = []"

fun took_off :: "mem_addr \<Rightarrow> chan_event \<Rightarrow> packetType list" where
  "took_off c (Take c' p) = (if c' = c then [p] else [])"
| "took_off c e = []"

definition mem_ok :: "memory \<Rightarrow> bool" where
  "mem_ok m \<longleftrightarrow> (\<forall>a. m_next m \<le> a \<longrightarrow> m_chans m a = None \<and> m_buffs m a = None)"

fun mem_event :: "chan_event \<Rightarrow> memory \<Rightarrow> memory \<Rightarrow> bool" where
  "mem_event (Put c p) m m' \<longleftrightarrow> chan_send c p m = Some m'"
| "mem_event (Take c p) m m' \<longleftrightarrow> chan_recv c m = Some (p, m')"
| "mem_event Quiet m m' \<longleftrightarrow> (\<forall>c ch. m_chans m c = Some ch \<longrightarrow> m_chans m' c = Some ch) \<and> m_next m \<le> m_next m'"

lemma mem_event_queue:
  assumes "mem_event e m m'" "is_chan n c m"
  shows "is_chan n c m' \<and> took_off c e @ queue_of c m' = queue_of c m @ put_on c e"
  using assms
  by (cases e) (auto simp: is_chan_def queue_of_def chan_send_Some chan_recv_Some)

text \<open>A packet in transit refers to a buffer of 1500 bytes, and its length is within it.\<close>

definition pkt_ok :: "memory \<Rightarrow> packetType \<Rightarrow> bool" where
  "pkt_ok m p \<longleftrightarrow> 0 \<le> pt_len p \<and> pt_len p \<le> 1500 \<and> map_option length (m_buffs m (pt_buff p)) = Some 1500"

definition mem_inv :: "memory \<Rightarrow> bool" where
  "mem_inv m \<longleftrightarrow> mem_ok m \<and> (\<forall>c p. p \<in> set (queue_of c m) \<longrightarrow> pkt_ok m p)"

text \<open>Channels and buffers are never freed and keep their sizes.\<close>

definition mem_le :: "memory \<Rightarrow> memory \<Rightarrow> bool" where
  "mem_le m m' \<longleftrightarrow> (\<forall>n c. is_chan n c m \<longrightarrow> is_chan n c m') \<and>
     (\<forall>b l. map_option length (m_buffs m b) = Some l \<longrightarrow> map_option length (m_buffs m' b) = Some l)"

lemma mem_le_refl [simp]: "mem_le m m"
  by (simp add: mem_le_def)

lemma mem_le_trans: "mem_le m m' \<Longrightarrow> mem_le m' m'' \<Longrightarrow> mem_le m m''"
  by (auto simp: mem_le_def)

lemma pkt_ok_mono: "pkt_ok m p \<Longrightarrow> mem_le m m' \<Longrightarrow> pkt_ok m' p"
  by (auto simp: pkt_ok_def mem_le_def)

lemma mem_inv_init: "mem_inv init_memory"
  by (simp add: mem_inv_def mem_ok_def init_memory_def queue_of_def)

lemma mem_ok_next: "mem_ok m \<Longrightarrow> m_chans m (m_next m) = None \<and> m_buffs m (m_next m) = None"
  by (simp add: mem_ok_def)

lemma mem_invI:
  assumes "mem_ok m'" "mem_le m m'" "mem_inv m"
    and "\<And>c p. p \<in> set (queue_of c m') \<Longrightarrow> p \<in> set (queue_of c m) \<or> pkt_ok m' p"
  shows "mem_inv m'"
  using assms pkt_ok_mono [OF _ assms(2)] unfolding mem_inv_def by blast

lemma chan_make_inv:
  assumes "mem_inv m" "(c, m') = chan_make n m"
  shows "mem_inv m'" "mem_le m m'" "is_chan n c m'"
proof -
  note f = chan_make_fields [OF assms(2) [symmetric]] and nx = mem_ok_next [of m]
  show le: "mem_le m m'" and "is_chan n c m'"
    using f nx assms(1) by (auto simp: mem_le_def is_chan_def mem_inv_def)
  have "mem_ok m'" using f assms(1) by (auto simp: mem_ok_def mem_inv_def)
  then show "mem_inv m'"
    by (rule mem_invI [OF _ le assms(1)]) (use f in \<open>auto simp: queue_of_def split: if_splits\<close>)
qed

lemma buf_make_inv:
  assumes "mem_inv m" "(b, m') = buf_make n m"
  shows "mem_inv m'" "mem_le m m'" "map_option length (m_buffs m' b) = Some n"
proof -
  note f = buf_make_fields [OF assms(2) [symmetric]] and nx = mem_ok_next [of m]
  show le: "mem_le m m'" and "map_option length (m_buffs m' b) = Some n"
    using f nx assms(1) by (auto simp: mem_le_def is_chan_def mem_inv_def)
  have "mem_ok m'" using f assms(1) by (auto simp: mem_ok_def mem_inv_def)
  then show "mem_inv m'"
    by (rule mem_invI [OF _ le assms(1)]) (use f in \<open>auto simp: queue_of_def\<close>)
qed

lemma buf_read_inv:
  assumes "mem_inv m"
  shows "mem_inv (buf_read b data m)" "mem_le m (buf_read b data m)"
proof -
  show le: "mem_le m (buf_read b data m)" by (auto simp: mem_le_def is_chan_def)
  have "mem_ok (buf_read b data m)" using assms by (auto simp: mem_ok_def mem_inv_def)
  then show "mem_inv (buf_read b data m)"
    by (rule mem_invI [OF _ le assms]) (auto simp: queue_of_def)
qed

lemma chan_send_inv:
  assumes "mem_inv m" "chan_send c p m = Some m'" "pkt_ok m p"
  shows "mem_inv m'" "mem_le m m'"
proof -
  from assms(2) show le: "mem_le m m'" by (auto simp: mem_le_def is_chan_def chan_send_Some)
  have "mem_ok m'" using assms(1,2) by (auto simp: mem_ok_def mem_inv_def chan_send_Some)
  then show "mem_inv m'"
    by (rule mem_invI [OF _ le assms(1)])
       (use assms(2,3) pkt_ok_mono [OF _ le] in \<open>auto simp: queue_of_def chan_send_Some split: if_splits\<close>)
qed

lemma chan_recv_inv:
  assumes "mem_inv m" "chan_recv c m = Some (p, m')"
  shows "mem_inv m'" "mem_le m m'" "pkt_ok m p"
proof -
  from assms(2) show le: "mem_le m m'" by (auto simp: mem_le_def is_chan_def chan_recv_Some)
  have "mem_ok m'" using assms(1,2) by (auto simp: mem_ok_def mem_inv_def chan_recv_Some)
  then show "mem_inv m'"
    by (rule mem_invI [OF _ le assms(1)])
       (use assms(2) in \<open>auto simp: queue_of_def chan_recv_Some split: if_splits\<close>)
  have "p \<in> set (queue_of c m)" using assms(2) by (auto simp: queue_of_def chan_recv_Some)
  then show "pkt_ok m p" using assms(1) by (simp add: mem_inv_def)
qed

section \<open>Systems of goroutines\<close>

inductive run :: "('s \<Rightarrow> chan_event \<Rightarrow> 's \<Rightarrow> bool) \<Rightarrow> 's \<Rightarrow> chan_event list \<Rightarrow> 's \<Rightarrow> bool" for step where
  stop: "run step s [] s"
| more: "run step s es s' \<Longrightarrow> step s' e s'' \<Longrightarrow> run step s (es @ [e]) s''"

lemma run_append: "run step s' es' s'' \<Longrightarrow> run step s es s' \<Longrightarrow> run step s (es @ es') s''"
  by (induction rule: run.induct) (auto simp: append_assoc [symmetric] simp del: append_assoc intro: run.intros)

lemma run_cons:
  assumes "step s e s'" "run step s' es s''"
  shows "run step s (e # es) s''"
  using run_append [OF assms(2), of s "[e]"] run.more [OF run.stop, of step s e s'] assms(1) by simp

lemma run_one: "step s e s' \<Longrightarrow> run step s [e] s'"
  using run.more [OF run.stop, of step s e s'] by simp

text \<open>
  \<open>deaf s c\<close>: no goroutine of \<open>s\<close> receives from \<open>c\<close> or ever will; \<open>waiting s i c\<close>: goroutine \<open>i\<close> is about to send on \<open>c\<close>.
\<close>

locale piped_system =
  fixes step :: "'s \<Rightarrow> chan_event \<Rightarrow> 's \<Rightarrow> bool"
    and mem :: "'s \<Rightarrow> memory"
    and inv :: "'s \<Rightarrow> bool"
    and deaf :: "'s \<Rightarrow> mem_addr \<Rightarrow> bool"
    and waiting :: "'s \<Rightarrow> nat \<Rightarrow> mem_addr \<Rightarrow> bool"
  assumes step_inv: "inv s \<Longrightarrow> step s e s' \<Longrightarrow> inv s'"
    and step_mem: "inv s \<Longrightarrow> step s e s' \<Longrightarrow> mem_event e (mem s) (mem s')"
    and deaf_stays: "inv s \<Longrightarrow> step s e s' \<Longrightarrow> deaf s c \<Longrightarrow> deaf s' c"
    and deaf_takes_none: "inv s \<Longrightarrow> step s (Take c p) s' \<Longrightarrow> \<not> deaf s c"
    and waiting_stays: "inv s \<Longrightarrow> step s e s' \<Longrightarrow> waiting s i c \<Longrightarrow> waiting s' i c \<or> put_on c e \<noteq> []"
begin

lemma run_inv: "run step s es s' \<Longrightarrow> inv s \<Longrightarrow> inv s'"
  by (induction rule: run.induct) (auto intro: step_inv)

text \<open>Every channel delivers the packets in the order in which they were sent, and holds no more than its capacity.\<close>

lemma run_in_order:
  assumes "run step s es s'" "inv s" "is_chan n c (mem s)"
  shows "is_chan n c (mem s') \<and>
    concat (map (took_off c) es) @ queue_of c (mem s') = queue_of c (mem s) @ concat (map (put_on c) es)"
  using assms
proof (induction rule: run.induct)
  case (stop s)
  then show ?case by simp
next
  case (more s es s' e s'')
  then have "is_chan n c (mem s')"
    "concat (map (took_off c) es) @ queue_of c (mem s') = queue_of c (mem s) @ concat (map (put_on c) es)" by auto
  moreover have "mem_event e (mem s') (mem s'')" using more run_inv step_mem by blast
  ultimately show ?case using mem_event_queue [of e "mem s'" "mem s''" n c]
    by (metis (no_types, lifting) append_assoc concat.simps concat_append list.simps(8,9) map_append self_append_conv)
qed

text \<open>A full channel without a receiver keeps its sender waiting for ever.\<close>

lemma stuck:
  assumes "run step s es s'" "inv s" "is_chan n c (mem s)" "length (queue_of c (mem s)) = n" "deaf s c" "waiting s i c"
  shows "waiting s' i c \<and> deaf s' c \<and> queue_of c (mem s') = queue_of c (mem s)"
  using assms
proof (induction rule: run.induct)
  case (stop s)
  then show ?case by simp
next
  case (more s es s' e s'')
  then have s': "inv s'" "is_chan n c (mem s')" "waiting s' i c" "deaf s' c" "queue_of c (mem s') = queue_of c (mem s)"
    using run_inv run_in_order [OF more(1)] by blast+
  have "mem_event e (mem s') (mem s'')" using more s' step_mem by blast
  moreover have "took_off c e = []"
    using deaf_takes_none [OF s'(1), of c] more(2) s'(4) by (cases e) auto
  moreover have "put_on c e = []"
    using calculation mem_event_queue [of e "mem s'" "mem s''" n c] s'(2,5) more.prems(3)
    by (cases e) (auto simp: is_chan_def queue_of_def)
  ultimately show ?case
    using mem_event_queue [of e "mem s'" "mem s''" n c] s' more(2) deaf_stays waiting_stays by fastforce
qed

end

end
