(* ===== verification/Channel_Common.thy ===== *)
theory Channel_Common
  imports Wire Network Free_Id Go_Channel
begin

text \<open>
  What the two ends of \<^verbatim>\<open>t/main_withchannels.go\<close> have in common: the settings, the session of a link, the
  tun device, the trace of packets, the command line, and the goroutines with the points at which they
  wait. This older variant of the program hands each packet over a channel to a writer of its own per link. Names that
  \<^verbatim>\<open>main.go\<close> has too end in \<open>_ch\<close>.
\<close>

section \<open>Settings\<close>

record globals_ch =
  g_client_ch :: bool
  g_debug_ch :: bool
  g_trace_ch :: bool
  g_server_addr_ch :: string
  g_listen_addr_ch :: string
  g_buffer_size_ch :: int
  g_client_tunnelid_ch :: u32
  g_server_tun_ip_ch :: string
  g_client_tun_ip_ch :: string
  g_tunnel_mtu_ch :: u32
  g_reorder_buffer_size_ch :: int
  g_data_ch :: string

definition init_globals_ch :: globals_ch where
  "init_globals_ch = \<lparr>
     g_client_ch = False, g_debug_ch = True, g_trace_ch = False,
     g_server_addr_ch = ''154.0.6.97:12345'', g_listen_addr_ch = ''0.0.0.0:12345'',
     g_buffer_size_ch = 16777217, g_client_tunnelid_ch = 660,
     g_server_tun_ip_ch = ''10.10.10.2'', g_client_tun_ip_ch = ''10.10.10.1'',
     g_tunnel_mtu_ch = 1350, g_reorder_buffer_size_ch = 128, g_data_ch = ''''\<rparr>"

section \<open>The trace of a packet\<close>

datatype trace_line = Tr_error go_error | Tr_src string | Tr_dst string

text \<open>\<^verbatim>\<open>main.go\<close> and the variant have the same \<^verbatim>\<open>WritePacket\<close>.\<close>

definition WritePacket :: "'r ext \<Rightarrow> u8 list \<Rightarrow> trace_line list" where
  "WritePacket X frame =
     (case ParseHeader X frame of
        Inl e \<Rightarrow> [Tr_error e]
      | Inr h \<Rightarrow> [Tr_src (IP_String (ipv6_String X) (hd_Src h)), Tr_dst (IP_String (ipv6_String X) (hd_Dst h))])"

section \<open>Effects\<close>

datatype goroutine_ch =
    Go_client_kcp_writer_ch u32 addr mem_addr
  | Go_client_handle_kcp_ch u32 addr
  | Go_client_handle_tun_ch u32
  | Go_client_ping_server u32
  | Go_netlink_subscribe_ifaces_ch u32
  | Go_netlink_subscribe_routes_ch u32
  | Go_server_handle_kcp_listener_ch
  | Go_server_accept_conn_ch u32 handle
  | Go_server_kcp_writer_ch u32 addr mem_addr
  | Go_server_handle_tun_ch u32
  | Go_server_handle_kcp_conn_ch u32 u32 addr
  | Go_server_ping_client u32

datatype effect_ch =
    Eff effect
  | Go goroutine_ch
  | SetBuffers handle int
  | Ping string nat
  | Trace "trace_line list"

text \<open>\<open>SetBuffers\<close>: \<^verbatim>\<open>SetReadBuffer\<close> and \<^verbatim>\<open>SetWriteBuffer\<close> of a session or a listener; an error is only logged.\<close>

text \<open>What closing a link does to the outside.\<close>

fun is_close :: "effect_ch \<Rightarrow> bool" where
  "is_close (Eff (KcpClose h)) = True"
| "is_close (Eff (UdpClose h)) = True"
| "is_close e = False"

section \<open>The session of a link\<close>

text \<open>
  What the network stack answers; \<open>dc_local\<close> is the IP address of the resolved local address, whose port is replaced by 0;
  \<open>dc_conn3\<close> is \<^verbatim>\<open>kcp.NewConn3\<close>, for the conversation id it is given.
\<close>

record dial_ch =
  dc_server :: "string \<Rightarrow> go_error + string"
  dc_local :: "string \<Rightarrow> go_error + string"
  dc_listen :: "string \<Rightarrow> go_error + handle"
  dc_conn3 :: "u32 \<Rightarrow> go_error + handle"

definition session_block_ch :: "'r ext \<Rightarrow> block_crypt" where
  "session_block_ch X = NoneBlock (pbkdf2_Key X ''demo pass'' ''demo salt'' 1024 32)"

text \<open>The error of \<^verbatim>\<open>NewConn3\<close> is dropped: the session is then nil (\<open>None\<close>) and no error is returned.\<close>

definition create_udp_conn ::
  "'r ext \<Rightarrow> globals_ch \<Rightarrow> dial_ch \<Rightarrow> u32 \<Rightarrow> string \<Rightarrow> go_error + handle option \<times> handle \<times> effect list"
where
  "create_udp_conn X G D convid src =
     (case dc_server D (g_server_addr_ch G) of
        Inl e \<Rightarrow> Inl e
      | Inr udpaddr \<Rightarrow>
        (case dc_local D (src @ '':'' @ dec_u32 convid) of
           Inl e \<Rightarrow> Inl e
         | Inr localaddr \<Rightarrow>
           (case dc_listen D (localaddr @ '':0'') of
              Inl e \<Rightarrow> Inl e
            | Inr l_conn \<Rightarrow>
                Inr (case dc_conn3 D convid of Inl e \<Rightarrow> None | Inr k \<Rightarrow> Some k, l_conn,
                     [KcpNewConn convid udpaddr (session_block_ch X) 0 0 l_conn]))))"

text \<open>\<open>conv\<close> is \<^verbatim>\<open>GetConv\<close> of a session. The library's promise: the conversation id is the one asked for.\<close>

definition conv_law :: "(handle \<Rightarrow> u32) \<Rightarrow> dial_ch \<Rightarrow> bool" where
  "conv_law conv D \<longleftrightarrow> (\<forall>k h. dc_conn3 D k = Inr h \<longrightarrow> conv h = k)"

definition createListener_ch :: "'r ext \<Rightarrow> globals_ch \<Rightarrow> go_error + handle \<Rightarrow> (go_error + handle) \<times> effect list" where
  "createListener_ch X G ans = (ans, [KcpListen (g_listen_addr_ch G) (session_block_ch X) 0 0])"

definition setClientConnOptions_ch :: "handle \<Rightarrow> effect list" where
  "setClientConnOptions_ch h = map (KcpSet h)
     [StreamMode True, WriteDelay False, NoDelay 1 10 2 1, Mtu 1400, WindowSize 256 256, ACKNoDelay False]"

definition setServerConnOptions_ch :: "handle \<Rightarrow> effect list" where
  "setServerConnOptions_ch h = map (KcpSet h)
     [StreamMode True, WriteDelay False, NoDelay 1 10 2 1, Mtu 1400, WindowSize 256 256, ACKNoDelay False]"

text \<open>What \<^verbatim>\<open>GetState\<close> answers for a session that the library has given up.\<close>

definition kcp_dead :: "u32 \<Rightarrow> bool" where
  "kcp_dead kcpstate \<longleftrightarrow> kcpstate = 0xFFFFFFFF"

section \<open>The tun device\<close>

definition createTun_ch :: "string \<Rightarrow> u32 \<Rightarrow> go_error + iface \<Rightarrow> iface option \<times> effect list" where
  "createTun_ch ip convid ans =
     (let name = ''tun'' @ dec_u32 convid
      in case ans of
           Inl e \<Rightarrow> (None, [TunNew name])
         | Inr i \<Rightarrow>
             (Some i,
              [TunNew name,
               RunThing [''ip'', ''addr'', ''add'', ip @ ''/30'', ''dev'', i],
               RunThing [''ip'', ''link'', ''set'', i, ''mtu'', ''1350''],
               RunThing [''ip'', ''link'', ''set'', i, ''up'']]))"

section \<open>Command line\<close>

record CLI_ch =
  cli_Debug_ch :: bool
  cli_Trace_ch :: bool

datatype mode_ch = Run_client_ch | Run_server_ch

definition main_ch :: "CLI_ch \<Rightarrow> string \<Rightarrow> globals_ch \<Rightarrow> (globals_ch \<times> mode_ch) outcome" where
  "main_ch cli command G =
     (let G1 = (if cli_Debug_ch cli then G\<lparr>g_debug_ch := True\<rparr> else G);
          G2 = (if cli_Trace_ch cli then G1\<lparr>g_trace_ch := True\<rparr> else G1)
      in if command = ''client'' then Ret (G2, Run_client_ch)
         else if command = ''server'' then Ret (G2, Run_server_ch)
         else Panic command)"

section \<open>Goroutines and where they wait\<close>

text \<open>
  The reader of a tun device: not yet started, at the top of its loop (the client waits for a packet there),
  waiting for a packet for the link it has chosen (the server), waiting to send a packet on a channel.
\<close>

datatype tun_pc =
    Tun_start
  | Tun_loop mem_addr
  | Tun_read mem_addr addr
  | Tun_sending "mem_addr option" packetType
  | Tun_ended

text \<open>
  The writer of a link: waiting for a packet, about to write one, at its end. The readers of a link run or have ended; the server's has a buffer that it
  keeps from message to message.
\<close>

datatype writer_pc = Wr_waiting | Wr_writing packetType | Wr_ended

datatype proc =
    Tun_proc u32 tun_pc
  | Writer_proc u32 addr mem_addr writer_pc
  | Reader_proc u32 addr bool
  | Conn_proc u32 u32 addr "u8 list option"

primrec writer_pc_ok :: "memory \<Rightarrow> writer_pc \<Rightarrow> bool" where
  "writer_pc_ok m Wr_waiting = True"
| "writer_pc_ok m (Wr_writing p) = pkt_ok m p"
| "writer_pc_ok m Wr_ended = True"

text \<open>Whether a loop goes on or the goroutine ends.\<close>

datatype flow = Goes_on | Ends

fun procs_of :: "effect_ch \<Rightarrow> proc list" where
  "procs_of (Go (Go_client_kcp_writer_ch t a c)) = [Writer_proc t a c Wr_waiting]"
| "procs_of (Go (Go_client_handle_kcp_ch t a)) = [Reader_proc t a True]"
| "procs_of (Go (Go_client_handle_tun_ch t)) = [Tun_proc t Tun_start]"
| "procs_of (Go (Go_server_kcp_writer_ch t a c)) = [Writer_proc t a c Wr_waiting]"
| "procs_of (Go (Go_server_handle_kcp_conn_ch t k a)) = [Conn_proc t k a (Some (replicate 1500 0))]"
| "procs_of (Go (Go_server_handle_tun_ch t)) = [Tun_proc t Tun_start]"
| "procs_of _ = []"

definition spawned :: "effect_ch list \<Rightarrow> proc list" where
  "spawned es = concat (map procs_of es)"

definition deaf :: "proc list \<Rightarrow> mem_addr \<Rightarrow> bool" where
  "deaf ps c \<longleftrightarrow> (\<forall>t a pc. Writer_proc t a c pc \<in> set ps \<longrightarrow> pc = Wr_ended)"

definition waits_on :: "proc list \<Rightarrow> nat \<Rightarrow> mem_addr \<Rightarrow> bool" where
  "waits_on ps i c \<longleftrightarrow> i < length ps \<and> (\<exists>t p. ps ! i = Tun_proc t (Tun_sending (Some c) p))"

lemma spawned_simps [simp]:
  "spawned [] = []"
  "spawned (Eff e # es) = spawned es"
  "spawned (Go g # es) = procs_of (Go g) @ spawned es"
  "spawned (SetBuffers h z # es) = spawned es"
  "spawned (Ping x n # es) = spawned es"
  "spawned (Trace ls # es) = spawned es"
  "spawned (es @ es') = spawned es @ spawned es'"
  "spawned (map Eff effs) = []"
  by (simp_all add: spawned_def concat_eq_Nil_conv)

lemma deaf_update:
  assumes "deaf ps c" "\<And>t a pc. p = Writer_proc t a c pc \<Longrightarrow> pc = Wr_ended"
  shows "deaf (ps[i := p]) c"
  using assms set_update_subset_insert [of ps i p] by (fastforce simp: deaf_def)

lemma deaf_update_writer:
  assumes "deaf ps c" "i < length ps" "ps ! i = Writer_proc t a c' pc" "pc \<noteq> Wr_ended"
  shows "c' \<noteq> c"
  using assms nth_mem [OF assms(2)] by (auto simp: deaf_def)

text \<open>The channels that have a writer; each has one.\<close>

fun writer_chan :: "proc \<Rightarrow> mem_addr list" where
  "writer_chan (Writer_proc t a c pc) = [c]"
| "writer_chan p = []"

definition writer_chans :: "proc list \<Rightarrow> mem_addr list" where
  "writer_chans ps = concat (map writer_chan ps)"

lemma writer_chans_append [simp]: "writer_chans (ps @ qs) = writer_chans ps @ writer_chans qs"
  by (simp add: writer_chans_def)

lemma writer_chans_update:
  assumes "i < length ps" "writer_chan (ps ! i) = writer_chan p"
  shows "writer_chans (ps[i := p]) = writer_chans ps"
  using assms by (metis map_update list_update_id writer_chans_def nth_map length_map)

lemma in_writer_chans: "Writer_proc t a c pc \<in> set ps \<Longrightarrow> c \<in> set (writer_chans ps)"
  by (force simp: writer_chans_def)

lemma writer_unique:
  assumes "distinct (writer_chans ps)" "i < length ps" "ps ! i = Writer_proc t a c pc" "Writer_proc t' a' c pc' \<in> set ps"
  shows "Writer_proc t' a' c pc' = ps ! i"
proof -
  obtain xs ys where ps: "ps = xs @ ps ! i # ys" using id_take_nth_drop [OF assms(2)] by blast
  then have "distinct (writer_chans (xs @ ps ! i # ys))" using assms(1) by metis
  then have "c \<notin> set (writer_chans xs)" "c \<notin> set (writer_chans ys)" using assms(3) by (auto simp: writer_chans_def)
  then have "Writer_proc t' a' c pc' \<notin> set xs" "Writer_proc t' a' c pc' \<notin> set ys" using in_writer_chans by blast+
  moreover have "Writer_proc t' a' c pc' \<in> set (xs @ ps ! i # ys)" using assms(4) ps by metis
  ultimately show ?thesis by auto
qed

text \<open>When a writer ends, nobody receives from its channel any more.\<close>

lemma writer_ends_deaf:
  assumes "distinct (writer_chans ps)" "i < length ps" "ps ! i = Writer_proc t a c pc"
  shows "deaf (ps[i := Writer_proc t a c Wr_ended]) c"
proof -
  have "writer_chans (ps[i := Writer_proc t a c Wr_ended]) = writer_chans ps"
    by (rule writer_chans_update) (use assms in simp_all)
  then show ?thesis
    using writer_unique [of "ps[i := Writer_proc t a c Wr_ended]" i t a c Wr_ended] assms(1,2) by (fastforce simp: deaf_def)
qed

section \<open>A system of goroutines\<close>

text \<open>The state they share and the list of all that have been started.\<close>

record 'c sys =
  sy_state :: 'c
  sy_procs :: "proc list"

definition is_proc :: "'c sys \<Rightarrow> nat \<Rightarrow> proc \<Rightarrow> bool" where
  "is_proc S i p \<longleftrightarrow> i < length (sy_procs S) \<and> sy_procs S ! i = p"

text \<open>Goroutine \<open>i\<close> goes on as \<open>p\<close>, the shared state is now \<open>c\<close>.\<close>

definition proceed :: "nat \<Rightarrow> proc \<Rightarrow> 'c \<Rightarrow> 'c sys \<Rightarrow> 'c sys" where
  "proceed i p c S = \<lparr>sy_state = c, sy_procs = (sy_procs S)[i := p]\<rparr>"

definition sys_waits :: "'c sys \<Rightarrow> nat \<Rightarrow> mem_addr \<Rightarrow> bool" where
  "sys_waits S i c = waits_on (sy_procs S) i c"

lemma is_proc_proceed:
  assumes "is_proc S j q"
  shows "is_proc (proceed i p c S) j (if i = j then p else q)"
  using assms by (simp add: is_proc_def proceed_def)

lemma writer_chans_proceed:
  assumes "is_proc S i q" "writer_chan q = writer_chan p"
  shows "writer_chans (sy_procs (proceed i p c S)) = writer_chans (sy_procs S)"
  unfolding proceed_def sys.simps by (rule writer_chans_update) (use assms in \<open>auto simp: is_proc_def\<close>)

lemma list_all_proceed:
  assumes "list_all Q (sy_procs S)" "\<And>q. Q q \<Longrightarrow> Q' q" "Q' p"
  shows "list_all Q' (sy_procs (proceed i p c S))"
  using assms set_update_subset_insert [of "sy_procs S" i p] by (fastforce simp: list_all_iff proceed_def)

lemma deaf_proceed:
  assumes "deaf (sy_procs S) c" "is_proc S i q" "writer_chan q = writer_chan p" "\<And>t a pc. q = Writer_proc t a c pc \<Longrightarrow> pc \<noteq> Wr_ended"
  shows "deaf (sy_procs (proceed i p d S)) c"
proof -
  have "c \<notin> set (writer_chan q)"
  proof
    assume "c \<in> set (writer_chan q)"
    then obtain t a pc where "q = Writer_proc t a c pc" by - (cases q, auto)
    with assms(1,2,4) show False using nth_mem by (fastforce simp: deaf_def is_proc_def)
  qed
  then show ?thesis
    unfolding proceed_def sys.simps using assms(1,3) by (intro deaf_update) auto
qed

lemma waits_proceed:
  assumes "sys_waits S i c" "is_proc S j q" "\<And>t p. q \<noteq> Tun_proc t (Tun_sending (Some c) p)"
  shows "sys_waits (proceed j p d S) i c"
  using assms by (cases "i = j") (auto simp: sys_waits_def waits_on_def proceed_def is_proc_def)

end
