(* ===== verification/Channel_Server.thy ===== *)
theory Channel_Server
  imports Channel_Common
begin

text \<open>
  The server of \<^verbatim>\<open>t/main_withchannels.go\<close>, in the style of \<^verbatim>\<open>Channel_Client\<close>: the links (\<^verbatim>\<open>client_kcp\<close>) are heap objects, a \<^verbatim>\<open>*clientType\<close> is named
  by its key in \<^verbatim>\<open>g_client_list\<close>, and the goroutines are cut where they wait. The texts of \<^verbatim>\<open>printClientList\<close> are left out.
\<close>

section \<open>State\<close>

record client_kcp =
  ck_convid :: u32
  ck_kcp :: "handle option"
  ck_writer_channel :: "mem_addr option"
  ck_rxloss :: u32
  ck_txloss :: u32
  ck_txcounter :: u64
  ck_rxcounter :: u64
  ck_priority :: u32
  ck_bandwidth :: u32
  ck_last_hello :: "int option"
  ck_alive :: bool
  ck_src_address :: string

record clientType_ch =
  cy_client_kcps :: "addr gomap option"
  cy_iface :: "iface option"
  cy_base_convid :: u32
  cy_last_convid :: u32
  cy_ifname :: string
  cy_tun_ip :: string
  cy_reorder_buffer :: "packetType list option"

record server_ch =
  g_client_list_ch :: "u32 \<rightharpoonup> clientType_ch"
  g_listener_ch :: "handle option"
  sx_heap :: "addr \<rightharpoonup> client_kcp"
  sx_next :: addr
  sx_mem :: memory
  sx_out :: "effect_ch list"

definition init_server_ch :: server_ch where
  "init_server_ch = \<lparr>g_client_list_ch = Map.empty, g_listener_ch = None, sx_heap = Map.empty, sx_next = 0, sx_mem = init_memory, sx_out = []\<rparr>"

definition new_clientType_ch :: clientType_ch where
  "new_clientType_ch = \<lparr>cy_client_kcps = None, cy_iface = None, cy_base_convid = 0, cy_last_convid = 0,
     cy_ifname = '''', cy_tun_ip = '''', cy_reorder_buffer = None\<rparr>"

definition cy_kcps :: "clientType_ch \<Rightarrow> addr gomap" where
  "cy_kcps ct = (case cy_client_kcps ct of None \<Rightarrow> [] | Some m \<Rightarrow> m)"

definition link_tbl_ch :: "u32 \<Rightarrow> server_ch \<Rightarrow> u32 \<rightharpoonup> addr" where
  "link_tbl_ch t s = (case g_client_list_ch s t of None \<Rightarrow> Map.empty | Some ct \<Rightarrow> map_of (cy_kcps ct))"

definition upd_cy :: "u32 \<Rightarrow> (clientType_ch \<Rightarrow> clientType_ch) \<Rightarrow> server_ch \<Rightarrow> server_ch" where
  "upd_cy t f s = s\<lparr>g_client_list_ch := (g_client_list_ch s)(t := map_option f (g_client_list_ch s t))\<rparr>"

definition upd_ck :: "addr \<Rightarrow> (client_kcp \<Rightarrow> client_kcp) \<Rightarrow> server_ch \<Rightarrow> server_ch" where
  "upd_ck a f s = s\<lparr>sx_heap := (sx_heap s)(a := map_option f (sx_heap s a))\<rparr>"

definition emit_sx :: "effect_ch list \<Rightarrow> server_ch \<Rightarrow> server_ch" where
  "emit_sx es s = s\<lparr>sx_out := sx_out s @ es\<rparr>"

section \<open>Accepting a link\<close>

text \<open>What \<^verbatim>\<open>water.New\<close> and \<^verbatim>\<open>RemoteAddr\<close> answer.\<close>

record accept_env_ch =
  ax_tun :: "go_error + iface"
  ax_remote :: string

definition server_ensure_tun_ch :: "globals_ch \<Rightarrow> accept_env_ch \<Rightarrow> u32 \<Rightarrow> clientType_ch \<Rightarrow> server_ch \<Rightarrow> server_ch \<times> bool" where
  "server_ensure_tun_ch G E t ct s =
     (if cy_iface ct \<noteq> None then (s, False)
      else let (i, eff) = createTun_ch (g_server_tun_ip_ch G) t (ax_tun E)
      in (upd_cy t (\<lambda>ct. ct\<lparr>cy_iface := i, cy_tun_ip := g_client_tun_ip_ch G,
                              cy_ifname := ''tun'' @ dec_u32 t, cy_base_convid := t\<rparr>)
            (emit_sx (map Eff eff) s), True))"

definition new_client_kcp :: "u32 \<Rightarrow> handle \<Rightarrow> mem_addr \<Rightarrow> string \<Rightarrow> client_kcp" where
  "new_client_kcp convid h c remote = \<lparr>
     ck_convid = convid, ck_kcp = Some h, ck_writer_channel = Some c, ck_rxloss = 0, ck_txloss = 0, ck_txcounter = 0,
     ck_rxcounter = 0, ck_priority = 0, ck_bandwidth = 10, ck_last_hello = None, ck_alive = True, ck_src_address = remote\<rparr>"

text \<open>The link is entered under \<^verbatim>\<open>conn.GetConv()\<close>, \<open>conv h\<close>, and carries the \<^verbatim>\<open>convid\<close> it was accepted with.\<close>

definition server_accept_conn_ch ::
  "globals_ch \<Rightarrow> (handle \<Rightarrow> u32) \<Rightarrow> accept_env_ch \<Rightarrow> u32 \<Rightarrow> handle \<Rightarrow> server_ch \<Rightarrow> server_ch"
where
  "server_accept_conn_ch G conv E convid h s =
     (let base_convid = convid div 10 * 10;
          ct = (case g_client_list_ch s base_convid of None \<Rightarrow> new_clientType_ch | Some ct \<Rightarrow> ct);
          s0 = s\<lparr>g_client_list_ch := (g_client_list_ch s)(base_convid \<mapsto> ct)\<rparr>;
          (s1, spawn_tun) = server_ensure_tun_ch G E base_convid ct s0;
          a = sx_next s1;
          (c, m) = chan_make 100 (sx_mem s1);
          s2 = s1\<lparr>sx_heap := (sx_heap s1)(a \<mapsto> new_client_kcp convid h c (ax_remote E)), sx_next := Suc a, sx_mem := m\<rparr>;
          s3 = upd_cy base_convid (\<lambda>ct. ct\<lparr>cy_last_convid := 0, cy_client_kcps := Some (gm_put (conv h) a (cy_kcps ct))\<rparr>) s2
      in emit_sx ([Go (Go_server_kcp_writer_ch base_convid a c)] @ map Eff (setServerConnOptions_ch h) @
           (if spawn_tun then [Go (Go_server_handle_tun_ch base_convid)] else []) @
           [Go (Go_server_handle_kcp_conn_ch base_convid convid a)]) s3)"

section \<open>Dropping a link\<close>

definition server_disconnect_body_ch :: "u32 \<Rightarrow> u32 \<Rightarrow> u32 \<Rightarrow> addr \<Rightarrow> server_ch \<Rightarrow> server_ch outcome" where
  "server_disconnect_body_ch t disc_convid convid a s =
     obind (of_option ''nil pointer dereference'' (sx_heap s a)) (\<lambda>c.
       if ck_convid c = disc_convid then
         obind (of_option ''nil pointer dereference'' (ck_kcp c)) (\<lambda>h.
           Ret (upd_cy t (\<lambda>ct. ct\<lparr>cy_last_convid := 0, cy_client_kcps := map_option (gm_del convid) (cy_client_kcps ct)\<rparr>)
                 (emit_sx [Eff (KcpClose h)] s)))
       else Ret s)"

definition server_disconnect_session_by_convid_ch :: "answers \<Rightarrow> u32 \<Rightarrow> u32 \<Rightarrow> server_ch \<Rightarrow> server_ch outcome" where
  "server_disconnect_session_by_convid_ch orc tunnelid disc_convid s =
     (case g_client_list_ch s tunnelid of
        None \<Rightarrow> Panic ''nil pointer dereference''
      | Some ct \<Rightarrow> for_range (link_tbl_ch tunnelid) (server_disconnect_body_ch tunnelid disc_convid) (a_order (orc [])) s)"

section \<open>The reader of a link\<close>

definition server_handle_kcp_conn_begin ::
  "(handle \<Rightarrow> u32) \<Rightarrow> answers \<Rightarrow> u32 \<Rightarrow> addr \<Rightarrow> u32 \<Rightarrow> server_ch \<Rightarrow> (flow \<times> server_ch) outcome"
where
  "server_handle_kcp_conn_begin conv orc base_convid a kcpstate s =
     obind (of_option ''nil pointer dereference'' (sx_heap s a)) (\<lambda>c.
     obind (of_option ''nil pointer dereference'' (ck_kcp c)) (\<lambda>h.
     obind (of_option ''nil pointer dereference'' (g_client_list_ch s base_convid)) (\<lambda>ct.
       if kcp_dead kcpstate then
         obind (server_disconnect_session_by_convid_ch orc (cy_base_convid ct) (conv h) s) (\<lambda>s'. Ret (Ends, s'))
       else Ret (Goes_on, s))))"

text \<open>
  A message is put into the goroutine's buffer \<open>message\<close>, and the first two bytes of the buffer tell a HELLO, whether or not the message was that long.
  \<open>tun_err\<close> is what the write to the device answers. The result: whether the loop goes on, and the buffer.
\<close>

definition server_handle_kcp_conn_read ::
  "'r ext \<Rightarrow> globals_ch \<Rightarrow> answers \<Rightarrow> u32 \<Rightarrow> u32 \<Rightarrow> addr \<Rightarrow> u8 list \<Rightarrow> go_error + u8 list \<Rightarrow> int \<Rightarrow> go_error option \<Rightarrow> server_ch \<Rightarrow>
     (flow \<times> u8 list \<times> server_ch) outcome"
where
  "server_handle_kcp_conn_read X G orc base_convid convid a message result now tun_err s =
     obind (of_option ''nil pointer dereference'' (g_client_list_ch s base_convid)) (\<lambda>ct.
       case result of
         Inl e \<Rightarrow>
           obind (server_disconnect_session_by_convid_ch orc base_convid convid s) (\<lambda>s'. Ret (Ends, message, s'))
       | Inr data \<Rightarrow>
           (let buf = overwrite data message;
                traced = (\<lambda>s. if g_trace_ch G then emit_sx [Trace (WritePacket X data)] s else s)
            in if buf ! 0 = 0 \<and> buf ! 1 = 0 then Ret (Goes_on, buf, upd_ck a (\<lambda>c. c\<lparr>ck_last_hello := Some now\<rparr>) s)
               else case cy_iface ct of
                 None \<Rightarrow> Ret (Goes_on, buf, traced s)
               | Some i \<Rightarrow>
                   (let s1 = emit_sx [Eff (TunWrite i data)] s
                    in if tun_err \<noteq> None then
                         obind (server_disconnect_session_by_convid_ch orc base_convid convid s1) (\<lambda>s'. Ret (Ends, buf, s'))
                       else Ret (Goes_on, buf, traced s1))))"

section \<open>Pings\<close>

definition server_ping_body_ch :: "u32 \<Rightarrow> u32 \<Rightarrow> addr \<Rightarrow> server_ch \<Rightarrow> server_ch outcome" where
  "server_ping_body_ch t convid a s =
     obind (of_option ''nil pointer dereference'' (g_client_list_ch s t)) (\<lambda>ct. Ret (emit_sx [Ping (cy_tun_ip ct) 2] s))"

definition server_ping_client :: "answers \<Rightarrow> u32 \<Rightarrow> server_ch \<Rightarrow> server_ch outcome" where
  "server_ping_client orc t s = for_range (link_tbl_ch t) (server_ping_body_ch t) (a_order (orc [])) s"

definition server_send_client_pings_ch :: "answers \<Rightarrow> server_ch \<Rightarrow> server_ch outcome" where
  "server_send_client_pings_ch orc s =
     for_range g_client_list_ch (\<lambda>t ct s. Ret (emit_sx [Go (Go_server_ping_client t)] s)) (a_order (orc [])) s"

section \<open>The reader of the tun device\<close>

definition link_alive_map :: "clientType_ch \<Rightarrow> server_ch \<Rightarrow> u32 \<rightharpoonup> bool" where
  "link_alive_map ct s = (\<lambda>k. Option.bind (map_of (cy_kcps ct) k) (\<lambda>a. map_option ck_alive (sx_heap s a)))"

definition server_choose_kcp_conn_ch :: "answers \<Rightarrow> u32 \<Rightarrow> server_ch \<Rightarrow> (u32 \<times> server_ch) outcome" where
  "server_choose_kcp_conn_ch orc t s =
     obind (of_option ''nil pointer dereference'' (g_client_list_ch s t)) (\<lambda>ct.
       let c = rr_pick (link_alive_map ct s) (cy_last_convid ct) (a_order (orc [])) 0
       in Ret (c, upd_cy t (\<lambda>ct. ct\<lparr>cy_last_convid := c\<rparr>) s))"

text \<open>
  One pass of the loop up to the read: a link is chosen (\<open>Some\<close>), or there is none (or a dead one has been dropped) and the goroutine starts over (\<open>None\<close>),
  in the first case after a pause.
\<close>

definition server_tun_choose ::
  "(handle \<Rightarrow> u32) \<Rightarrow> u32 \<Rightarrow> answers \<Rightarrow> u32 \<Rightarrow> server_ch \<Rightarrow> (addr option \<times> server_ch) outcome"
where
  "server_tun_choose conv kcpstate orc t s =
     obind (server_choose_kcp_conn_ch orc t s) (\<lambda>(chose_convid, s1).
     obind (of_option ''nil pointer dereference'' (g_client_list_ch s1 t)) (\<lambda>ct.
       case map_of (cy_kcps ct) chose_convid of
         None \<Rightarrow> Ret (None, s1)
       | Some a \<Rightarrow>
           obind (of_option ''nil pointer dereference'' (sx_heap s1 a)) (\<lambda>c.
             case ck_kcp c of
               None \<Rightarrow> Ret (None, s1)
             | Some h \<Rightarrow>
                 if kcp_dead kcpstate then
                   obind (server_disconnect_session_by_convid_ch (sub_oracle 0 orc) (cy_base_convid ct) (conv h) s1)
                     (\<lambda>s2. Ret (None, s2))
                 else Ret (Some a, s1))))"

definition server_handle_tun_start_ch :: "u32 \<Rightarrow> server_ch \<Rightarrow> (tun_pc \<times> server_ch) outcome" where
  "server_handle_tun_start_ch t s =
     obind (of_option ''nil pointer dereference'' (g_client_list_ch s t)) (\<lambda>ct.
       if cy_iface ct = None then Ret (Tun_ended, s)
       else let (b, m) = buf_make 1500 (sx_mem s) in Ret (Tun_loop b, s\<lparr>sx_mem := m\<rparr>))"

text \<open>The device has answered; an error is a panic. The packet goes to the link that was chosen before the read.\<close>

definition server_handle_tun_read_ch ::
  "mem_addr \<Rightarrow> addr \<Rightarrow> go_error + u8 list \<Rightarrow> server_ch \<Rightarrow> (tun_pc \<times> server_ch) outcome"
where
  "server_handle_tun_read_ch b a result s =
     (case result of
        Inl e \<Rightarrow> Panic ''tun iface read error:''
      | Inr data \<Rightarrow>
          (let mypacket = \<lparr>pt_sequence = 0, pt_len = int (length data), pt_buff = b\<rparr>;
               s1 = s\<lparr>sx_mem := buf_read b data (sx_mem s)\<rparr>
           in obind (of_option ''nil pointer dereference'' (sx_heap s1 a)) (\<lambda>c.
                Ret (Tun_sending (ck_writer_channel c) mypacket, s1))))"

section \<open>The writer of a link\<close>

definition server_kcp_writer_write ::
  "'r ext \<Rightarrow> globals_ch \<Rightarrow> (handle \<Rightarrow> u32) \<Rightarrow> answers \<Rightarrow> u32 \<Rightarrow> addr \<Rightarrow> packetType \<Rightarrow> server_ch \<Rightarrow> (flow \<times> server_ch) outcome"
where
  "server_kcp_writer_write X G conv orc t a pkt s =
     obind (of_option ''nil pointer dereference'' (sx_heap s a)) (\<lambda>c.
     obind (of_option ''nil pointer dereference'' (ck_kcp c)) (\<lambda>h.
     obind (of_option ''nil pointer dereference'' (g_client_list_ch s t)) (\<lambda>ct.
     obind (buf_slice (pt_buff pkt) (pt_len pkt) (sx_mem s)) (\<lambda>data.
       let s1 = emit_sx [Eff (KcpWriteDeadline h 10), Eff (KcpWrite h data)] s
       in if a_write (orc []) \<noteq> None then
            obind (server_disconnect_session_by_convid_ch (sub_oracle 0 orc) (cy_base_convid ct) (conv h) s1)
              (\<lambda>s'. Ret (Ends, s'))
          else let s2 = upd_ck a (\<lambda>c. c\<lparr>ck_txcounter := ck_txcounter c + 1\<rparr>) s1
          in if g_trace_ch G then
               obind (case cy_iface ct of None \<Rightarrow> nil_iface_Name X | Some i \<Rightarrow> Ret i) (\<lambda>_.
                 Ret (Goes_on, emit_sx [Trace (WritePacket X data)] s2))
             else Ret (Goes_on, s2)))))"

section \<open>Listening and the main loop\<close>

text \<open>One round of \<^verbatim>\<open>server_handle_kcp_listener\<close>; \<open>ans\<close> is the answer of \<^verbatim>\<open>AcceptKCP\<close>.\<close>

definition server_handle_kcp_listener_ch :: "(handle \<Rightarrow> u32) \<Rightarrow> go_error + handle \<Rightarrow> server_ch \<Rightarrow> flow \<times> server_ch" where
  "server_handle_kcp_listener_ch conv ans s =
     (case ans of
        Inl e \<Rightarrow> (Ends, s)
      | Inr h \<Rightarrow> (Goes_on, emit_sx [Go (Go_server_accept_conn_ch (conv h) h)] s))"

text \<open>\<open>False\<close>: \<^verbatim>\<open>run_server\<close> has returned because it cannot listen.\<close>

definition run_server_start_ch :: "'r ext \<Rightarrow> globals_ch \<Rightarrow> go_error + handle \<Rightarrow> server_ch \<Rightarrow> bool \<times> server_ch" where
  "run_server_start_ch X G ans s =
     (let (res, eff) = createListener_ch X G ans; s1 = emit_sx (map Eff eff) s
      in case res of
           Inl e \<Rightarrow> (False, s1\<lparr>g_listener_ch := None\<rparr>)
         | Inr l \<Rightarrow> (True, emit_sx [SetBuffers l (g_buffer_size_ch G), Go Go_server_handle_kcp_listener_ch, Eff (RunThing [''ip'', ''-br'', ''address''])]
                             (s1\<lparr>g_listener_ch := Some l\<rparr>)))"

definition server_tick_ch :: "answers \<Rightarrow> int \<Rightarrow> server_ch \<Rightarrow> (int \<times> server_ch) outcome" where
  "server_tick_ch orc loopcount0 s =
     (let loopcount = loopcount0 + 1
      in if loopcount mod 500 = 0 then obind (server_send_client_pings_ch orc s) (\<lambda>s1. Ret (1, s1))
         else Ret (loopcount, s))"

end
