(* ===== verification/Channel_Server_Bond.thy ===== *)
theory Channel_Server_Bond
  imports Channel_Server
begin

text \<open>
  The operations of the variant's server keep its state well formed and do not panic on a tunnel that exists.
\<close>

section \<open>Well-formed states\<close>

definition link_ok_ch :: "(handle \<Rightarrow> u32) \<Rightarrow> memory \<Rightarrow> client_kcp \<Rightarrow> bool" where
  "link_ok_ch conv m c \<longleftrightarrow> ck_alive c \<and> map_option conv (ck_kcp c) = Some (ck_convid c) \<and>
     (\<exists>ch. ck_writer_channel c = Some ch \<and> is_chan 100 ch m)"

definition tunnel_ok_ch :: "server_ch \<Rightarrow> u32 \<Rightarrow> clientType_ch \<Rightarrow> bool" where
  "tunnel_ok_ch s t ct \<longleftrightarrow> cy_base_convid ct = t \<and> gm_ok (cy_kcps ct) \<and>
     (\<forall>k a. map_of (cy_kcps ct) k = Some a \<longrightarrow>
        k div 10 * 10 = t \<and> map_option ck_convid (sx_heap s a) = Some k)"

definition server_ch_inv :: "(handle \<Rightarrow> u32) \<Rightarrow> server_ch \<Rightarrow> bool" where
  "server_ch_inv conv s \<longleftrightarrow>
     (\<forall>t ct. g_client_list_ch s t = Some ct \<longrightarrow> tunnel_ok_ch s t ct) \<and>
     (\<forall>a c. sx_heap s a = Some c \<longrightarrow> a < sx_next s \<and> link_ok_ch conv (sx_mem s) c) \<and>
     mem_inv (sx_mem s)"

lemma upd_cy_fields [simp]:
  "g_client_list_ch (upd_cy t f s) = (g_client_list_ch s)(t := map_option f (g_client_list_ch s t))"
  "sx_heap (upd_cy t f s) = sx_heap s"
  "sx_next (upd_cy t f s) = sx_next s"
  "sx_mem (upd_cy t f s) = sx_mem s"
  "sx_out (upd_cy t f s) = sx_out s"
  by (simp_all add: upd_cy_def)

lemma upd_ck_fields [simp]:
  "g_client_list_ch (upd_ck a f s) = g_client_list_ch s"
  "sx_heap (upd_ck a f s) = (sx_heap s)(a := map_option f (sx_heap s a))"
  "sx_next (upd_ck a f s) = sx_next s"
  "sx_mem (upd_ck a f s) = sx_mem s"
  "sx_out (upd_ck a f s) = sx_out s"
  by (simp_all add: upd_ck_def)

lemma emit_sx_fields [simp]:
  "g_client_list_ch (emit_sx es s) = g_client_list_ch s"
  "sx_heap (emit_sx es s) = sx_heap s"
  "sx_next (emit_sx es s) = sx_next s"
  "sx_mem (emit_sx es s) = sx_mem s"
  "sx_out (emit_sx es s) = sx_out s @ es"
  by (simp_all add: emit_sx_def)

lemma link_tbl_ch_Some: "g_client_list_ch s t = Some ct \<Longrightarrow> link_tbl_ch t s = map_of (cy_kcps ct)"
  by (simp add: link_tbl_ch_def)

lemma link_tbl_ch_server: "link_tbl_ch t s k = Some a \<Longrightarrow> \<exists>ct. g_client_list_ch s t = Some ct"
  by (cases "g_client_list_ch s t") (simp_all add: link_tbl_ch_def)

lemma server_ch_inv_init: "server_ch_inv conv init_server_ch"
  by (simp add: server_ch_inv_def init_server_ch_def mem_inv_def mem_ok_def init_memory_def queue_of_def)

lemma server_ch_inv_tun: "server_ch_inv conv s \<Longrightarrow> g_client_list_ch s t = Some ct \<Longrightarrow> tunnel_ok_ch s t ct"
  by (simp add: server_ch_inv_def)

lemma server_ch_inv_base: "server_ch_inv conv s \<Longrightarrow> g_client_list_ch s t = Some ct \<Longrightarrow> cy_base_convid ct = t"
  by (simp add: server_ch_inv_def tunnel_ok_ch_def)

lemma server_ch_inv_memory: "server_ch_inv conv s \<Longrightarrow> mem_inv (sx_mem s)"
  by (simp add: server_ch_inv_def)

lemma server_ch_inv_heap:
  assumes "server_ch_inv conv s" "sx_heap s a = Some c"
  obtains h ch where "ck_kcp c = Some h" "conv h = ck_convid c" "ck_alive c"
    "ck_writer_channel c = Some ch" "is_chan 100 ch (sx_mem s)" "a < sx_next s"
proof -
  have "a < sx_next s" "link_ok_ch conv (sx_mem s) c" using assms by (simp_all add: server_ch_inv_def)
  with that show thesis by (auto simp: link_ok_ch_def)
qed

lemma server_ch_inv_entry:
  assumes "server_ch_inv conv s" "link_tbl_ch t s k = Some a"
  obtains c where "sx_heap s a = Some c" "ck_convid c = k" "k div 10 * 10 = t"
proof -
  obtain ct where ct: "g_client_list_ch s t = Some ct" using link_tbl_ch_server [OF assms(2)] by blast
  with assms server_ch_inv_tun [OF assms(1) ct] that show thesis
    by (auto simp: tunnel_ok_ch_def link_tbl_ch_Some)
qed

lemma server_ch_inv_emit [simp, intro]: "server_ch_inv conv s \<Longrightarrow> server_ch_inv conv (emit_sx es s)"
  by (simp add: server_ch_inv_def tunnel_ok_ch_def)

lemma server_ch_inv_upd_ck:
  assumes "server_ch_inv conv s" "\<And>c. ck_convid (f c) = ck_convid c" "\<And>c. link_ok_ch conv (sx_mem s) c \<Longrightarrow> link_ok_ch conv (sx_mem s) (f c)"
  shows "server_ch_inv conv (upd_ck a f s)"
proof -
  have "map_option ck_convid (((sx_heap s)(a := map_option f (sx_heap s a))) b) = map_option ck_convid (sx_heap s b)" for b
    using assms(2) by (simp add: option.map_comp o_def)
  then have "tunnel_ok_ch (upd_ck a f s) t ct = tunnel_ok_ch s t ct" for t ct by (simp add: tunnel_ok_ch_def)
  with assms(1,3) show ?thesis by (auto simp: server_ch_inv_def)
qed

lemma server_ch_inv_upd_cy:
  assumes "server_ch_inv conv s" "\<And>ct. g_client_list_ch s t = Some ct \<Longrightarrow> tunnel_ok_ch s t ct \<Longrightarrow> tunnel_ok_ch s t (f ct)"
  shows "server_ch_inv conv (upd_cy t f s)"
proof -
  have "tunnel_ok_ch (upd_cy t f s) = tunnel_ok_ch s" by (intro ext) (simp add: tunnel_ok_ch_def)
  with assms show ?thesis by (auto simp: server_ch_inv_def)
qed

section \<open>What an operation on a tunnel leaves alone\<close>

definition same_tunnel_ch :: "clientType_ch \<Rightarrow> clientType_ch \<Rightarrow> bool" where
  "same_tunnel_ch ct ct' \<longleftrightarrow> cy_iface ct' = cy_iface ct \<and> cy_base_convid ct' = cy_base_convid ct \<and> cy_tun_ip ct' = cy_tun_ip ct"

definition frame_sx :: "u32 \<Rightarrow> server_ch \<Rightarrow> server_ch \<Rightarrow> bool" where
  "frame_sx t s s' \<longleftrightarrow> sx_heap s' = sx_heap s \<and> sx_next s' = sx_next s \<and> sx_mem s' = sx_mem s \<and>
     (\<forall>t'. t' \<noteq> t \<longrightarrow> g_client_list_ch s' t' = g_client_list_ch s t') \<and>
     rel_option same_tunnel_ch (g_client_list_ch s t) (g_client_list_ch s' t) \<and>
     (\<exists>es. sx_out s' = sx_out s @ es \<and> list_all is_close es)"

lemma same_tunnel_ch_refl [simp]: "same_tunnel_ch ct ct"
  by (simp add: same_tunnel_ch_def)

lemma frame_sx_refl [simp]: "frame_sx t s s"
  by (auto simp: frame_sx_def intro: option.rel_refl)

lemma frame_sx_trans:
  assumes "frame_sx t s s'" "frame_sx t s' s''"
  shows "frame_sx t s s''"
proof -
  have "rel_option same_tunnel_ch (g_client_list_ch s t) (g_client_list_ch s'' t)"
    using assms by (cases "g_client_list_ch s t"; cases "g_client_list_ch s' t"; cases "g_client_list_ch s'' t")
      (auto simp: frame_sx_def same_tunnel_ch_def)
  with assms show ?thesis by (auto simp: frame_sx_def)
qed

lemma frame_sx_Some:
  assumes "frame_sx t s s'" "g_client_list_ch s t = Some ct"
  obtains ct' where "g_client_list_ch s' t = Some ct'" "same_tunnel_ch ct ct'"
  using assms by (cases "g_client_list_ch s' t") (auto simp: frame_sx_def)

section \<open>Disconnecting\<close>

definition drops :: "u32 \<Rightarrow> server_ch \<Rightarrow> u32 \<Rightarrow> addr \<Rightarrow> bool" where
  "drops d s k a \<longleftrightarrow> map_option ck_convid (sx_heap s a) = Some d"

lemma sx_disconnect_body_ch_cases:
  assumes "server_ch_inv conv s" "link_tbl_ch t s k = Some a"
  obtains (keep) "\<not> drops d s k a" "server_disconnect_body_ch t d k a s = Ret s"
    | (close) h where "drops d s k a" "server_disconnect_body_ch t d k a s =
        Ret (upd_cy t (\<lambda>ct. ct\<lparr>cy_last_convid := 0, cy_client_kcps := map_option (gm_del k) (cy_client_kcps ct)\<rparr>)
             (emit_sx [Eff (KcpClose h)] s))"
proof -
  obtain c where c: "sx_heap s a = Some c" using server_ch_inv_entry [OF assms] by blast
  obtain h where "ck_kcp c = Some h" using server_ch_inv_heap [OF assms(1) c] by blast
  with c keep close show thesis by (cases "ck_convid c = d") (auto simp: server_disconnect_body_ch_def drops_def)
qed

lemma cy_kcps_del [simp]:
  "cy_kcps (ct\<lparr>cy_last_convid := l, cy_client_kcps := map_option (gm_del k) (cy_client_kcps ct)\<rparr>) = gm_del k (cy_kcps ct)"
  by (simp add: cy_kcps_def gm_del_def split: option.splits)

lemma tunnel_ok_ch_del:
  "tunnel_ok_ch s t ct \<Longrightarrow> tunnel_ok_ch s t (ct\<lparr>cy_last_convid := l, cy_client_kcps := map_option (gm_del k) (cy_client_kcps ct)\<rparr>)"
  by (auto simp: tunnel_ok_ch_def)

interpretation ds: closing_loop "link_tbl_ch t" "drops d" "server_disconnect_body_ch t d" "server_ch_inv conv" "frame_sx t"
  for t d conv
proof
  fix s s' k a
  assume inv: "server_ch_inv conv s" and a: "link_tbl_ch t s k = Some a"
  show "\<exists>s'. server_disconnect_body_ch t d k a s = Ret s'"
    using inv a by (cases rule: sx_disconnect_body_ch_cases [of _ _ _ _ _ d]) auto
  assume ret: "server_disconnect_body_ch t d k a s = Ret s'"
  obtain ct where ct: "g_client_list_ch s t = Some ct" using link_tbl_ch_server [OF a] by blast
  show "server_ch_inv conv s'"
    using inv a by (cases rule: sx_disconnect_body_ch_cases [of _ _ _ _ _ d])
      (use inv ret in \<open>auto intro!: server_ch_inv_upd_cy tunnel_ok_ch_del\<close>)
  show "frame_sx t s s'"
    using inv a by (cases rule: sx_disconnect_body_ch_cases [of _ _ _ _ _ d])
      (use ret ct in \<open>auto simp: frame_sx_def same_tunnel_ch_def\<close>)
  show "link_tbl_ch t s' = (if drops d s k a then (link_tbl_ch t s)(k := None) else link_tbl_ch t s)"
    using inv a by (cases rule: sx_disconnect_body_ch_cases [of _ _ _ _ _ d])
      (use ret ct in \<open>auto simp: link_tbl_ch_def\<close>)
  fix k' a'
  show "drops d s' k' a' = drops d s k' a'"
    using inv a by (cases rule: sx_disconnect_body_ch_cases [of _ _ _ _ _ d]) (use ret in \<open>auto simp: drops_def\<close>)
qed (auto intro: frame_sx_trans)

lemma sx_disconnect_by_convid_ch:
  assumes "server_ch_inv conv s" "g_client_list_ch s t = Some ct"
  shows "\<exists>s'. server_disconnect_session_by_convid_ch orc t d s = Ret s' \<and> server_ch_inv conv s' \<and> frame_sx t s s' \<and>
    link_tbl_ch t s' = keep_unless (set (a_order (orc []))) (drops d s) (link_tbl_ch t s)"
  using ds.loop_closes [OF assms(1), of t d] assms(2) by (simp add: server_disconnect_session_by_convid_ch_def)

text \<open>With an order that visits all links, exactly the link with that id goes.\<close>

lemma sx_disconnect_by_convid_ch_exact:
  assumes "server_ch_inv conv s" "g_client_list_ch s t = Some ct" "covers orc (dom (link_tbl_ch t s))"
  shows "\<exists>s'. server_disconnect_session_by_convid_ch orc t d s = Ret s' \<and> server_ch_inv conv s' \<and> frame_sx t s s' \<and>
    link_tbl_ch t s' = (link_tbl_ch t s)(d := None)"
proof -
  have "keep_unless (set (a_order (orc []))) (drops d s) (link_tbl_ch t s) k = ((link_tbl_ch t s)(d := None)) k" for k
  proof (cases "link_tbl_ch t s k")
    case (Some a)
    then obtain c where "sx_heap s a = Some c" "ck_convid c = k" using server_ch_inv_entry [OF assms(1)] by blast
    moreover have "k \<in> set (a_order (orc []))" using Some covers_order [OF assms(3), of "[]"] by blast
    ultimately show ?thesis using Some by (auto simp: keep_unless_def drops_def)
  qed (simp add: keep_unless_def)
  then show ?thesis using sx_disconnect_by_convid_ch [OF assms(1,2), of orc d] by (auto simp: fun_eq_iff)
qed

section \<open>Choosing a link for a packet\<close>

lemma link_alive_map_eq:
  assumes "server_ch_inv conv s" "g_client_list_ch s t = Some ct"
  shows "link_alive_map ct s k = map_option (\<lambda>_. True) (link_tbl_ch t s k)"
proof (cases "link_tbl_ch t s k")
  case None
  then show ?thesis using assms(2) by (simp add: link_alive_map_def link_tbl_ch_def)
next
  case (Some a)
  then obtain c where c: "sx_heap s a = Some c" using server_ch_inv_entry [OF assms(1)] by blast
  then have "ck_alive c" using server_ch_inv_heap [OF assms(1)] by blast
  with c Some assms(2) show ?thesis by (simp add: link_alive_map_def link_tbl_ch_def)
qed

lemma cy_kcps_last [simp]: "cy_kcps (ct\<lparr>cy_last_convid := k\<rparr>) = cy_kcps ct"
  by (simp add: cy_kcps_def)

lemma tunnel_ok_ch_last [simp]: "tunnel_ok_ch s t (ct\<lparr>cy_last_convid := k\<rparr>) = tunnel_ok_ch s t ct"
  by (simp add: tunnel_ok_ch_def)

text \<open>The scheduler returns, changes its memory only, and finds a link if there is one; among several, another than the last.\<close>

lemma sx_choose_ch:
  assumes "server_ch_inv conv s" "g_client_list_ch s t = Some ct"
  shows "\<exists>k s'. server_choose_kcp_conn_ch orc t s = Ret (k, s') \<and> server_ch_inv conv s' \<and> frame_sx t s s' \<and>
    link_tbl_ch t s' = link_tbl_ch t s \<and> sx_out s' = sx_out s \<and>
    (covers orc (dom (link_tbl_ch t s)) \<longrightarrow> link_tbl_ch t s \<noteq> Map.empty \<longrightarrow> link_tbl_ch t s k \<noteq> None) \<and>
    (covers orc (dom (link_tbl_ch t s)) \<longrightarrow> (\<exists>j. j \<noteq> cy_last_convid ct \<and> link_tbl_ch t s j \<noteq> None) \<longrightarrow> k \<noteq> cy_last_convid ct)"
proof -
  let ?al = "link_alive_map ct s" and ?ks = "a_order (orc [])"
  define k where "k = rr_pick ?al (cy_last_convid ct) ?ks 0"
  have al: "?al = (\<lambda>j. map_option (\<lambda>_. True) (link_tbl_ch t s j))" by (rule ext) (rule link_alive_map_eq [OF assms])
  have "link_tbl_ch t s k \<noteq> None" if "covers orc (dom (link_tbl_ch t s))" "link_tbl_ch t s \<noteq> Map.empty"
  proof -
    from that(2) obtain j where "link_tbl_ch t s j \<noteq> None" by (auto simp: fun_eq_iff)
    then have "\<exists>j \<in> set ?ks. ?al j \<noteq> None" using covers_order [OF that(1), of "[]"] by (auto simp: al intro!: bexI [of _ j])
    from rr_pick_dom [OF this, of "cy_last_convid ct" 0] show ?thesis by (simp add: k_def al)
  qed
  moreover have "k \<noteq> cy_last_convid ct"
    if "covers orc (dom (link_tbl_ch t s))" "j \<noteq> cy_last_convid ct" "link_tbl_ch t s j \<noteq> None" for j
    using rr_pick_rotates [of j ?ks ?al "cy_last_convid ct" 0] covers_order [OF that(1), of "[]"] that(2,3)
    by (auto simp: k_def al)
  moreover have "server_choose_kcp_conn_ch orc t s = Ret (k, upd_cy t (\<lambda>ct. ct\<lparr>cy_last_convid := k\<rparr>) s)"
    using assms(2) by (simp add: server_choose_kcp_conn_ch_def k_def Let_def)
  moreover have "link_tbl_ch t (upd_cy t (\<lambda>ct. ct\<lparr>cy_last_convid := k\<rparr>) s) = link_tbl_ch t s"
    using assms(2) by (simp add: link_tbl_ch_def)
  moreover have "frame_sx t s (upd_cy t (\<lambda>ct. ct\<lparr>cy_last_convid := k\<rparr>) s)"
    using assms(2) by (auto simp: frame_sx_def same_tunnel_ch_def)
  ultimately show ?thesis using assms(1)
    by (intro exI [of _ k] exI [of _ "upd_cy t (\<lambda>ct. ct\<lparr>cy_last_convid := k\<rparr>) s"]) (auto intro!: server_ch_inv_upd_cy)
qed

lemma frame_sx_inv_entry:
  assumes "server_ch_inv conv s" "link_tbl_ch t s k = Some a"
  obtains c h where "sx_heap s a = Some c" "ck_kcp c = Some h" "conv h = k" "ck_convid c = k"
proof -
  obtain c where c: "sx_heap s a = Some c" "ck_convid c = k" using server_ch_inv_entry [OF assms] by blast
  then show thesis using server_ch_inv_heap [OF assms(1) c(1)] that by metis
qed

text \<open>One pass: what was chosen is a link; a dead link has been taken out.\<close>

lemma sx_tun_choose_cases:
  assumes "server_ch_inv conv s" "g_client_list_ch s t = Some ct"
  obtains r s' where "server_tun_choose conv st orc t s = Ret (r, s')" "server_ch_inv conv s'" "frame_sx t s s'"
    "\<And>a. r = Some a \<Longrightarrow> \<not> kcp_dead st \<and> (\<exists>k. link_tbl_ch t s' k = Some a) \<and> link_tbl_ch t s' = link_tbl_ch t s \<and> sx_out s' = sx_out s"
    "r = None \<Longrightarrow> covers orc (dom (link_tbl_ch t s)) \<Longrightarrow> link_tbl_ch t s = Map.empty \<or>
       (\<exists>k. link_tbl_ch t s k \<noteq> None \<and> kcp_dead st \<and> link_tbl_ch t s' = (link_tbl_ch t s)(k := None))"
proof -
  obtain k s1 where ch: "server_choose_kcp_conn_ch orc t s = Ret (k, s1)" and inv: "server_ch_inv conv s1" and fr: "frame_sx t s s1"
    and tbl: "link_tbl_ch t s1 = link_tbl_ch t s" and out: "sx_out s1 = sx_out s"
    and cov: "covers orc (dom (link_tbl_ch t s)) \<Longrightarrow> link_tbl_ch t s \<noteq> Map.empty \<Longrightarrow> link_tbl_ch t s k \<noteq> None"
    using sx_choose_ch [OF assms] by metis
  obtain ct1 where ct1: "g_client_list_ch s1 t = Some ct1" using frame_sx_Some [OF fr assms(2)] by blast
  note base = server_ch_inv_base [OF inv ct1]
  show thesis
  proof (cases "link_tbl_ch t s k")
    case None
    then have "server_tun_choose conv st orc t s = Ret (None, s1)"
      using ch ct1 tbl by (simp add: server_tun_choose_def link_tbl_ch_Some)
    with that [of None s1] inv fr cov None show thesis by auto
  next
    case (Some a)
    then have k: "link_tbl_ch t s1 k = Some a" by (simp add: tbl)
    obtain c h where c: "sx_heap s1 a = Some c" "ck_kcp c = Some h" "conv h = k" using frame_sx_inv_entry [OF inv k] by metis
    show thesis
    proof (cases "kcp_dead st")
      case False
      then have "server_tun_choose conv st orc t s = Ret (Some a, s1)"
        using ch ct1 c k by (simp add: server_tun_choose_def link_tbl_ch_Some)
      with that [of "Some a" s1] inv fr k tbl out False show thesis by auto
    next
      case True
      obtain s2 where s2: "server_disconnect_session_by_convid_ch (sub_oracle 0 orc) t k s1 = Ret s2" "server_ch_inv conv s2" "frame_sx t s1 s2"
        "covers orc (dom (link_tbl_ch t s)) \<Longrightarrow> link_tbl_ch t s2 = (link_tbl_ch t s1)(k := None)"
      proof (cases "covers orc (dom (link_tbl_ch t s))")
        case cv: True
        then have "covers (sub_oracle 0 orc) (dom (link_tbl_ch t s1))" by (simp add: tbl covers_sub)
        from sx_disconnect_by_convid_ch_exact [OF inv ct1 this] that show thesis by blast
      next
        case False
        then show thesis using sx_disconnect_by_convid_ch [OF inv ct1, of "sub_oracle 0 orc" k] that by blast
      qed
      have "server_tun_choose conv st orc t s = Ret (None, s2)"
        using ch ct1 c k s2(1) True base by (simp add: server_tun_choose_def link_tbl_ch_Some)
      with that [of None s2] s2 fr Some tbl True frame_sx_trans show thesis by auto
    qed
  qed
qed

section \<open>Accepting a link\<close>

definition link_iface :: "u32 \<Rightarrow> server_ch \<Rightarrow> iface option" where
  "link_iface t s = (case g_client_list_ch s t of None \<Rightarrow> None | Some ct \<Rightarrow> cy_iface ct)"

lemma link_ok_ch_mono: "link_ok_ch conv m c \<Longrightarrow> mem_le m m' \<Longrightarrow> link_ok_ch conv m' c"
  by (auto simp: link_ok_ch_def mem_le_def)

lemma server_ch_inv_mem:
  assumes "server_ch_inv conv s" "mem_le (sx_mem s) m" "mem_inv m"
  shows "server_ch_inv conv (s\<lparr>sx_mem := m\<rparr>)"
  using assms link_ok_ch_mono by (fastforce simp: server_ch_inv_def tunnel_ok_ch_def)

section \<open>The goroutines\<close>

text \<open>Nothing a goroutine holds on to goes away: links, tunnels, channels, buffers.\<close>

definition grows_sx :: "server_ch \<Rightarrow> server_ch \<Rightarrow> bool" where
  "grows_sx s s' \<longleftrightarrow>
     (\<forall>a c. sx_heap s a = Some c \<longrightarrow> map_option ck_writer_channel (sx_heap s' a) = Some (ck_writer_channel c)) \<and>
     (\<forall>t ct. g_client_list_ch s t = Some ct \<longrightarrow> g_client_list_ch s' t \<noteq> None) \<and>
     (\<forall>t i. link_iface t s = Some i \<longrightarrow> link_iface t s' = Some i) \<and> mem_le (sx_mem s) (sx_mem s')"

lemma grows_sx_refl [simp]: "grows_sx s s"
  by (simp add: grows_sx_def)

lemma grows_sx_trans: "grows_sx s s' \<Longrightarrow> grows_sx s' s'' \<Longrightarrow> grows_sx s s''"
  unfolding grows_sx_def by (auto dest: mem_le_trans) fastforce+

lemma frame_sx_grows_sx:
  assumes "frame_sx t s s'"
  shows "grows_sx s s'"
proof -
  have "rel_option same_tunnel_ch (g_client_list_ch s t') (g_client_list_ch s' t')" for t'
    using assms by (cases "t' = t") (auto simp: frame_sx_def intro: option.rel_refl)
  then have "(g_client_list_ch s t' = None) = (g_client_list_ch s' t' = None) \<and> link_iface t' s' = link_iface t' s" for t'
    by (cases "g_client_list_ch s t'"; cases "g_client_list_ch s' t'")
       (force simp: link_iface_def same_tunnel_ch_def dest: spec [of _ t'])+
  then have "g_client_list_ch s t' = Some ct \<Longrightarrow> \<exists>ct'. g_client_list_ch s' t' = Some ct'" "link_iface t' s' = link_iface t' s" for t' ct
    by (metis not_None_eq)+
  with assms show ?thesis by (auto simp: grows_sx_def frame_sx_def)
qed

lemma grows_sx_emit [simp]: "grows_sx s (emit_sx es s)"
  by (simp add: grows_sx_def link_iface_def)

lemma grows_sx_upd_ck:
  assumes "\<And>c. ck_writer_channel (f c) = ck_writer_channel c"
  shows "grows_sx s (upd_ck a f s)"
  using assms by (auto simp: grows_sx_def link_iface_def)

lemma grows_sx_mem: "mem_le (sx_mem s) m \<Longrightarrow> grows_sx s (s\<lparr>sx_mem := m\<rparr>)"
  by (simp add: grows_sx_def link_iface_def)

text \<open>A goroutine's step: it returns, the state stays well formed, nothing goes away, the channels are not touched.\<close>

definition calm_sx :: "(handle \<Rightarrow> u32) \<Rightarrow> server_ch \<Rightarrow> server_ch \<Rightarrow> bool" where
  "calm_sx conv s s' \<longleftrightarrow> server_ch_inv conv s' \<and> grows_sx s s' \<and> m_chans (sx_mem s') = m_chans (sx_mem s) \<and>
     m_next (sx_mem s) \<le> m_next (sx_mem s')"

lemma calm_sx_trans: "calm_sx conv s s' \<Longrightarrow> calm_sx conv s' s'' \<Longrightarrow> calm_sx conv s s''"
  by (auto simp: calm_sx_def intro: grows_sx_trans)

lemma calm_sx_frame: "server_ch_inv conv s' \<Longrightarrow> frame_sx t s s' \<Longrightarrow> calm_sx conv s s'"
  by (auto simp: calm_sx_def dest: frame_sx_grows_sx) (auto simp: frame_sx_def)

lemma calm_sx_refl: "server_ch_inv conv s \<Longrightarrow> calm_sx conv s s"
  by (simp add: calm_sx_def)

lemma calm_sx_emit: "server_ch_inv conv s \<Longrightarrow> calm_sx conv s (emit_sx es s)"
  by (simp add: calm_sx_def)

lemma calm_sx_upd_ck:
  assumes "server_ch_inv conv s" "\<And>c. ck_writer_channel (f c) = ck_writer_channel c" "\<And>c. ck_convid (f c) = ck_convid c"
    "\<And>c. ck_kcp (f c) = ck_kcp c" "\<And>c. ck_alive (f c) = ck_alive c"
  shows "calm_sx conv s (upd_ck a f s)"
  using assms by (auto simp: calm_sx_def link_ok_ch_def intro!: server_ch_inv_upd_ck grows_sx_upd_ck)

lemma calm_sx_disconnect:
  assumes "server_ch_inv conv s" "g_client_list_ch s t = Some ct"
  shows "\<exists>s'. server_disconnect_session_by_convid_ch orc t d s = Ret s' \<and> calm_sx conv s s'"
  using sx_disconnect_by_convid_ch [OF assms, of orc d] calm_sx_frame by blast

lemma kcp_begin_ch_calm_sx:
  assumes "server_ch_inv conv s" "g_client_list_ch s t = Some ct" "sx_heap s a = Some c"
  shows "\<exists>f s'. server_handle_kcp_conn_begin conv orc t a st s = Ret (f, s') \<and> calm_sx conv s s'"
proof -
  obtain h where "ck_kcp c = Some h" using server_ch_inv_heap [OF assms(1,3)] by blast
  moreover obtain s' where "server_disconnect_session_by_convid_ch orc t (conv h) s = Ret s'" "calm_sx conv s s'"
    using calm_sx_disconnect [OF assms(1,2)] by blast
  ultimately show ?thesis
    using assms calm_sx_refl server_ch_inv_base [OF assms(1,2)] by (auto simp: server_handle_kcp_conn_begin_def)
qed

lemma kcp_read_ch_calm_sx:
  assumes "server_ch_inv conv s" "g_client_list_ch s t = Some ct" "length message = 1500"
  shows "\<exists>f message' s'. server_handle_kcp_conn_read X G orc t k a message result now tun_err s = Ret (f, message', s') \<and>
    calm_sx conv s s' \<and> length message' = 1500"
proof (cases result)
  case (Inl e)
  then show ?thesis using calm_sx_disconnect [OF assms(1,2), of orc k] assms(2,3) by (auto simp: server_handle_kcp_conn_read_def)
next
  case (Inr data)
  have emit2: "calm_sx conv s (emit_sx es s)" "calm_sx conv s (emit_sx es' (emit_sx es s))" for es es'
    using calm_sx_emit [OF assms(1)] calm_sx_trans [OF calm_sx_emit [OF assms(1)] calm_sx_emit [OF server_ch_inv_emit [OF assms(1)]]] by blast+
  have hello: "calm_sx conv s (upd_ck a (\<lambda>c. c\<lparr>ck_last_hello := Some now\<rparr>) s)" by (rule calm_sx_upd_ck) (use assms(1) in auto)
  show ?thesis
  proof (cases "overwrite data message ! 0 = 0 \<and> overwrite data message ! 1 = 0")
    case True
    with Inr hello assms(2,3) show ?thesis by (simp add: server_handle_kcp_conn_read_def Let_def)
  next
    case False
    show ?thesis
    proof (cases "cy_iface ct")
      case None
      with Inr False hello emit2(1) calm_sx_refl [OF assms(1)] assms(2,3) show ?thesis
        by (simp add: server_handle_kcp_conn_read_def Let_def)
    next
      case (Some i)
      obtain u where "server_disconnect_session_by_convid_ch orc t k (emit_sx [Eff (TunWrite i data)] s) = Ret u"
        "calm_sx conv (emit_sx [Eff (TunWrite i data)] s) u"
        using calm_sx_disconnect [OF server_ch_inv_emit [OF assms(1), of "[Eff (TunWrite i data)]"], of t ct orc k] assms(2) by auto
      with Some Inr False hello emit2 calm_sx_trans [OF emit2(1)] assms(2,3) show ?thesis
        by (simp add: server_handle_kcp_conn_read_def Let_def)
    qed
  qed
qed

lemma writer_write_calm_sx:
  assumes "server_ch_inv conv s" "g_client_list_ch s t = Some ct" "sx_heap s a = Some c" "pkt_ok (sx_mem s) p"
  shows "\<exists>f s'. calm_sx conv s s' \<and> (f = Ends \<longleftrightarrow> a_write (orc []) \<noteq> None) \<and> server_kcp_writer_write X G conv orc t a p s =
    (if g_trace_ch G \<and> f = Goes_on then obind (case cy_iface ct of None \<Rightarrow> nil_iface_Name X | Some i \<Rightarrow> Ret i) (\<lambda>_. Ret (f, s'))
     else Ret (f, s'))"
proof -
  obtain h where h: "ck_kcp c = Some h" "conv h = ck_convid c" using server_ch_inv_heap [OF assms(1,3)] by blast
  obtain data where data: "buf_slice (pt_buff p) (pt_len p) (sx_mem s) = Ret data"
    using assms(4) by (auto simp: pkt_ok_def buf_slice_def)
  let ?s1 = "emit_sx [Eff (KcpWriteDeadline h 10), Eff (KcpWrite h data)] s"
  have c1: "calm_sx conv s ?s1" "server_ch_inv conv ?s1" using calm_sx_emit assms(1) by auto
  obtain u where u: "server_disconnect_session_by_convid_ch (sub_oracle 0 orc) t (ck_convid c) ?s1 = Ret u" "calm_sx conv ?s1 u"
    using calm_sx_disconnect [OF c1(2), of t ct] assms(2) by auto
  let ?s2 = "upd_ck a (\<lambda>c. c\<lparr>ck_txcounter := ck_txcounter c + 1\<rparr>) ?s1"
  have c2: "calm_sx conv ?s1 ?s2" by (rule calm_sx_upd_ck) (use c1 in auto)
  then have c3: "calm_sx conv ?s2 (emit_sx es ?s2)" for es by (intro calm_sx_emit) (simp add: calm_sx_def)
  have all: "calm_sx conv s u" "calm_sx conv s ?s2" "calm_sx conv s (emit_sx es ?s2)" for es
    using calm_sx_trans [OF c1(1) u(2)] calm_sx_trans [OF c1(1) c2] calm_sx_trans [OF calm_sx_trans [OF c1(1) c2] c3] by blast+
  note run = server_kcp_writer_write_def [of X G conv orc t a p s] assms(2,3) h data server_ch_inv_base [OF assms(1,2)]
  show ?thesis
  proof (cases "a_write (orc [])")
    case None
    then show ?thesis using all(2,3) by (cases "g_trace_ch G") (fastforce simp: run Let_def)+
  next
    case (Some e)
    then show ?thesis using all(1) u(1) by (intro exI [of _ Ends] exI [of _ u]) (simp add: run Let_def)
  qed
qed

lemma tun_choose_calm_sx:
  assumes "server_ch_inv conv s" "g_client_list_ch s t = Some ct"
  shows "\<exists>r s'. server_tun_choose conv st orc t s = Ret (r, s') \<and> calm_sx conv s s' \<and> (\<forall>a. r = Some a \<longrightarrow> sx_heap s' a \<noteq> None)"
proof -
  obtain r s' where u: "server_tun_choose conv st orc t s = Ret (r, s')" "server_ch_inv conv s'" "frame_sx t s s'"
    "\<And>a. r = Some a \<Longrightarrow> \<exists>k. link_tbl_ch t s' k = Some a"
    by (rule sx_tun_choose_cases [OF assms, of st orc], rule that) blast+
  have "sx_heap s' a \<noteq> None" if "r = Some a" for a
    using u(4) [OF that] server_ch_inv_entry [OF u(2)] by fastforce
  with u calm_sx_frame show ?thesis by blast
qed

lemma tun_read_ch_calm_sx:
  assumes "server_ch_inv conv s" "sx_heap s a = Some c" "map_option length (m_buffs (sx_mem s) b) = Some 1500" "length data \<le> 1500"
  shows "\<exists>ch p s'. server_handle_tun_read_ch b a (Inr data) s = Ret (Tun_sending (Some ch) p, s') \<and> calm_sx conv s s' \<and>
    pt_buff p = b \<and> is_chan 100 ch (sx_mem s') \<and> pkt_ok (sx_mem s') p"
proof -
  let ?s1 = "s\<lparr>sx_mem := buf_read b data (sx_mem s)\<rparr>"
  note m = buf_read_inv [OF server_ch_inv_memory [OF assms(1)], of b data]
  have "calm_sx conv s ?s1" using server_ch_inv_mem [OF assms(1) m(2,1)] grows_sx_mem [OF m(2)] by (simp add: calm_sx_def)
  moreover obtain ch where "ck_writer_channel c = Some ch" "is_chan 100 ch (sx_mem s)" by (rule server_ch_inv_heap [OF assms(1,2)])
  moreover have "pkt_ok (sx_mem ?s1) \<lparr>pt_sequence = 0, pt_len = int (length data), pt_buff = b\<rparr>"
    using assms(3,4) by (auto simp: pkt_ok_def)
  ultimately show ?thesis using assms(2) by (auto simp: server_handle_tun_read_ch_def is_chan_def)
qed

lemma tun_start_ch_calm_sx:
  assumes "server_ch_inv conv s" "g_client_list_ch s t = Some ct"
  shows "\<exists>pc s'. server_handle_tun_start_ch t s = Ret (pc, s') \<and> calm_sx conv s s' \<and>
    (pc = Tun_ended \<or> (\<exists>b. pc = Tun_loop b \<and> map_option length (m_buffs (sx_mem s') b) = Some 1500))"
proof -
  obtain b m where bm: "(b, m) = buf_make 1500 (sx_mem s)" by (metis surj_pair)
  note f = buf_make_inv [OF server_ch_inv_memory [OF assms(1)] bm]
  have "m_chans m = m_chans (sx_mem s)" "m_next (sx_mem s) \<le> m_next m"
    using buf_make_fields [OF bm [symmetric]] by simp_all
  then have "calm_sx conv s (s\<lparr>sx_mem := m\<rparr>)"
    using server_ch_inv_mem [OF assms(1) f(2,1)] grows_sx_mem [OF f(2)] by (simp add: calm_sx_def)
  then show ?thesis using assms(2) f(3) bm [symmetric] calm_sx_refl [OF assms(1)] by (auto simp: server_handle_tun_start_ch_def Let_def)
qed

lemma send_client_pings_ch_calm_sx:
  assumes "server_ch_inv conv s" "server_send_client_pings_ch orc s = Ret s'"
  shows "calm_sx conv s s'"
proof -
  have one: "calm_sx conv s u'" if "calm_sx conv s u" "Ret (emit_sx es u) = Ret u'" for u u' es
    using that calm_sx_trans [OF that(1) calm_sx_emit] by (auto simp: calm_sx_def)
  show ?thesis
    by (rule for_range_keeps [where I = "calm_sx conv s", OF _ calm_sx_refl [OF assms(1)] assms(2) [unfolded server_send_client_pings_ch_def]])
       (rule one)
qed

lemma ping_client_calm_sx:
  assumes "server_ch_inv conv s" "server_ping_client orc t s = Ret s'"
  shows "calm_sx conv s s'"
proof -
  have one: "calm_sx conv s u'" if "calm_sx conv s u" "server_ping_body_ch t k a u = Ret u'" for u u' k a
    using that calm_sx_trans [OF that(1) calm_sx_emit] by (auto simp: server_ping_body_ch_def outcome_simps calm_sx_def)
  show ?thesis
    by (rule for_range_keeps [where I = "calm_sx conv s", OF _ calm_sx_refl [OF assms(1)] assms(2) [unfolded server_ping_client_def]])
       (rule one)
qed

section \<open>A link is entered\<close>

text \<open>All that a call of \<^verbatim>\<open>server_accept_conn\<close> changes; the listener calls it with \<^verbatim>\<open>conn.GetConv()\<close>.\<close>

lemma server_accept_ch_facts:
  assumes "t = k div 10 * 10" "s' = server_accept_conn_ch G conv E k h s"
  obtains ct c m es where "(c, m) = chan_make 100 (sx_mem s)" "sx_mem s' = m"
    "sx_heap s' = (sx_heap s)(sx_next s \<mapsto> new_client_kcp k h c (ax_remote E))" "sx_next s' = Suc (sx_next s)"
    "g_client_list_ch s' = (g_client_list_ch s)(t \<mapsto> ct)"
    "cy_kcps ct = gm_put (conv h) (sx_next s) (case g_client_list_ch s t of None \<Rightarrow> [] | Some ct \<Rightarrow> cy_kcps ct)"
    "link_iface t s = None \<Longrightarrow> cy_base_convid ct = t"
    "link_iface t s \<noteq> None \<Longrightarrow> \<exists>ct0. g_client_list_ch s t = Some ct0 \<and> cy_base_convid ct = cy_base_convid ct0 \<and> cy_iface ct = cy_iface ct0"
    "sx_out s' = sx_out s @ es"
    "spawned es = [Writer_proc t (sx_next s) c Wr_waiting] @ (if link_iface t s = None then [Tun_proc t Tun_start] else []) @
       [Conn_proc t k (sx_next s) (Some (replicate 1500 0))]"
proof -
  define ct0 where "ct0 = (case g_client_list_ch s t of None \<Rightarrow> new_clientType_ch | Some ct \<Rightarrow> ct)"
  obtain c m where cm: "chan_make 100 (sx_mem s) = (c, m)" by fastforce
  have ct0: "cy_kcps ct0 = (case g_client_list_ch s t of None \<Rightarrow> [] | Some ct \<Rightarrow> cy_kcps ct)" "cy_iface ct0 = link_iface t s"
    by (simp_all add: ct0_def link_iface_def new_clientType_ch_def cy_kcps_def split: option.splits)
  let ?enter = "\<lambda>ct. ct\<lparr>cy_last_convid := 0, cy_client_kcps := Some (gm_put (conv h) (sx_next s) (cy_kcps ct))\<rparr>"
  show thesis
  proof (cases "link_iface t s")
    case None
    obtain i eff where tun: "createTun_ch (g_server_tun_ip_ch G) t (ax_tun E) = (i, eff)" by fastforce
    let ?f = "\<lambda>ct. ct\<lparr>cy_iface := i, cy_tun_ip := g_client_tun_ip_ch G, cy_ifname := ''tun'' @ dec_u32 t, cy_base_convid := t\<rparr>"
    have "cy_kcps (?f ct0) = cy_kcps ct0" by (simp add: cy_kcps_def)
    then show thesis
      using None ct0 cm tun
      by (intro that [of c m "?enter (?f ct0)" "map Eff eff @ [Go (Go_server_kcp_writer_ch t (sx_next s) c)] @ map Eff (setServerConnOptions_ch h) @
            [Go (Go_server_handle_tun_ch t), Go (Go_server_handle_kcp_conn_ch t k (sx_next s))]"])
         (simp_all add: assms(2) server_accept_conn_ch_def server_ensure_tun_ch_def assms(1) [symmetric] ct0_def [symmetric] cy_kcps_def Let_def)
  next
    case (Some i)
    then have "g_client_list_ch s t = Some ct0" by (simp add: ct0_def link_iface_def split: option.splits)
    with Some show thesis
      using ct0 cm
      by (intro that [of c m "?enter ct0" "[Go (Go_server_kcp_writer_ch t (sx_next s) c)] @ map Eff (setServerConnOptions_ch h) @
            [Go (Go_server_handle_kcp_conn_ch t k (sx_next s))]"])
         (simp_all add: assms(2) server_accept_conn_ch_def server_ensure_tun_ch_def assms(1) [symmetric] cy_kcps_def Let_def)
  qed
qed

lemma server_accept_ch_inv:
  assumes inv: "server_ch_inv conv s" and "conv h = k"
  shows "server_ch_inv conv (server_accept_conn_ch G conv E k h s) \<and> grows_sx s (server_accept_conn_ch G conv E k h s)"
proof -
  define t where "t = k div 10 * 10"
  define s' where "s' = server_accept_conn_ch G conv E k h s"
  obtain ct c m where f: "(c, m) = chan_make 100 (sx_mem s)" "sx_mem s' = m"
    "sx_heap s' = (sx_heap s)(sx_next s \<mapsto> new_client_kcp k h c (ax_remote E))" "sx_next s' = Suc (sx_next s)"
    "g_client_list_ch s' = (g_client_list_ch s)(t \<mapsto> ct)"
    "cy_kcps ct = gm_put (conv h) (sx_next s) (case g_client_list_ch s t of None \<Rightarrow> [] | Some ct \<Rightarrow> cy_kcps ct)"
    "link_iface t s = None \<Longrightarrow> cy_base_convid ct = t"
    "link_iface t s \<noteq> None \<Longrightarrow> \<exists>ct0. g_client_list_ch s t = Some ct0 \<and> cy_base_convid ct = cy_base_convid ct0 \<and> cy_iface ct = cy_iface ct0"
    by (rule server_accept_ch_facts [OF t_def s'_def], rule that) blast+
  note mem = chan_make_inv [OF server_ch_inv_memory [OF inv] f(1)]
  have fresh: "sx_heap s (sx_next s) = None" using inv by (cases "sx_heap s (sx_next s)") (auto simp: server_ch_inv_def)
  have base: "cy_base_convid ct = t" using f(7,8) server_ch_inv_base [OF inv] by (cases "link_iface t s") auto
  have heap: "map_option ck_convid (sx_heap s' a) = Some j" if "map_option ck_convid (sx_heap s a) = Some j" for a j
    using that fresh f(3) by auto
  have new: "map_option ck_convid (sx_heap s' (sx_next s)) = Some k" using f(3) by (simp add: new_client_kcp_def)
  have "tunnel_ok_ch s' u cu" if u: "g_client_list_ch s' u = Some cu" for u cu
  proof (cases "u = t")
    case False
    then have "tunnel_ok_ch s u cu" using u f(5) server_ch_inv_tun [OF inv] by auto
    with heap show ?thesis by (simp add: tunnel_ok_ch_def)
  next
    case True
    then have "cu = ct" using u f(5) by auto
    moreover have "tunnel_ok_ch s t ct0" if "g_client_list_ch s t = Some ct0" for ct0 by (rule server_ch_inv_tun [OF inv that])
    ultimately show ?thesis using True base f(6) heap new assms(2) t_def
      by (cases "g_client_list_ch s t") (auto simp: tunnel_ok_ch_def)
  qed
  moreover have "a < sx_next s' \<and> link_ok_ch conv (sx_mem s') d" if "sx_heap s' a = Some d" for a d
  proof (cases "a = sx_next s")
    case True
    then show ?thesis using that f(2-4) mem(3) assms(2) by (auto simp: link_ok_ch_def new_client_kcp_def)
  next
    case False
    then have "a < sx_next s" "link_ok_ch conv (sx_mem s) d" using that f(3) inv by (auto simp: server_ch_inv_def)
    then show ?thesis using f(2,4) link_ok_ch_mono [OF _ mem(2)] by simp
  qed
  ultimately have "server_ch_inv conv s'" using mem(1) f(2) by (simp add: server_ch_inv_def)
  moreover have "link_iface u s' = Some i" if "link_iface u s = Some i" for u i
    using that f(5,8) by (auto simp: link_iface_def split: if_splits)
  then have "grows_sx s s'" using mem(2) f(2,3,5) fresh by (auto simp: grows_sx_def)
  ultimately show ?thesis by (simp add: s'_def)
qed

end
