(* ===== verification/Channel_Server_Steps.thy ===== *)
theory Channel_Server_Steps
  imports Channel_Server_Bond
begin

text \<open>
  The goroutines of the variant's server as a transition system, in the way of \<^verbatim>\<open>Channel_Client_Steps\<close>; both are instances of the locale \<open>piped_system\<close>.
\<close>

section \<open>The system\<close>

type_synonym server_sys = "server_ch sys"

definition init_server_sys :: server_sys where
  "init_server_sys = \<lparr>sy_state = init_server_ch, sy_procs = []\<rparr>"

abbreviation ss_mem :: "server_sys \<Rightarrow> memory" where
  "ss_mem S \<equiv> sx_mem (sy_state S)"

definition news_sx :: "server_ch \<Rightarrow> server_ch \<Rightarrow> effect_ch list" where
  "news_sx s s' = drop (length (sx_out s)) (sx_out s')"

inductive server_sys_step ::
  "'r ext \<Rightarrow> globals_ch \<Rightarrow> (handle \<Rightarrow> u32) \<Rightarrow> server_sys \<Rightarrow> chan_event \<Rightarrow> server_sys \<Rightarrow> bool"
for X G conv where
  accept: "s' = server_accept_conn_ch G conv E (conv h) h (sy_state S) \<Longrightarrow>
    server_sys_step X G conv S Quiet \<lparr>sy_state = s', sy_procs = sy_procs S @ spawned (news_sx (sy_state S) s')\<rparr>"
| ping_round: "server_send_client_pings_ch orc (sy_state S) = Ret s' \<Longrightarrow> server_sys_step X G conv S Quiet (S\<lparr>sy_state := s'\<rparr>)"
| ping: "server_ping_client orc t (sy_state S) = Ret s' \<Longrightarrow> server_sys_step X G conv S Quiet (S\<lparr>sy_state := s'\<rparr>)"
| conn_begin: "is_proc S i (Conn_proc t k a (Some m)) \<Longrightarrow> server_handle_kcp_conn_begin conv orc t a st (sy_state S) = Ret (f, s') \<Longrightarrow>
    server_sys_step X G conv S Quiet (proceed i (Conn_proc t k a (if f = Goes_on then Some m else None)) s' S)"
| conn_read: "is_proc S i (Conn_proc t k a (Some m)) \<Longrightarrow>
    server_handle_kcp_conn_read X G orc t k a m result now tun_err (sy_state S) = Ret (f, m', s') \<Longrightarrow>
    server_sys_step X G conv S Quiet (proceed i (Conn_proc t k a (if f = Goes_on then Some m' else None)) s' S)"
| tun_start: "is_proc S i (Tun_proc t Tun_start) \<Longrightarrow> server_handle_tun_start_ch t (sy_state S) = Ret (pc, s') \<Longrightarrow>
    server_sys_step X G conv S Quiet (proceed i (Tun_proc t pc) s' S)"
| tun_choose: "is_proc S i (Tun_proc t (Tun_loop b)) \<Longrightarrow> server_tun_choose conv st orc t (sy_state S) = Ret (r, s') \<Longrightarrow>
    server_sys_step X G conv S Quiet (proceed i (Tun_proc t (case r of None \<Rightarrow> Tun_loop b | Some a \<Rightarrow> Tun_read b a)) s' S)"
| tun_read: "is_proc S i (Tun_proc t (Tun_read b a)) \<Longrightarrow> length data \<le> 1500 \<Longrightarrow>
    server_handle_tun_read_ch b a (Inr data) (sy_state S) = Ret (pc, s') \<Longrightarrow>
    server_sys_step X G conv S Quiet (proceed i (Tun_proc t pc) s' S)"
| tun_send: "is_proc S i (Tun_proc t (Tun_sending (Some ch) p)) \<Longrightarrow> chan_send ch p (ss_mem S) = Some m \<Longrightarrow>
    server_sys_step X G conv S (Put ch p) (proceed i (Tun_proc t (Tun_loop (pt_buff p))) ((sy_state S)\<lparr>sx_mem := m\<rparr>) S)"
| receive: "is_proc S i (Writer_proc t a ch Wr_waiting) \<Longrightarrow> chan_recv ch (ss_mem S) = Some (p, m) \<Longrightarrow>
    server_sys_step X G conv S (Take ch p) (proceed i (Writer_proc t a ch (Wr_writing p)) ((sy_state S)\<lparr>sx_mem := m\<rparr>) S)"
| written: "is_proc S i (Writer_proc t a ch (Wr_writing p)) \<Longrightarrow> server_kcp_writer_write X G conv orc t a p (sy_state S) = Ret (f, s') \<Longrightarrow>
    server_sys_step X G conv S Quiet (proceed i (Writer_proc t a ch (if f = Goes_on then Wr_waiting else Wr_ended)) s' S)"

section \<open>The goroutines refer to what exists\<close>

primrec tun_pc_fine :: "server_ch \<Rightarrow> tun_pc \<Rightarrow> bool" where
  "tun_pc_fine s Tun_start = True"
| "tun_pc_fine s (Tun_loop b) = (map_option length (m_buffs (sx_mem s) b) = Some 1500)"
| "tun_pc_fine s (Tun_read b a) = (map_option length (m_buffs (sx_mem s) b) = Some 1500 \<and> sx_heap s a \<noteq> None)"
| "tun_pc_fine s (Tun_sending c p) = (pkt_ok (sx_mem s) p \<and> (\<exists>ch. c = Some ch \<and> is_chan 100 ch (sx_mem s)))"
| "tun_pc_fine s Tun_ended = True"

primrec proc_fine :: "server_ch \<Rightarrow> proc \<Rightarrow> bool" where
  "proc_fine s (Tun_proc t pc) = (g_client_list_ch s t \<noteq> None \<and> tun_pc_fine s pc)"
| "proc_fine s (Writer_proc t a c pc) = (g_client_list_ch s t \<noteq> None \<and>
     map_option ck_writer_channel (sx_heap s a) = Some (Some c) \<and> is_chan 100 c (sx_mem s) \<and> writer_pc_ok (sx_mem s) pc)"
| "proc_fine s (Reader_proc t a b) = False"
| "proc_fine s (Conn_proc t k a m) = (g_client_list_ch s t \<noteq> None \<and> sx_heap s a \<noteq> None \<and> (\<forall>bs. m = Some bs \<longrightarrow> length bs = 1500))"

definition server_sys_inv :: "(handle \<Rightarrow> u32) \<Rightarrow> server_sys \<Rightarrow> bool" where
  "server_sys_inv conv S \<longleftrightarrow> server_ch_inv conv (sy_state S) \<and> list_all (proc_fine (sy_state S)) (sy_procs S) \<and>
     distinct (writer_chans (sy_procs S))"

lemma proc_fine_mono:
  assumes "proc_fine s p" "grows_sx s s'"
  shows "proc_fine s' p"
proof -
  have le: "mem_le (sx_mem s) (sx_mem s')" using assms(2) by (simp add: grows_sx_def)
  have heap: "sx_heap s' a \<noteq> None" if "sx_heap s a \<noteq> None" for a using that assms(2) by (fastforce simp: grows_sx_def)
  have pc: "tun_pc_fine s' pc" if "tun_pc_fine s pc" for pc
    using that le heap by (cases pc) (auto simp: pkt_ok_mono [OF _ le] mem_le_def)
  have wr: "writer_pc_ok (sx_mem s') pc" if "writer_pc_ok (sx_mem s) pc" for pc
    using that by (cases pc) (auto simp: pkt_ok_mono [OF _ le])
  show ?thesis
    using assms le by (cases p) (fastforce simp: grows_sx_def mem_le_def dest: pc wr)+
qed

lemma server_sys_inv_init: "server_sys_inv conv init_server_sys"
  by (simp add: server_sys_inv_def init_server_sys_def server_ch_inv_init writer_chans_def)

lemma server_sys_inv_proc: "server_sys_inv conv S \<Longrightarrow> is_proc S i p \<Longrightarrow> proc_fine (sy_state S) p"
  by (auto simp: server_sys_inv_def is_proc_def list_all_length)

lemma server_sys_inv_state: "server_sys_inv conv S \<Longrightarrow> server_ch_inv conv (sy_state S)"
  by (simp add: server_sys_inv_def)

lemma server_sys_inv_proceed:
  assumes "server_sys_inv conv S" "server_ch_inv conv s" "grows_sx (sy_state S) s" "proc_fine s p" "is_proc S i q" "writer_chan q = writer_chan p"
  shows "server_sys_inv conv (proceed i p s S)"
proof -
  have "list_all (proc_fine s) (sy_procs (proceed i p s S))"
    by (rule list_all_proceed [where Q = "proc_fine (sy_state S)"]) (use assms(1,3,4) proc_fine_mono in \<open>auto simp: server_sys_inv_def\<close>)
  moreover have "sy_state (proceed i p s S) = s" by (simp add: proceed_def)
  ultimately show ?thesis using assms(1,2) writer_chans_proceed [OF assms(5,6), of s] by (simp add: server_sys_inv_def)
qed

lemma server_step_proceed:
  assumes "server_sys_inv conv S" "is_proc S i q" "calm_sx conv (sy_state S) s \<and> proc_fine s p" "writer_chan q = writer_chan p"
  shows "server_sys_inv conv (proceed i p s S) \<and> mem_event Quiet (ss_mem S) (ss_mem (proceed i p s S))"
  using server_sys_inv_proceed [OF assms(1) _ _ _ assms(2,4)] assms(3) by (simp add: calm_sx_def proceed_def)

lemma server_step_quiet:
  assumes "server_sys_inv conv S" "calm_sx conv (sy_state S) s"
  shows "server_sys_inv conv (S\<lparr>sy_state := s\<rparr>) \<and> mem_event Quiet (ss_mem S) (ss_mem (S\<lparr>sy_state := s\<rparr>))"
  using assms proc_fine_mono by (auto simp: server_sys_inv_def calm_sx_def list_all_iff)

lemma proc_fine_calm: "proc_fine s p \<Longrightarrow> calm_sx conv s s' \<Longrightarrow> proc_fine s' p"
  using proc_fine_mono by (auto simp: calm_sx_def)

section \<open>Every step keeps the system in order\<close>

lemma conn_moves:
  assumes "server_sys_inv conv S" "is_proc S i (Conn_proc t k a (Some m))"
  shows "\<exists>f s'. server_handle_kcp_conn_begin conv orc t a st (sy_state S) = Ret (f, s') \<and> calm_sx conv (sy_state S) s' \<and>
      proc_fine s' (Conn_proc t k a (if f = Goes_on then Some m else None))"
    and "\<exists>f m' s'. server_handle_kcp_conn_read X G orc t k a m result now tun_err (sy_state S) = Ret (f, m', s') \<and> calm_sx conv (sy_state S) s' \<and>
      proc_fine s' (Conn_proc t k a (if f = Goes_on then Some m' else None))"
proof -
  have ok: "proc_fine (sy_state S) (Conn_proc t k a (Some m))" by (rule server_sys_inv_proc [OF assms])
  then obtain ct c where l: "g_client_list_ch (sy_state S) t = Some ct" "sx_heap (sy_state S) a = Some c" and len: "length m = 1500" by auto
  note si = server_sys_inv_state [OF assms(1)]
  obtain f s' where "server_handle_kcp_conn_begin conv orc t a st (sy_state S) = Ret (f, s')" "calm_sx conv (sy_state S) s'"
    using kcp_begin_ch_calm_sx [OF si l] by blast
  then show "\<exists>f s'. server_handle_kcp_conn_begin conv orc t a st (sy_state S) = Ret (f, s') \<and> calm_sx conv (sy_state S) s' \<and>
      proc_fine s' (Conn_proc t k a (if f = Goes_on then Some m else None))"
    using proc_fine_calm [OF ok] by auto
  obtain f m' s' where "server_handle_kcp_conn_read X G orc t k a m result now tun_err (sy_state S) = Ret (f, m', s')"
    "calm_sx conv (sy_state S) s'" "length m' = 1500"
    using kcp_read_ch_calm_sx [OF si l(1) len] by blast
  then show "\<exists>f m' s'. server_handle_kcp_conn_read X G orc t k a m result now tun_err (sy_state S) = Ret (f, m', s') \<and> calm_sx conv (sy_state S) s' \<and>
      proc_fine s' (Conn_proc t k a (if f = Goes_on then Some m' else None))"
    using proc_fine_calm [OF ok] by auto
qed

lemma sx_tun_moves:
  assumes "server_sys_inv conv S" "is_proc S i (Tun_proc t pc)"
  shows "pc = Tun_start \<Longrightarrow> \<exists>pc' s'. server_handle_tun_start_ch t (sy_state S) = Ret (pc', s') \<and> calm_sx conv (sy_state S) s' \<and> proc_fine s' (Tun_proc t pc')"
    and "pc = Tun_loop b \<Longrightarrow> \<exists>r s'. server_tun_choose conv st orc t (sy_state S) = Ret (r, s') \<and> calm_sx conv (sy_state S) s' \<and>
      proc_fine s' (Tun_proc t (case r of None \<Rightarrow> Tun_loop b | Some a \<Rightarrow> Tun_read b a))"
    and "pc = Tun_read b a \<Longrightarrow> length data \<le> 1500 \<Longrightarrow> \<exists>pc' s'. server_handle_tun_read_ch b a (Inr data) (sy_state S) = Ret (pc', s') \<and>
      calm_sx conv (sy_state S) s' \<and> proc_fine s' (Tun_proc t pc')"
proof -
  have ok: "proc_fine (sy_state S) (Tun_proc t pc)" by (rule server_sys_inv_proc [OF assms])
  then obtain ct where ct: "g_client_list_ch (sy_state S) t = Some ct" by auto
  note si = server_sys_inv_state [OF assms(1)]
  show "\<exists>pc' s'. server_handle_tun_start_ch t (sy_state S) = Ret (pc', s') \<and> calm_sx conv (sy_state S) s' \<and> proc_fine s' (Tun_proc t pc')"
    if "pc = Tun_start"
    using tun_start_ch_calm_sx [OF si ct] proc_fine_calm [OF ok] by fastforce
  show "\<exists>r s'. server_tun_choose conv st orc t (sy_state S) = Ret (r, s') \<and> calm_sx conv (sy_state S) s' \<and>
      proc_fine s' (Tun_proc t (case r of None \<Rightarrow> Tun_loop b | Some a \<Rightarrow> Tun_read b a))" if "pc = Tun_loop b"
  proof -
    obtain r s' where r: "server_tun_choose conv st orc t (sy_state S) = Ret (r, s')" "calm_sx conv (sy_state S) s'"
      "\<forall>a. r = Some a \<longrightarrow> sx_heap s' a \<noteq> None" using tun_choose_calm_sx [OF si ct] by blast
    with proc_fine_calm [OF ok r(2)] that show ?thesis by (cases r) auto
  qed
  show "\<exists>pc' s'. server_handle_tun_read_ch b a (Inr data) (sy_state S) = Ret (pc', s') \<and> calm_sx conv (sy_state S) s' \<and> proc_fine s' (Tun_proc t pc')"
    if pc: "pc = Tun_read b a" and len: "length data \<le> 1500"
  proof -
    obtain c where "sx_heap (sy_state S) a = Some c" "map_option length (m_buffs (ss_mem S) b) = Some 1500" using ok pc by auto
    from tun_read_ch_calm_sx [OF si this len] proc_fine_calm [OF ok] show ?thesis by fastforce
  qed
qed

lemma sx_writer_writes:
  assumes "server_sys_inv conv S" "is_proc S i (Writer_proc t a ch (Wr_writing p))"
    "server_kcp_writer_write X G conv orc t a p (sy_state S) = Ret (f, s')"
  shows "calm_sx conv (sy_state S) s' \<and> proc_fine s' (Writer_proc t a ch (if f = Goes_on then Wr_waiting else Wr_ended))"
proof -
  have ok: "proc_fine (sy_state S) (Writer_proc t a ch (Wr_writing p))" by (rule server_sys_inv_proc [OF assms(1,2)])
  then obtain ct c where "g_client_list_ch (sy_state S) t = Some ct" "sx_heap (sy_state S) a = Some c" "pkt_ok (ss_mem S) p" by auto
  from writer_write_calm_sx [OF server_sys_inv_state [OF assms(1)] this, of orc X G] obtain f' s'' where
    "calm_sx conv (sy_state S) s''" "server_kcp_writer_write X G conv orc t a p (sy_state S) =
      (if g_trace_ch G \<and> f' = Goes_on then obind (case cy_iface ct of None \<Rightarrow> nil_iface_Name X | Some i \<Rightarrow> Ret i) (\<lambda>_. Ret (f', s''))
       else Ret (f', s''))" by blast
  with assms(3) have "calm_sx conv (sy_state S) s'" by (simp add: outcome_simps split: if_splits)
  with proc_fine_calm [OF ok] show ?thesis by auto
qed

section \<open>A link is accepted\<close>

text \<open>The goroutines an accepted link starts are in order, and its writer has a channel of its own.\<close>

lemma accept_ch_spawned:
  assumes "server_ch_inv conv s" "s' = server_accept_conn_ch G conv E (conv h) h s"
  shows "list_all (proc_fine s') (spawned (news_sx s s'))"
    and "\<exists>c. writer_chans (spawned (news_sx s s')) = [c] \<and> m_chans (sx_mem s) c = None"
    and "mem_event Quiet (sx_mem s) (sx_mem s')"
proof -
  define t where "t = conv h div 10 * 10"
  obtain ct c m es where f: "(c, m) = chan_make 100 (sx_mem s)" "sx_mem s' = m"
    "sx_heap s' = (sx_heap s)(sx_next s \<mapsto> new_client_kcp (conv h) h c (ax_remote E))"
    "g_client_list_ch s' = (g_client_list_ch s)(t \<mapsto> ct)" "sx_out s' = sx_out s @ es"
    "spawned es = [Writer_proc t (sx_next s) c Wr_waiting] @ (if link_iface t s = None then [Tun_proc t Tun_start] else []) @
       [Conn_proc t (conv h) (sx_next s) (Some (replicate 1500 0))]"
    by (rule server_accept_ch_facts [OF t_def assms(2)], rule that) blast+
  note new = chan_make_fields [OF f(1) [symmetric]]
  have mk: "mem_ok (sx_mem s)" using server_ch_inv_memory [OF assms(1)] by (simp add: mem_inv_def)
  have sp: "spawned (news_sx s s') = spawned es" using f(5) by (simp add: news_sx_def)
  have "is_chan 100 c (sx_mem s')" using new(2) f(2) by (simp add: is_chan_def)
  then show "list_all (proc_fine s') (spawned (news_sx s s'))"
    unfolding sp f(6) using f(3,4) by (auto simp: new_client_kcp_def)
  have fresh: "m_chans (sx_mem s) c = None" using mem_ok_next [OF mk] new(1) by simp
  then show "\<exists>c. writer_chans (spawned (news_sx s s')) = [c] \<and> m_chans (sx_mem s) c = None"
    unfolding sp f(6) by (auto simp: writer_chans_def)
  show "mem_event Quiet (sx_mem s) (sx_mem s')" using new f(2) fresh by auto
qed

lemma server_sys_chan:
  assumes "server_sys_inv conv S" "c \<in> set (writer_chans (sy_procs S))"
  shows "m_chans (ss_mem S) c \<noteq> None"
proof -
  from assms(2) obtain p where "p \<in> set (sy_procs S)" "c \<in> set (writer_chan p)" by (auto simp: writer_chans_def)
  moreover from this have "proc_fine (sy_state S) p" using assms(1) by (simp add: server_sys_inv_def list_all_iff)
  ultimately show ?thesis by - (cases p, auto simp: is_chan_def)
qed

lemma accept_step:
  assumes "server_sys_inv conv S" "s' = server_accept_conn_ch G conv E (conv h) h (sy_state S)"
  shows "server_sys_inv conv \<lparr>sy_state = s', sy_procs = sy_procs S @ spawned (news_sx (sy_state S) s')\<rparr>"
proof -
  note si = server_sys_inv_state [OF assms(1)]
  note sp = accept_ch_spawned [OF si assms(2)]
  have s': "server_ch_inv conv s'" "grows_sx (sy_state S) s'" using server_accept_ch_inv [OF si refl] assms(2) by simp_all
  obtain c where c: "writer_chans (spawned (news_sx (sy_state S) s')) = [c]" "m_chans (ss_mem S) c = None" using sp(2) by blast
  then have "c \<notin> set (writer_chans (sy_procs S))" using server_sys_chan [OF assms(1)] by blast
  then show ?thesis
    using s' sp(1) c(1) assms(1) proc_fine_mono [OF _ s'(2)] by (auto simp: server_sys_inv_def list_all_iff)
qed

lemma server_sys_step_inv:
  assumes "server_sys_inv conv S" "server_sys_step X G conv S e S'"
  shows "server_sys_inv conv S' \<and> mem_event e (ss_mem S) (ss_mem S')"
proof -
  note i = server_sys_inv_state [OF assms(1)]
  from assms(2) show ?thesis
  proof cases
    case (accept s' E h)
    then show ?thesis using accept_step [OF assms(1) accept(3)] accept_ch_spawned(3) [OF i accept(3)] by simp
  next
    case (ping_round orc s')
    show ?thesis unfolding ping_round(1,2) by (rule server_step_quiet [OF assms(1) send_client_pings_ch_calm_sx [OF i ping_round(3)]])
  next
    case (ping orc t s')
    show ?thesis unfolding ping(1,2) by (rule server_step_quiet [OF assms(1) ping_client_calm_sx [OF i ping(3)]])
  next
    case (conn_begin j t k a m orc st f s')
    show ?thesis unfolding conn_begin(1,2)
      by (rule server_step_proceed [OF assms(1) conn_begin(3)]) (use conn_moves(1) [OF assms(1) conn_begin(3), of orc st] conn_begin(4) in simp_all)
  next
    case (conn_read j t k a m orc result now tun_err f m' s')
    show ?thesis unfolding conn_read(1,2)
      by (rule server_step_proceed [OF assms(1) conn_read(3)])
         (use conn_moves(2) [OF assms(1) conn_read(3), of X G orc result now tun_err] conn_read(4) in simp_all)
  next
    case (tun_start j t pc s')
    show ?thesis unfolding tun_start(1,2)
      by (rule server_step_proceed [OF assms(1) tun_start(3)]) (use sx_tun_moves(1) [OF assms(1) tun_start(3)] tun_start(4) in simp_all)
  next
    case (tun_choose j t b st orc r s')
    show ?thesis unfolding tun_choose(1,2)
      by (rule server_step_proceed [OF assms(1) tun_choose(3)]) (use sx_tun_moves(2) [OF assms(1) tun_choose(3), of b st orc] tun_choose(4) in simp_all)
  next
    case (tun_read j t b a data pc s')
    show ?thesis unfolding tun_read(1,2)
      by (rule server_step_proceed [OF assms(1) tun_read(3)]) (use sx_tun_moves(3) [OF assms(1) tun_read(3) refl tun_read(4)] tun_read(5) in simp_all)
  next
    case (tun_send j t ch p m)
    have ok: "proc_fine (sy_state S) (Tun_proc t (Tun_sending (Some ch) p))" by (rule server_sys_inv_proc [OF assms(1) tun_send(3)])
    have m: "mem_inv m" "mem_le (ss_mem S) m" using chan_send_inv [OF server_ch_inv_memory [OF i] tun_send(4)] ok by simp_all
    have "server_sys_inv conv S'"
      unfolding tun_send(2) using server_ch_inv_mem [OF i m(2,1)] grows_sx_mem [OF m(2)] proc_fine_mono [OF ok grows_sx_mem [OF m(2)]]
      by (intro server_sys_inv_proceed [OF assms(1) _ _ _ tun_send(3)]) (auto simp: pkt_ok_def)
    then show ?thesis using tun_send(1,2,4) by (simp add: proceed_def)
  next
    case (receive j t a ch p m)
    have ok: "proc_fine (sy_state S) (Writer_proc t a ch Wr_waiting)" by (rule server_sys_inv_proc [OF assms(1) receive(3)])
    note m = chan_recv_inv [OF server_ch_inv_memory [OF i] receive(4)]
    have "server_sys_inv conv S'"
      unfolding receive(2)
      using server_ch_inv_mem [OF i m(2,1)] grows_sx_mem [OF m(2)] proc_fine_mono [OF ok grows_sx_mem [OF m(2)]] pkt_ok_mono [OF m(3,2)]
      by (intro server_sys_inv_proceed [OF assms(1) _ _ _ receive(3)]) auto
    then show ?thesis using receive by (simp add: proceed_def)
  next
    case (written j t a ch p orc f s')
    show ?thesis unfolding written(1,2) by (rule server_step_proceed [OF assms(1) written(3) sx_writer_writes [OF assms(1) written(3,4)]]) simp_all
  qed
qed

section \<open>Packets in the channels\<close>

definition ss_deaf :: "server_sys \<Rightarrow> mem_addr \<Rightarrow> bool" where
  "ss_deaf S c \<longleftrightarrow> m_chans (ss_mem S) c \<noteq> None \<and> deaf (sy_procs S) c"

lemma server_sys_step_deaf:
  assumes "server_sys_inv conv S" "server_sys_step X G conv S e S'" "ss_deaf S c"
  shows "ss_deaf S' c"
proof -
  have "m_chans (ss_mem S') c \<noteq> None"
    using server_sys_step_inv [OF assms(1,2)] assms(3)
    by (cases e) (auto simp: ss_deaf_def chan_send_Some chan_recv_Some)
  moreover from assms(2) have "deaf (sy_procs S') c"
  proof cases
    case (accept s' E h)
    obtain c' where c': "writer_chans (spawned (news_sx (sy_state S) s')) = [c']" "m_chans (ss_mem S) c' = None"
      using accept_ch_spawned(2) [OF server_sys_inv_state [OF assms(1)] accept(3)] by blast
    have "Writer_proc u a c pc \<notin> set (spawned (news_sx (sy_state S) s'))" for u a pc
      using in_writer_chans [of u a c pc "spawned (news_sx (sy_state S) s')"] c' assms(3) by (auto simp: ss_deaf_def)
    then show ?thesis using assms(3) accept(2) by (auto simp: ss_deaf_def deaf_def)
  qed (use assms(3) in \<open>auto simp: ss_deaf_def proceed_def is_proc_def intro!: deaf_update dest: deaf_update_writer\<close>)
  ultimately show ?thesis by (simp add: ss_deaf_def)
qed

lemma server_sys_step_waits:
  assumes "server_sys_step X G conv S e S'" "sys_waits S i c"
  shows "sys_waits S' i c \<or> put_on c e \<noteq> []"
  using assms(1)
  by cases (use assms(2) in \<open>auto simp: sys_waits_def waits_on_def proceed_def is_proc_def nth_append nth_list_update\<close>)

lemma server_sys_take:
  assumes "server_sys_step X G conv S (Take c p) S'"
  shows "\<not> ss_deaf S c"
  using assms by cases (auto simp: ss_deaf_def deaf_def is_proc_def in_set_conv_nth; fastforce)

interpretation spipe: piped_system "server_sys_step X G conv" ss_mem "server_sys_inv conv" ss_deaf sys_waits for X G conv
  by unfold_locales
     (blast dest: server_sys_step_inv server_sys_step_deaf server_sys_step_waits server_sys_take)+

end
