(* ===== verification/Channel_Client.thy ===== *)
theory Channel_Client
  imports Channel_Common
begin

text \<open>
  The client of \<^verbatim>\<open>t/main_withchannels.go\<close>. Its links (\<^verbatim>\<open>server_kcp\<close>) are heap objects, a \<^verbatim>\<open>*serverType\<close> is named by its
  key in \<^verbatim>\<open>g_server_list\<close>. There are no locks; a goroutine is cut where it waits, and what is between two such points
  is one step. The texts that \<^verbatim>\<open>printServerList\<close> puts into the log are left out.
\<close>

section \<open>State\<close>

record server_kcp =
  sk_convid :: u32
  sk_kcp :: "handle option"
  sk_udp_conn :: "handle option"
  sk_writer_channel :: "mem_addr option"
  sk_ifname :: string
  sk_rxloss :: u32
  sk_txloss :: u32
  sk_txcounter :: u64
  sk_rxcounter :: u64
  sk_priority :: u32
  sk_bandwidth :: u32
  sk_last_hello :: "int option"
  sk_alive :: bool
  sk_src_address :: string

record serverType_ch =
  st_server_kcps :: "addr gomap option"
  st_iface :: "iface option"
  st_base_convid :: u32
  st_last_convid :: u32
  st_ifname :: string
  st_tun_ip :: string
  st_reorder_buffer :: "packetType list option"

record client_ch =
  g_server_list_ch :: "u32 \<rightharpoonup> serverType_ch"
  cc_heap :: "addr \<rightharpoonup> server_kcp"
  cc_next :: addr
  cc_mem :: memory
  cc_out :: "effect_ch list"

definition init_client_ch :: client_ch where
  "init_client_ch = \<lparr>g_server_list_ch = Map.empty, cc_heap = Map.empty, cc_next = 0, cc_mem = init_memory, cc_out = []\<rparr>"

definition new_serverType_ch :: serverType_ch where
  "new_serverType_ch = \<lparr>st_server_kcps = None, st_iface = None, st_base_convid = 0, st_last_convid = 0,
     st_ifname = '''', st_tun_ip = '''', st_reorder_buffer = None\<rparr>"

definition st_kcps :: "serverType_ch \<Rightarrow> addr gomap" where
  "st_kcps sv = (case st_server_kcps sv of None \<Rightarrow> [] | Some m \<Rightarrow> m)"

definition kcp_tbl :: "u32 \<Rightarrow> client_ch \<Rightarrow> u32 \<rightharpoonup> addr" where
  "kcp_tbl t s = (case g_server_list_ch s t of None \<Rightarrow> Map.empty | Some sv \<Rightarrow> map_of (st_kcps sv))"

definition upd_st :: "u32 \<Rightarrow> (serverType_ch \<Rightarrow> serverType_ch) \<Rightarrow> client_ch \<Rightarrow> client_ch" where
  "upd_st t f s = s\<lparr>g_server_list_ch := (g_server_list_ch s)(t := map_option f (g_server_list_ch s t))\<rparr>"

definition upd_kcp :: "addr \<Rightarrow> (server_kcp \<Rightarrow> server_kcp) \<Rightarrow> client_ch \<Rightarrow> client_ch" where
  "upd_kcp a f s = s\<lparr>cc_heap := (cc_heap s)(a := map_option f (cc_heap s a))\<rparr>"

definition emit_ch :: "effect_ch list \<Rightarrow> client_ch \<Rightarrow> client_ch" where
  "emit_ch es s = s\<lparr>cc_out := cc_out s @ es\<rparr>"

section \<open>Joining the bond\<close>

definition client_connection_by_src_exists :: "string \<Rightarrow> serverType_ch \<Rightarrow> client_ch \<Rightarrow> bool" where
  "client_connection_by_src_exists src sv s =
     list_ex (\<lambda>(k, a). map_option sk_src_address (cc_heap s a) = Some src) (st_kcps sv)"

record connect_env_ch =
  cx_tun :: "go_error + iface"
  cx_dial :: dial_ch

text \<open>
  An error of \<^verbatim>\<open>createTun\<close> is logged and the nil interface is stored; the flag says whether the reader of the device is to
  be started.
\<close>

definition client_ensure_tun_ch :: "globals_ch \<Rightarrow> connect_env_ch \<Rightarrow> u32 \<Rightarrow> serverType_ch \<Rightarrow> client_ch \<Rightarrow> client_ch \<times> bool" where
  "client_ensure_tun_ch G E t sv s =
     (if st_iface sv \<noteq> None then (s, False)
      else let (i, eff) = createTun_ch (g_client_tun_ip_ch G) t (cx_tun E)
      in (upd_st t (\<lambda>sv. sv\<lparr>st_iface := i, st_tun_ip := g_client_tun_ip_ch G,
                              st_ifname := ''tun'' @ dec_u32 t, st_base_convid := t\<rparr>)
            (emit_ch (map Eff eff) s), True))"

definition client_ensure_map_ch :: "serverType_ch \<Rightarrow> serverType_ch" where
  "client_ensure_map_ch sv = (if st_server_kcps sv = None then sv\<lparr>st_server_kcps := Some []\<rparr> else sv)"

definition new_server_kcp :: "u32 \<Rightarrow> handle \<Rightarrow> handle \<Rightarrow> mem_addr \<Rightarrow> string \<Rightarrow> string \<Rightarrow> server_kcp" where
  "new_server_kcp avail h udp_conn c src ifname = \<lparr>
     sk_convid = avail, sk_kcp = Some h, sk_udp_conn = Some udp_conn, sk_writer_channel = Some c,
     sk_ifname = ifname, sk_rxloss = 0, sk_txloss = 0, sk_txcounter = 1, sk_rxcounter = 1,
     sk_priority = 0, sk_bandwidth = 10, sk_last_hello = None, sk_alive = True, sk_src_address = src\<rparr>"

definition hello_ch :: "u8 list" where
  "hello_ch = [0, 0]"

text \<open>
  The link is entered, its channel made and its goroutines started. A nil session panics at \<^verbatim>\<open>SetReadBuffer\<close>.
\<close>

definition client_enter_ch ::
  "globals_ch \<Rightarrow> u32 \<Rightarrow> string \<Rightarrow> string \<Rightarrow> u32 \<Rightarrow> handle option \<Rightarrow> handle \<Rightarrow> bool \<Rightarrow> client_ch \<Rightarrow> client_ch outcome"
where
  "client_enter_ch G t src ifname avail kcp udp_conn spawn_tun s =
     obind (of_option ''nil pointer dereference'' kcp) (\<lambda>h.
       let a = cc_next s;
           (c, m) = chan_make 100 (cc_mem s);
           s1 = s\<lparr>cc_heap := (cc_heap s)(a \<mapsto> new_server_kcp avail h udp_conn c src ifname), cc_next := Suc a, cc_mem := m\<rparr>;
           s2 = upd_st t (\<lambda>sv. sv\<lparr>st_server_kcps := Some (gm_put avail a (st_kcps sv))\<rparr>) s1
       in Ret (emit_ch ([Go (Go_client_kcp_writer_ch t a c), SetBuffers h (g_buffer_size_ch G)] @
                map Eff (setClientConnOptions_ch h @ [KcpWriteDeadline h 10, KcpWrite h hello_ch]) @
                [Go (Go_client_handle_kcp_ch t a)] @
                (if spawn_tun then [Go (Go_client_handle_tun_ch t)] else [])) s2))"

text \<open>The tunnel, its tun device and its map are seen to first, even if no link will be entered.\<close>

definition client_prepare_ch :: "globals_ch \<Rightarrow> connect_env_ch \<Rightarrow> u32 \<Rightarrow> client_ch \<Rightarrow> client_ch \<times> bool" where
  "client_prepare_ch G E tunnelid s =
     (let sv = (case g_server_list_ch s tunnelid of None \<Rightarrow> new_serverType_ch | Some sv \<Rightarrow> sv);
          s0 = s\<lparr>g_server_list_ch := (g_server_list_ch s)(tunnelid \<mapsto> sv)\<rparr>;
          (s1, spawn_tun) = client_ensure_tun_ch G E tunnelid sv s0
      in (upd_st tunnelid client_ensure_map_ch s1, spawn_tun))"

definition client_connect_server_ch ::
  "'r ext \<Rightarrow> globals_ch \<Rightarrow> connect_env_ch \<Rightarrow> u32 \<Rightarrow> string \<Rightarrow> string \<Rightarrow> client_ch \<Rightarrow> client_ch outcome"
where
  "client_connect_server_ch X G E tunnelid src ifname s =
     (let (s2, spawn_tun) = client_prepare_ch G E tunnelid s
      in obind (of_option ''nil pointer dereference'' (g_server_list_ch s2 tunnelid)) (\<lambda>sv2.
           if client_connection_by_src_exists src sv2 s2 then Ret s2
           else case find_avail (\<lambda>k. kcp_tbl tunnelid s2 k \<noteq> None) (tunnelid + 10) tunnelid of
             None \<Rightarrow> Diverge
           | Some avail \<Rightarrow>
               if avail = tunnelid + 10 then Ret s2
               else case create_udp_conn X G (cx_dial E) avail src of
                 Inl e \<Rightarrow> Panic ''kcp conn create error:''
               | Inr (kcp, udp_conn, eff) \<Rightarrow>
                   client_enter_ch G tunnelid src ifname avail kcp udp_conn spawn_tun
                     (emit_ch (map Eff eff) (upd_st tunnelid (\<lambda>sv. sv\<lparr>st_last_convid := 0\<rparr>) s2))))"

section \<open>Leaving the bond\<close>

definition client_disconnect_body_ch ::
  "bool \<Rightarrow> u32 \<Rightarrow> (server_kcp \<Rightarrow> bool) \<Rightarrow> u32 \<Rightarrow> addr \<Rightarrow> client_ch \<Rightarrow> client_ch outcome"
where
  "client_disconnect_body_ch restart t P convid a s =
     obind (of_option ''nil pointer dereference'' (cc_heap s a)) (\<lambda>c.
       if P c then
         obind (of_option ''nil pointer dereference'' (sk_kcp c)) (\<lambda>h.
         obind (of_option ''nil pointer dereference'' (sk_udp_conn c)) (\<lambda>u.
           Ret (upd_st t (\<lambda>sv. sv\<lparr>st_last_convid := (if restart then 0 else st_last_convid sv),
                                    st_server_kcps := map_option (gm_del convid) (st_server_kcps sv)\<rparr>)
                 (emit_ch [Eff (KcpClose h), Eff (UdpClose u)] s))))
       else Ret s)"

definition client_disconnect_where_ch ::
  "bool \<Rightarrow> answers \<Rightarrow> u32 \<Rightarrow> (server_kcp \<Rightarrow> bool) \<Rightarrow> client_ch \<Rightarrow> client_ch outcome"
where
  "client_disconnect_where_ch restart orc t P s =
     for_range (kcp_tbl t) (client_disconnect_body_ch restart t P) (a_order (orc [])) s"

definition client_disconnect_session_by_ifname_ch :: "answers \<Rightarrow> u32 \<Rightarrow> string \<Rightarrow> client_ch \<Rightarrow> client_ch outcome" where
  "client_disconnect_session_by_ifname_ch orc tunnelid ifname s =
     (case g_server_list_ch s tunnelid of
        None \<Rightarrow> Ret s
      | Some sv \<Rightarrow> client_disconnect_where_ch True orc tunnelid (\<lambda>c. sk_ifname c = ifname) s)"

text \<open>These two log a missing tunnel and go on with the nil pointer; the second does not restart the round robin.\<close>

definition client_disconnect_session_by_src_ch :: "answers \<Rightarrow> u32 \<Rightarrow> string \<Rightarrow> client_ch \<Rightarrow> client_ch outcome" where
  "client_disconnect_session_by_src_ch orc tunnelid src s =
     (case g_server_list_ch s tunnelid of
        None \<Rightarrow> Panic ''nil pointer dereference''
      | Some sv \<Rightarrow> client_disconnect_where_ch True orc tunnelid (\<lambda>c. sk_src_address c = src) s)"

definition client_disconnect_session_by_convid_ch :: "answers \<Rightarrow> u32 \<Rightarrow> u32 \<Rightarrow> client_ch \<Rightarrow> client_ch outcome" where
  "client_disconnect_session_by_convid_ch orc tunnelid disc_convid s =
     (case g_server_list_ch s tunnelid of
        None \<Rightarrow> Panic ''nil pointer dereference''
      | Some sv \<Rightarrow> client_disconnect_where_ch False orc tunnelid (\<lambda>c. sk_convid c = disc_convid) s)"

section \<open>The reader of a link\<close>

text \<open>\<open>kcpstate\<close> is the answer of \<^verbatim>\<open>GetState\<close>.\<close>

definition client_handle_kcp_begin_ch ::
  "(handle \<Rightarrow> u32) \<Rightarrow> answers \<Rightarrow> u32 \<Rightarrow> addr \<Rightarrow> u32 \<Rightarrow> client_ch \<Rightarrow> (flow \<times> client_ch) outcome"
where
  "client_handle_kcp_begin_ch conv orc t a kcpstate s =
     obind (of_option ''nil pointer dereference'' (cc_heap s a)) (\<lambda>c.
     obind (of_option ''nil pointer dereference'' (sk_kcp c)) (\<lambda>h.
     obind (of_option ''nil pointer dereference'' (g_server_list_ch s t)) (\<lambda>sv.
       if kcp_dead kcpstate then
         obind (client_disconnect_session_by_convid_ch orc (st_base_convid sv) (conv h) s) (\<lambda>s'. Ret (Ends, s'))
       else Ret (Goes_on, s))))"

definition client_handle_kcp_read_ch ::
  "'r ext \<Rightarrow> globals_ch \<Rightarrow> (handle \<Rightarrow> u32) \<Rightarrow> answers \<Rightarrow> u32 \<Rightarrow> addr \<Rightarrow> go_error + u8 list \<Rightarrow> client_ch \<Rightarrow> (flow \<times> client_ch) outcome"
where
  "client_handle_kcp_read_ch X G conv orc t a result s =
     obind (of_option ''nil pointer dereference'' (cc_heap s a)) (\<lambda>c.
     obind (of_option ''nil pointer dereference'' (sk_kcp c)) (\<lambda>h.
     obind (of_option ''nil pointer dereference'' (g_server_list_ch s t)) (\<lambda>sv.
       case result of
         Inl e \<Rightarrow>
           obind (client_disconnect_session_by_convid_ch orc (st_base_convid sv) (conv h) s) (\<lambda>s'. Ret (Ends, s'))
       | Inr m \<Rightarrow>
           (let s1 = upd_kcp a (\<lambda>c. c\<lparr>sk_rxcounter := sk_rxcounter c + 1\<rparr>) s;
                s2 = (case st_iface sv of None \<Rightarrow> s1 | Some i \<Rightarrow> emit_ch [Eff (TunWrite i m)] s1)
            in Ret (Goes_on, if g_trace_ch G then emit_ch [Trace (WritePacket X m)] s2 else s2)))))"

section \<open>Pings\<close>

text \<open>\<^verbatim>\<open>client_ping_server\<close> waits for each ping; it runs here without the others.\<close>

definition client_ping_body_ch :: "u32 \<Rightarrow> u32 \<Rightarrow> addr \<Rightarrow> client_ch \<Rightarrow> client_ch outcome" where
  "client_ping_body_ch t convid a s =
     obind (of_option ''nil pointer dereference'' (g_server_list_ch s t)) (\<lambda>sv. Ret (emit_ch [Ping (st_tun_ip sv) 2] s))"

definition client_ping_server :: "answers \<Rightarrow> u32 \<Rightarrow> client_ch \<Rightarrow> client_ch outcome" where
  "client_ping_server orc t s = for_range (kcp_tbl t) (client_ping_body_ch t) (a_order (orc [])) s"

definition client_hello_body_ch :: "u32 \<Rightarrow> addr \<Rightarrow> client_ch \<Rightarrow> client_ch outcome" where
  "client_hello_body_ch convid a s =
     obind (of_option ''nil pointer dereference'' (cc_heap s a)) (\<lambda>c.
       Ret (case sk_kcp c of
              None \<Rightarrow> s
            | Some h \<Rightarrow> emit_ch [Eff (KcpWriteDeadline h 10), Eff (KcpWrite h hello_ch)] s))"

definition client_send_server_pings_ch :: "answers \<Rightarrow> client_ch \<Rightarrow> client_ch outcome" where
  "client_send_server_pings_ch orc s =
     for_range g_server_list_ch
       (\<lambda>t sv s. for_range (kcp_tbl t) client_hello_body_ch (a_order (orc [t])) (emit_ch [Go (Go_client_ping_server t)] s))
       (a_order (orc [])) s"

section \<open>The reader of the tun device\<close>

definition alive_map_ch :: "serverType_ch \<Rightarrow> client_ch \<Rightarrow> u32 \<rightharpoonup> bool" where
  "alive_map_ch sv s = (\<lambda>k. Option.bind (map_of (st_kcps sv) k) (\<lambda>a. map_option sk_alive (cc_heap s a)))"

definition client_choose_kcp_conn_ch :: "answers \<Rightarrow> u32 \<Rightarrow> client_ch \<Rightarrow> (u32 \<times> client_ch) outcome" where
  "client_choose_kcp_conn_ch orc t s =
     obind (of_option ''nil pointer dereference'' (g_server_list_ch s t)) (\<lambda>sv.
       let c = rr_pick (alive_map_ch sv s) (st_last_convid sv) (a_order (orc [])) 0
       in Ret (c, upd_st t (\<lambda>sv. sv\<lparr>st_last_convid := c\<rparr>) s))"

text \<open>One pass from the label \<^verbatim>\<open>tryagain\<close>: a link is chosen, the packet is dropped, or a dead link has been removed.\<close>

datatype attempt = Chosen addr | Dropped | Try_again

definition client_tun_choose ::
  "(handle \<Rightarrow> u32) \<Rightarrow> u32 \<Rightarrow> answers \<Rightarrow> u32 \<Rightarrow> client_ch \<Rightarrow> (attempt \<times> client_ch) outcome"
where
  "client_tun_choose conv kcpstate orc t s =
     obind (client_choose_kcp_conn_ch orc t s) (\<lambda>(chose_convid, s1).
     obind (of_option ''nil pointer dereference'' (g_server_list_ch s1 t)) (\<lambda>sv.
       case map_of (st_kcps sv) chose_convid of
         None \<Rightarrow> Ret (Dropped, s1)
       | Some a \<Rightarrow>
           obind (of_option ''nil pointer dereference'' (cc_heap s1 a)) (\<lambda>c.
             case sk_kcp c of
               None \<Rightarrow> Ret (Dropped, s1)
             | Some h \<Rightarrow>
                 if kcp_dead kcpstate then
                   obind (client_disconnect_session_by_convid_ch (sub_oracle 0 orc) (st_base_convid sv) (conv h) s1)
                     (\<lambda>s2. Ret (Try_again, s2))
                 else Ret (Chosen a, s1))))"

text \<open>The loop that \<^verbatim>\<open>goto tryagain\<close> makes; \<open>st i\<close> is the state of the link chosen in pass \<open>i\<close>. \<open>None\<close>: it does not end.\<close>

partial_function (option) client_tun_try ::
  "(handle \<Rightarrow> u32) \<Rightarrow> (nat \<Rightarrow> u32) \<Rightarrow> answers \<Rightarrow> u32 \<Rightarrow> client_ch \<Rightarrow> (addr option \<times> client_ch) outcome option"
where
  "client_tun_try conv st orc t s =
     (case client_tun_choose conv (st 0) orc t s of
        Ret r \<Rightarrow>
          (case fst r of
             Try_again \<Rightarrow> client_tun_try conv (\<lambda>i. st (Suc i)) (sub_oracle 1 orc) t (snd r)
           | Dropped \<Rightarrow> Some (Ret (None, snd r))
           | Chosen a \<Rightarrow> Some (Ret (Some a, snd r)))
      | Panic m \<Rightarrow> Some (Panic m)
      | Exit n \<Rightarrow> Some (Exit n)
      | Diverge \<Rightarrow> Some Diverge)"

declare client_tun_try.simps [code]

definition client_handle_tun_start_ch :: "u32 \<Rightarrow> client_ch \<Rightarrow> (tun_pc \<times> client_ch) outcome" where
  "client_handle_tun_start_ch t s =
     (let (b, m) = buf_make 1500 (cc_mem s); s1 = s\<lparr>cc_mem := m\<rparr>
      in obind (of_option ''nil pointer dereference'' (g_server_list_ch s1 t)) (\<lambda>sv.
           Ret (if st_iface sv = None then Tun_ended else Tun_loop b, s1)))"

text \<open>The device has answered; the packet is in the goroutine's one buffer.\<close>

definition client_handle_tun_read_ch ::
  "(handle \<Rightarrow> u32) \<Rightarrow> (nat \<Rightarrow> u32) \<Rightarrow> answers \<Rightarrow> u32 \<Rightarrow> mem_addr \<Rightarrow> go_error + u8 list \<Rightarrow> client_ch \<Rightarrow> (tun_pc \<times> client_ch) outcome"
where
  "client_handle_tun_read_ch conv st orc t b result s =
     (case result of
        Inl e \<Rightarrow> Ret (Tun_ended, s)
      | Inr data \<Rightarrow>
          (let mypacket = \<lparr>pt_sequence = 0, pt_len = int (length data), pt_buff = b\<rparr>;
               s1 = s\<lparr>cc_mem := buf_read b data (cc_mem s)\<rparr>
           in obind (case client_tun_try conv st orc t s1 of None \<Rightarrow> Diverge | Some r \<Rightarrow> r) (\<lambda>(chosen, s2).
                case chosen of
                  None \<Rightarrow> Ret (Tun_loop b, s2)
                | Some a \<Rightarrow>
                    obind (of_option ''nil pointer dereference'' (cc_heap s2 a)) (\<lambda>c.
                      Ret (Tun_sending (sk_writer_channel c) mypacket, s2)))))"

text \<open>\<^verbatim>\<open>writer_channel <- mypacket\<close>; \<open>None\<close>: the goroutine waits. A send on a nil channel waits for ever.\<close>

definition tun_send_ch :: "mem_addr option \<Rightarrow> packetType \<Rightarrow> memory \<Rightarrow> memory option" where
  "tun_send_ch c p m = (case c of None \<Rightarrow> None | Some c' \<Rightarrow> chan_send c' p m)"

section \<open>The writer of a link\<close>

text \<open>A packet has been received; its bytes are what the buffer holds now.\<close>

definition client_kcp_writer_write ::
  "'r ext \<Rightarrow> globals_ch \<Rightarrow> answers \<Rightarrow> u32 \<Rightarrow> addr \<Rightarrow> packetType \<Rightarrow> client_ch \<Rightarrow> (flow \<times> client_ch) outcome"
where
  "client_kcp_writer_write X G orc t a pkt s =
     obind (of_option ''nil pointer dereference'' (cc_heap s a)) (\<lambda>c.
     obind (of_option ''nil pointer dereference'' (sk_kcp c)) (\<lambda>h.
     obind (of_option ''nil pointer dereference'' (g_server_list_ch s t)) (\<lambda>sv.
     obind (buf_slice (pt_buff pkt) (pt_len pkt) (cc_mem s)) (\<lambda>data.
       let s1 = emit_ch [Eff (KcpWriteDeadline h 10), Eff (KcpWrite h data)] s
       in if a_write (orc []) \<noteq> None then
            obind (client_disconnect_session_by_convid_ch (sub_oracle 0 orc) (st_base_convid sv) (sk_convid c) s1)
              (\<lambda>s'. Ret (Ends, s'))
          else let s2 = upd_kcp a (\<lambda>c. c\<lparr>sk_txcounter := sk_txcounter c + 1\<rparr>) s1
          in if g_trace_ch G then
               obind (case st_iface sv of None \<Rightarrow> nil_iface_Name X | Some i \<Rightarrow> Ret i) (\<lambda>_.
                 Ret (Goes_on, emit_ch [Trace (WritePacket X data)] s2))
             else Ret (Goes_on, s2)))))"

section \<open>The main loop\<close>

definition run_client_start_ch :: "globals_ch \<Rightarrow> client_ch \<Rightarrow> globals_ch \<times> client_ch" where
  "run_client_start_ch G s =
     (let t = g_client_tunnelid_ch G div 10 * 10
      in (G\<lparr>g_client_tunnelid_ch := t\<rparr>,
          emit_ch [Eff (RunThing [''ip'', ''-br'', ''address'']), Go (Go_netlink_subscribe_ifaces_ch t),
                   Go (Go_netlink_subscribe_routes_ch t)] s))"

text \<open>One round; \<open>get_routes\<close> stands for \<^verbatim>\<open>netlink_get_routes\<close>, which calls back into the variant.\<close>

definition client_tick_ch ::
  "globals_ch \<Rightarrow> (u32 \<Rightarrow> client_ch \<Rightarrow> client_ch outcome) \<Rightarrow> answers \<Rightarrow> int \<Rightarrow> client_ch \<Rightarrow> (int \<times> client_ch) outcome"
where
  "client_tick_ch G get_routes orc loopcount0 s =
     (let loopcount = loopcount0 + 1
      in if loopcount mod 500 = 0 then
           obind (client_send_server_pings_ch orc s) (\<lambda>s1.
           obind (get_routes (g_client_tunnelid_ch G) s1) (\<lambda>s2. Ret (1, s2)))
         else Ret (loopcount, s))"

end
