(* ===== verification/Channel_Client_Bond.thy ===== *)
theory Channel_Client_Bond
  imports Channel_Client
begin

text \<open>
  The operations of the variant's client keep its state well formed, do not panic on a tunnel that exists, and the loop behind
  \<^verbatim>\<open>tryagain\<close> ends.
\<close>

section \<open>Well-formed states\<close>

definition kcp_ok :: "(handle \<Rightarrow> u32) \<Rightarrow> memory \<Rightarrow> server_kcp \<Rightarrow> bool" where
  "kcp_ok conv m c \<longleftrightarrow> sk_alive c \<and> sk_udp_conn c \<noteq> None \<and> map_option conv (sk_kcp c) = Some (sk_convid c) \<and>
     (\<exists>ch. sk_writer_channel c = Some ch \<and> is_chan 100 ch m)"

definition tun_ok :: "client_ch \<Rightarrow> u32 \<Rightarrow> serverType_ch \<Rightarrow> bool" where
  "tun_ok s t sv \<longleftrightarrow> st_base_convid sv = t \<and> unat t + 11 < 2 ^ 32 \<and> gm_ok (st_kcps sv) \<and>
     (\<forall>k a. map_of (st_kcps sv) k = Some a \<longrightarrow>
        t \<le> k \<and> unat k < unat t + 10 \<and> map_option sk_convid (cc_heap s a) = Some k)"

definition client_ch_inv :: "(handle \<Rightarrow> u32) \<Rightarrow> client_ch \<Rightarrow> bool" where
  "client_ch_inv conv s \<longleftrightarrow>
     (\<forall>t sv. g_server_list_ch s t = Some sv \<longrightarrow> tun_ok s t sv) \<and>
     (\<forall>a c. cc_heap s a = Some c \<longrightarrow> a < cc_next s \<and> kcp_ok conv (cc_mem s) c) \<and>
     mem_inv (cc_mem s)"

lemma upd_st_fields [simp]:
  "g_server_list_ch (upd_st t f s) = (g_server_list_ch s)(t := map_option f (g_server_list_ch s t))"
  "cc_heap (upd_st t f s) = cc_heap s"
  "cc_next (upd_st t f s) = cc_next s"
  "cc_mem (upd_st t f s) = cc_mem s"
  "cc_out (upd_st t f s) = cc_out s"
  by (simp_all add: upd_st_def)

lemma upd_kcp_fields [simp]:
  "g_server_list_ch (upd_kcp a f s) = g_server_list_ch s"
  "cc_heap (upd_kcp a f s) = (cc_heap s)(a := map_option f (cc_heap s a))"
  "cc_next (upd_kcp a f s) = cc_next s"
  "cc_mem (upd_kcp a f s) = cc_mem s"
  "cc_out (upd_kcp a f s) = cc_out s"
  by (simp_all add: upd_kcp_def)

lemma emit_ch_fields [simp]:
  "g_server_list_ch (emit_ch es s) = g_server_list_ch s"
  "cc_heap (emit_ch es s) = cc_heap s"
  "cc_next (emit_ch es s) = cc_next s"
  "cc_mem (emit_ch es s) = cc_mem s"
  "cc_out (emit_ch es s) = cc_out s @ es"
  by (simp_all add: emit_ch_def)

lemma kcp_tbl_Some: "g_server_list_ch s t = Some sv \<Longrightarrow> kcp_tbl t s = map_of (st_kcps sv)"
  by (simp add: kcp_tbl_def)

lemma kcp_tbl_server: "kcp_tbl t s k = Some a \<Longrightarrow> \<exists>sv. g_server_list_ch s t = Some sv"
  by (cases "g_server_list_ch s t") (simp_all add: kcp_tbl_def)

lemma client_ch_inv_init: "client_ch_inv conv init_client_ch"
  by (simp add: client_ch_inv_def init_client_ch_def mem_inv_def mem_ok_def init_memory_def queue_of_def)

lemma client_ch_inv_tun: "client_ch_inv conv s \<Longrightarrow> g_server_list_ch s t = Some sv \<Longrightarrow> tun_ok s t sv"
  by (simp add: client_ch_inv_def)

lemma client_ch_inv_base: "client_ch_inv conv s \<Longrightarrow> g_server_list_ch s t = Some sv \<Longrightarrow> st_base_convid sv = t"
  by (simp add: client_ch_inv_def tun_ok_def)

lemma client_ch_inv_memory: "client_ch_inv conv s \<Longrightarrow> mem_inv (cc_mem s)"
  by (simp add: client_ch_inv_def)

lemma client_ch_inv_heap:
  assumes "client_ch_inv conv s" "cc_heap s a = Some c"
  obtains h u ch where "sk_kcp c = Some h" "conv h = sk_convid c" "sk_udp_conn c = Some u" "sk_alive c"
    "sk_writer_channel c = Some ch" "is_chan 100 ch (cc_mem s)" "a < cc_next s"
proof -
  have "a < cc_next s" "kcp_ok conv (cc_mem s) c" using assms by (simp_all add: client_ch_inv_def)
  with that show thesis by (auto simp: kcp_ok_def)
qed

lemma client_ch_inv_entry:
  assumes "client_ch_inv conv s" "kcp_tbl t s k = Some a"
  obtains c where "cc_heap s a = Some c" "sk_convid c = k" "t \<le> k" "unat k < unat t + 10"
proof -
  obtain sv where sv: "g_server_list_ch s t = Some sv" using kcp_tbl_server [OF assms(2)] by blast
  with assms client_ch_inv_tun [OF assms(1) sv] that show thesis
    by (auto simp: tun_ok_def kcp_tbl_Some)
qed

lemma client_ch_inv_emit [simp, intro]: "client_ch_inv conv s \<Longrightarrow> client_ch_inv conv (emit_ch es s)"
  by (simp add: client_ch_inv_def tun_ok_def)

lemma client_ch_inv_upd_kcp:
  assumes "client_ch_inv conv s" "\<And>c. sk_convid (f c) = sk_convid c" "\<And>c. kcp_ok conv (cc_mem s) c \<Longrightarrow> kcp_ok conv (cc_mem s) (f c)"
  shows "client_ch_inv conv (upd_kcp a f s)"
proof -
  have "map_option sk_convid (((cc_heap s)(a := map_option f (cc_heap s a))) b) = map_option sk_convid (cc_heap s b)" for b
    using assms(2) by (simp add: option.map_comp o_def)
  then have "tun_ok (upd_kcp a f s) t sv = tun_ok s t sv" for t sv by (simp add: tun_ok_def)
  with assms(1,3) show ?thesis by (auto simp: client_ch_inv_def)
qed

lemma client_ch_inv_upd_st:
  assumes "client_ch_inv conv s" "\<And>sv. g_server_list_ch s t = Some sv \<Longrightarrow> tun_ok s t sv \<Longrightarrow> tun_ok s t (f sv)"
  shows "client_ch_inv conv (upd_st t f s)"
proof -
  have "tun_ok (upd_st t f s) = tun_ok s" by (intro ext) (simp add: tun_ok_def)
  with assms show ?thesis by (auto simp: client_ch_inv_def)
qed

section \<open>What an operation on a tunnel leaves alone\<close>

definition same_tun :: "serverType_ch \<Rightarrow> serverType_ch \<Rightarrow> bool" where
  "same_tun sv sv' \<longleftrightarrow> st_iface sv' = st_iface sv \<and> st_base_convid sv' = st_base_convid sv \<and> st_tun_ip sv' = st_tun_ip sv"

definition frame_ch :: "u32 \<Rightarrow> client_ch \<Rightarrow> client_ch \<Rightarrow> bool" where
  "frame_ch t s s' \<longleftrightarrow> cc_heap s' = cc_heap s \<and> cc_next s' = cc_next s \<and> cc_mem s' = cc_mem s \<and>
     (\<forall>t'. t' \<noteq> t \<longrightarrow> g_server_list_ch s' t' = g_server_list_ch s t') \<and>
     rel_option same_tun (g_server_list_ch s t) (g_server_list_ch s' t) \<and>
     (\<exists>es. cc_out s' = cc_out s @ es \<and> list_all is_close es)"

lemma same_tun_refl [simp]: "same_tun sv sv"
  by (simp add: same_tun_def)

lemma frame_ch_refl [simp]: "frame_ch t s s"
  by (auto simp: frame_ch_def intro: option.rel_refl)

lemma frame_ch_trans:
  assumes "frame_ch t s s'" "frame_ch t s' s''"
  shows "frame_ch t s s''"
proof -
  have "rel_option same_tun (g_server_list_ch s t) (g_server_list_ch s'' t)"
    using assms by (cases "g_server_list_ch s t"; cases "g_server_list_ch s' t"; cases "g_server_list_ch s'' t")
      (auto simp: frame_ch_def same_tun_def)
  with assms show ?thesis by (auto simp: frame_ch_def)
qed

lemma frame_ch_Some:
  assumes "frame_ch t s s'" "g_server_list_ch s t = Some sv"
  obtains sv' where "g_server_list_ch s' t = Some sv'" "same_tun sv sv'"
  using assms by (cases "g_server_list_ch s' t") (auto simp: frame_ch_def)

section \<open>Disconnecting\<close>

definition picked :: "(server_kcp \<Rightarrow> bool) \<Rightarrow> client_ch \<Rightarrow> u32 \<Rightarrow> addr \<Rightarrow> bool" where
  "picked P s k a \<longleftrightarrow> (case cc_heap s a of None \<Rightarrow> False | Some c \<Rightarrow> P c)"

lemma disconnect_body_ch_cases:
  assumes "client_ch_inv conv s" "kcp_tbl t s k = Some a"
  obtains (keep) "\<not> picked P s k a" "client_disconnect_body_ch restart t P k a s = Ret s"
    | (close) h u where "picked P s k a" "client_disconnect_body_ch restart t P k a s =
        Ret (upd_st t (\<lambda>sv. sv\<lparr>st_last_convid := (if restart then 0 else st_last_convid sv),
               st_server_kcps := map_option (gm_del k) (st_server_kcps sv)\<rparr>)
             (emit_ch [Eff (KcpClose h), Eff (UdpClose u)] s))"
proof -
  obtain c where c: "cc_heap s a = Some c" using client_ch_inv_entry [OF assms] by blast
  obtain h u where "sk_kcp c = Some h" "sk_udp_conn c = Some u" using client_ch_inv_heap [OF assms(1) c] by blast
  with c keep close show thesis by (cases "P c") (auto simp: client_disconnect_body_ch_def picked_def)
qed

lemma st_kcps_del [simp]:
  "st_kcps (sv\<lparr>st_last_convid := l, st_server_kcps := map_option (gm_del k) (st_server_kcps sv)\<rparr>) = gm_del k (st_kcps sv)"
  by (simp add: st_kcps_def gm_del_def split: option.splits)

lemma tun_ok_del:
  "tun_ok s t sv \<Longrightarrow> tun_ok s t (sv\<lparr>st_last_convid := l, st_server_kcps := map_option (gm_del k) (st_server_kcps sv)\<rparr>)"
  by (auto simp: tun_ok_def)

interpretation dc: closing_loop "kcp_tbl t" "picked P" "client_disconnect_body_ch restart t P" "client_ch_inv conv" "frame_ch t"
  for t P restart conv
proof
  fix s s' k a
  assume inv: "client_ch_inv conv s" and a: "kcp_tbl t s k = Some a"
  show "\<exists>s'. client_disconnect_body_ch restart t P k a s = Ret s'"
    using inv a by (cases rule: disconnect_body_ch_cases [of _ _ _ _ _ P restart]) auto
  assume ret: "client_disconnect_body_ch restart t P k a s = Ret s'"
  obtain sv where sv: "g_server_list_ch s t = Some sv" using kcp_tbl_server [OF a] by blast
  show "client_ch_inv conv s'"
    using inv a by (cases rule: disconnect_body_ch_cases [of _ _ _ _ _ P restart])
      (use inv ret in \<open>auto intro!: client_ch_inv_upd_st tun_ok_del\<close>)
  show "frame_ch t s s'"
    using inv a by (cases rule: disconnect_body_ch_cases [of _ _ _ _ _ P restart])
      (use ret sv in \<open>auto simp: frame_ch_def same_tun_def\<close>)
  show "kcp_tbl t s' = (if picked P s k a then (kcp_tbl t s)(k := None) else kcp_tbl t s)"
    using inv a by (cases rule: disconnect_body_ch_cases [of _ _ _ _ _ P restart])
      (use ret sv in \<open>auto simp: kcp_tbl_def\<close>)
  fix k' a'
  show "picked P s' k' a' = picked P s k' a'"
    using inv a by (cases rule: disconnect_body_ch_cases [of _ _ _ _ _ P restart]) (use ret in \<open>auto simp: picked_def\<close>)
qed (auto intro: frame_ch_trans)

lemma disconnect_where_ch:
  assumes "client_ch_inv conv s"
  shows "\<exists>s'. client_disconnect_where_ch restart orc t P s = Ret s' \<and> client_ch_inv conv s' \<and> frame_ch t s s' \<and>
    kcp_tbl t s' = keep_unless (set (a_order (orc []))) (picked P s) (kcp_tbl t s)"
  using dc.loop_closes [OF assms] unfolding client_disconnect_where_ch_def by blast

lemma disconnect_by_convid_ch:
  assumes "client_ch_inv conv s" "g_server_list_ch s t = Some sv"
  shows "\<exists>s'. client_disconnect_session_by_convid_ch orc t d s = Ret s' \<and> client_ch_inv conv s' \<and> frame_ch t s s' \<and>
    kcp_tbl t s' = keep_unless (set (a_order (orc []))) (picked (\<lambda>c. sk_convid c = d) s) (kcp_tbl t s)"
  using disconnect_where_ch [OF assms(1)] assms(2) unfolding client_disconnect_session_by_convid_ch_def by simp

text \<open>With an order that visits all links, exactly the link with that id goes.\<close>

lemma disconnect_by_convid_ch_exact:
  assumes "client_ch_inv conv s" "g_server_list_ch s t = Some sv" "covers orc (dom (kcp_tbl t s))"
  shows "\<exists>s'. client_disconnect_session_by_convid_ch orc t d s = Ret s' \<and> client_ch_inv conv s' \<and> frame_ch t s s' \<and>
    kcp_tbl t s' = (kcp_tbl t s)(d := None)"
proof -
  have "keep_unless (set (a_order (orc []))) (picked (\<lambda>c. sk_convid c = d) s) (kcp_tbl t s) k = ((kcp_tbl t s)(d := None)) k" for k
  proof (cases "kcp_tbl t s k")
    case (Some a)
    then obtain c where "cc_heap s a = Some c" "sk_convid c = k" using client_ch_inv_entry [OF assms(1)] by blast
    moreover have "k \<in> set (a_order (orc []))" using Some covers_order [OF assms(3), of "[]"] by blast
    ultimately show ?thesis using Some by (auto simp: keep_unless_def picked_def)
  qed (simp add: keep_unless_def)
  then show ?thesis using disconnect_by_convid_ch [OF assms(1,2), of orc d] by (auto simp: fun_eq_iff)
qed

section \<open>Choosing a link for a packet\<close>

lemma alive_map_ch_eq:
  assumes "client_ch_inv conv s" "g_server_list_ch s t = Some sv"
  shows "alive_map_ch sv s k = map_option (\<lambda>_. True) (kcp_tbl t s k)"
proof (cases "kcp_tbl t s k")
  case None
  then show ?thesis using assms(2) by (simp add: alive_map_ch_def kcp_tbl_def)
next
  case (Some a)
  then obtain c where c: "cc_heap s a = Some c" using client_ch_inv_entry [OF assms(1)] by blast
  then have "sk_alive c" using client_ch_inv_heap [OF assms(1)] by blast
  with c Some assms(2) show ?thesis by (simp add: alive_map_ch_def kcp_tbl_def)
qed

lemma st_kcps_last [simp]: "st_kcps (sv\<lparr>st_last_convid := k\<rparr>) = st_kcps sv"
  by (simp add: st_kcps_def)

lemma tun_ok_last [simp]: "tun_ok s t (sv\<lparr>st_last_convid := k\<rparr>) = tun_ok s t sv"
  by (simp add: tun_ok_def)

text \<open>The scheduler returns, changes its memory only, and finds a link if there is one; among several, another than the last.\<close>

lemma choose_ch:
  assumes "client_ch_inv conv s" "g_server_list_ch s t = Some sv"
  shows "\<exists>k s'. client_choose_kcp_conn_ch orc t s = Ret (k, s') \<and> client_ch_inv conv s' \<and> frame_ch t s s' \<and>
    kcp_tbl t s' = kcp_tbl t s \<and> cc_out s' = cc_out s \<and>
    (covers orc (dom (kcp_tbl t s)) \<longrightarrow> kcp_tbl t s \<noteq> Map.empty \<longrightarrow> kcp_tbl t s k \<noteq> None) \<and>
    (covers orc (dom (kcp_tbl t s)) \<longrightarrow> (\<exists>j. j \<noteq> st_last_convid sv \<and> kcp_tbl t s j \<noteq> None) \<longrightarrow> k \<noteq> st_last_convid sv)"
proof -
  let ?al = "alive_map_ch sv s" and ?ks = "a_order (orc [])"
  define k where "k = rr_pick ?al (st_last_convid sv) ?ks 0"
  have al: "?al = (\<lambda>j. map_option (\<lambda>_. True) (kcp_tbl t s j))" by (rule ext) (rule alive_map_ch_eq [OF assms])
  have "kcp_tbl t s k \<noteq> None" if "covers orc (dom (kcp_tbl t s))" "kcp_tbl t s \<noteq> Map.empty"
  proof -
    from that(2) obtain j where "kcp_tbl t s j \<noteq> None" by (auto simp: fun_eq_iff)
    then have "\<exists>j \<in> set ?ks. ?al j \<noteq> None" using covers_order [OF that(1), of "[]"] by (auto simp: al intro!: bexI [of _ j])
    from rr_pick_dom [OF this, of "st_last_convid sv" 0] show ?thesis by (simp add: k_def al)
  qed
  moreover have "k \<noteq> st_last_convid sv"
    if "covers orc (dom (kcp_tbl t s))" "j \<noteq> st_last_convid sv" "kcp_tbl t s j \<noteq> None" for j
    using rr_pick_rotates [of j ?ks ?al "st_last_convid sv" 0] covers_order [OF that(1), of "[]"] that(2,3)
    by (auto simp: k_def al)
  moreover have "client_choose_kcp_conn_ch orc t s = Ret (k, upd_st t (\<lambda>sv. sv\<lparr>st_last_convid := k\<rparr>) s)"
    using assms(2) by (simp add: client_choose_kcp_conn_ch_def k_def Let_def)
  moreover have "kcp_tbl t (upd_st t (\<lambda>sv. sv\<lparr>st_last_convid := k\<rparr>) s) = kcp_tbl t s"
    using assms(2) by (simp add: kcp_tbl_def)
  moreover have "frame_ch t s (upd_st t (\<lambda>sv. sv\<lparr>st_last_convid := k\<rparr>) s)"
    using assms(2) by (auto simp: frame_ch_def same_tun_def)
  ultimately show ?thesis using assms(1)
    by (intro exI [of _ k] exI [of _ "upd_st t (\<lambda>sv. sv\<lparr>st_last_convid := k\<rparr>) s"]) (auto intro!: client_ch_inv_upd_st)
qed

lemma frame_ch_inv_entry:
  assumes "client_ch_inv conv s" "kcp_tbl t s k = Some a"
  obtains c h where "cc_heap s a = Some c" "sk_kcp c = Some h" "conv h = k" "sk_convid c = k"
proof -
  obtain c where c: "cc_heap s a = Some c" "sk_convid c = k" using client_ch_inv_entry [OF assms] by blast
  then show thesis using client_ch_inv_heap [OF assms(1) c(1)] that by metis
qed

text \<open>One pass: what was chosen is a link; a dead link has been taken out.\<close>

lemma tun_choose_cases:
  assumes "client_ch_inv conv s" "g_server_list_ch s t = Some sv"
  obtains r s' where "client_tun_choose conv st orc t s = Ret (r, s')" "client_ch_inv conv s'" "frame_ch t s s'"
    "\<And>a. r = Chosen a \<Longrightarrow> \<not> kcp_dead st \<and> (\<exists>k. kcp_tbl t s' k = Some a) \<and> kcp_tbl t s' = kcp_tbl t s \<and> cc_out s' = cc_out s"
    "r = Dropped \<Longrightarrow> covers orc (dom (kcp_tbl t s)) \<Longrightarrow> kcp_tbl t s = Map.empty \<and> kcp_tbl t s' = Map.empty"
    "r = Try_again \<Longrightarrow> covers orc (dom (kcp_tbl t s)) \<Longrightarrow>
       \<exists>k. kcp_tbl t s k \<noteq> None \<and> kcp_dead st \<and> kcp_tbl t s' = (kcp_tbl t s)(k := None)"
proof -
  obtain k s1 where ch: "client_choose_kcp_conn_ch orc t s = Ret (k, s1)" and inv: "client_ch_inv conv s1" and fr: "frame_ch t s s1"
    and tbl: "kcp_tbl t s1 = kcp_tbl t s" and out: "cc_out s1 = cc_out s"
    and cov: "covers orc (dom (kcp_tbl t s)) \<Longrightarrow> kcp_tbl t s \<noteq> Map.empty \<Longrightarrow> kcp_tbl t s k \<noteq> None"
    using choose_ch [OF assms] by metis
  obtain sv1 where sv1: "g_server_list_ch s1 t = Some sv1" using frame_ch_Some [OF fr assms(2)] by blast
  note base = client_ch_inv_base [OF inv sv1]
  show thesis
  proof (cases "kcp_tbl t s k")
    case None
    then have "client_tun_choose conv st orc t s = Ret (Dropped, s1)"
      using ch sv1 tbl by (simp add: client_tun_choose_def kcp_tbl_Some)
    with that [of Dropped s1] inv fr cov None tbl show thesis by auto
  next
    case (Some a)
    then have k: "kcp_tbl t s1 k = Some a" by (simp add: tbl)
    obtain c h where c: "cc_heap s1 a = Some c" "sk_kcp c = Some h" "conv h = k" using frame_ch_inv_entry [OF inv k] by metis
    show thesis
    proof (cases "kcp_dead st")
      case False
      then have "client_tun_choose conv st orc t s = Ret (Chosen a, s1)"
        using ch sv1 c k by (simp add: client_tun_choose_def kcp_tbl_Some)
      with that [of "Chosen a" s1] inv fr k tbl out False show thesis by auto
    next
      case True
      obtain s2 where s2: "client_disconnect_session_by_convid_ch (sub_oracle 0 orc) t k s1 = Ret s2" "client_ch_inv conv s2" "frame_ch t s1 s2"
        "covers orc (dom (kcp_tbl t s)) \<Longrightarrow> kcp_tbl t s2 = (kcp_tbl t s1)(k := None)"
      proof (cases "covers orc (dom (kcp_tbl t s))")
        case cv: True
        then have "covers (sub_oracle 0 orc) (dom (kcp_tbl t s1))" by (simp add: tbl covers_sub)
        from disconnect_by_convid_ch_exact [OF inv sv1 this] that show thesis by blast
      next
        case False
        then show thesis using disconnect_by_convid_ch [OF inv sv1, of "sub_oracle 0 orc" k] that by blast
      qed
      have "client_tun_choose conv st orc t s = Ret (Try_again, s2)"
        using ch sv1 c k s2(1) True base by (simp add: client_tun_choose_def kcp_tbl_Some)
      with that [of Try_again s2] s2 fr Some tbl True frame_ch_trans show thesis by auto
    qed
  qed
qed

section \<open>The loop behind \<open>tryagain\<close>\<close>

lemma finite_kcp_tbl [simp]: "finite (dom (kcp_tbl t s))"
  by (simp add: kcp_tbl_def finite_dom_map_of split: option.splits)

text \<open>
  Each pass that does not end the loop removes a link, so the loop ends; it comes out with a link of the bond, or the bond
  is empty.
\<close>

lemma tun_try_total:
  assumes "client_ch_inv conv s" "g_server_list_ch s t = Some sv" "covers orc (dom (kcp_tbl t s))"
  shows "\<exists>r s'. client_tun_try conv st orc t s = Some (Ret (r, s')) \<and> client_ch_inv conv s' \<and> frame_ch t s s' \<and>
    kcp_tbl t s' \<subseteq>\<^sub>m kcp_tbl t s \<and>
    (case r of None \<Rightarrow> kcp_tbl t s' = Map.empty | Some a \<Rightarrow> \<exists>k. kcp_tbl t s' k = Some a)"
  using assms
proof (induction "card (dom (kcp_tbl t s))" arbitrary: s sv st orc rule: less_induct)
  case less
  obtain r s1 where ch: "client_tun_choose conv (st 0) orc t s = Ret (r, s1)" "client_ch_inv conv s1" "frame_ch t s s1"
    "\<And>a. r = Chosen a \<Longrightarrow> \<not> kcp_dead (st 0) \<and> (\<exists>k. kcp_tbl t s1 k = Some a) \<and> kcp_tbl t s1 = kcp_tbl t s \<and> cc_out s1 = cc_out s"
    "r = Dropped \<Longrightarrow> kcp_tbl t s1 = Map.empty"
    "r = Try_again \<Longrightarrow> \<exists>k. kcp_tbl t s k \<noteq> None \<and> kcp_dead (st 0) \<and> kcp_tbl t s1 = (kcp_tbl t s)(k := None)"
    by (rule tun_choose_cases [OF less.prems(1,2), of "st 0" orc], rule that) (use less.prems(3) in blast)+
  obtain sv1 where sv1: "g_server_list_ch s1 t = Some sv1" using frame_ch_Some [OF ch(3) less.prems(2)] by blast
  note unf = client_tun_try.simps [of conv st orc t s]
  show ?case
  proof (cases r)
    case (Chosen a)
    then show ?thesis using ch(1-3) ch(4) [OF Chosen] by (auto simp: unf)
  next
    case Dropped
    then show ?thesis using ch(1-3) ch(5) [OF Dropped] by (auto simp: unf)
  next
    case Try_again
    then obtain k where k: "kcp_tbl t s k \<noteq> None" "kcp_tbl t s1 = (kcp_tbl t s)(k := None)" using ch(6) by blast
    then have card: "card (dom (kcp_tbl t s1)) < card (dom (kcp_tbl t s))"
      by (auto intro!: psubset_card_mono)
    have "covers (sub_oracle 1 orc) (dom (kcp_tbl t s1))" using less.prems(3) k(2) by (auto intro: covers_mono)
    note this = less.hyps [OF card ch(2) sv1 this, of "\<lambda>i. st (Suc i)"]
    then obtain q s' where q: "client_tun_try conv (\<lambda>i. st (Suc i)) (sub_oracle 1 orc) t s1 = Some (Ret (q, s'))"
      "client_ch_inv conv s'" "frame_ch t s1 s'" "kcp_tbl t s' \<subseteq>\<^sub>m kcp_tbl t s1"
      "case q of None \<Rightarrow> kcp_tbl t s' = Map.empty | Some a \<Rightarrow> \<exists>k. kcp_tbl t s' k = Some a"
      by (elim exE conjE) (rule that)
    have "client_tun_try conv st orc t s = Some (Ret (q, s'))" using ch(1) Try_again q(1) by (simp add: unf)
    moreover have "kcp_tbl t s' \<subseteq>\<^sub>m kcp_tbl t s"
      using map_le_trans [OF q(4), of "kcp_tbl t s"] k(2) by (simp add: map_le_def)
    ultimately show ?thesis using q(2,5) frame_ch_trans [OF ch(3) q(3)] by (intro exI conjI)
  qed
qed

text \<open>With live links the first pass decides, and nothing is sent or closed.\<close>

lemma tun_try_alive:
  assumes "client_ch_inv conv s" "g_server_list_ch s t = Some sv" "covers orc (dom (kcp_tbl t s))" "kcp_tbl t s \<noteq> Map.empty"
    "\<not> kcp_dead (st 0)"
  shows "\<exists>k a s'. client_tun_try conv st orc t s = Some (Ret (Some a, s')) \<and> kcp_tbl t s k = Some a \<and> client_ch_inv conv s' \<and>
    frame_ch t s s' \<and> kcp_tbl t s' = kcp_tbl t s \<and> cc_out s' = cc_out s"
proof -
  obtain r s1 where ch: "client_tun_choose conv (st 0) orc t s = Ret (r, s1)" "client_ch_inv conv s1" "frame_ch t s s1"
    "\<And>a. r = Chosen a \<Longrightarrow> (\<exists>k. kcp_tbl t s1 k = Some a) \<and> kcp_tbl t s1 = kcp_tbl t s \<and> cc_out s1 = cc_out s"
    "r \<noteq> Dropped" "r \<noteq> Try_again"
    by (rule tun_choose_cases [OF assms(1,2), of "st 0" orc], rule that) (use assms(3-5) in blast)+
  then obtain a where a: "r = Chosen a" by (cases r) auto
  with ch(1) have "client_tun_try conv st orc t s = Some (Ret (Some a, s1))" by (simp add: client_tun_try.simps [of conv st])
  with ch(2,3) ch(4) [OF a] show ?thesis by auto
qed

text \<open>Whatever the orders are, the loop keeps the state well formed if it ends.\<close>

lemma tun_try_keeps:
  assumes "client_tun_try conv st orc t s = Some y" "client_ch_inv conv s" "g_server_list_ch s t = Some sv"
  shows "\<exists>r s'. y = Ret (r, s') \<and> client_ch_inv conv s' \<and> frame_ch t s s' \<and>
    (\<forall>a. r = Some a \<longrightarrow> (\<exists>k. kcp_tbl t s' k = Some a))"
proof -
  let ?Q = "\<lambda>conv t s y. \<exists>r s'. y = Ret (r, s') \<and> client_ch_inv conv s' \<and> frame_ch t s s' \<and>
    (\<forall>a. r = Some a \<longrightarrow> (\<exists>k. kcp_tbl t s' k = Some a))"
  let ?P = "\<lambda>conv st orc t s y. client_ch_inv conv s \<longrightarrow> g_server_list_ch s t \<noteq> None \<longrightarrow> ?Q conv t s y"
  have "?P conv st orc t s y"
  proof (rule client_tun_try.raw_induct [where P = ?P, OF _ assms(1)], intro impI)
    fix rec_try conv st orc t s y
    assume IH: "\<And>conv st orc t s y. rec_try conv st orc t s = Some y \<Longrightarrow> ?P conv st orc t s y"
      and body: "(case client_tun_choose conv (st 0) orc t s of
        Ret r \<Rightarrow> (case fst r of
             Chosen a \<Rightarrow> Some (Ret (Some a, snd r))
           | Dropped \<Rightarrow> Some (Ret (None, snd r))
           | Try_again \<Rightarrow> rec_try conv (\<lambda>i. st (Suc i)) (sub_oracle 1 orc) t (snd r))
      | Panic m \<Rightarrow> Some (Panic m) | Exit n \<Rightarrow> Some (Exit n) | Diverge \<Rightarrow> Some Diverge) = Some y"
      and inv: "client_ch_inv conv s" and "g_server_list_ch s t \<noteq> None"
    then obtain sv where sv: "g_server_list_ch s t = Some sv" by blast
    obtain r s1 where ch: "client_tun_choose conv (st 0) orc t s = Ret (r, s1)" "client_ch_inv conv s1" "frame_ch t s s1"
      "\<And>a. r = Chosen a \<Longrightarrow> \<exists>k. kcp_tbl t s1 k = Some a"
      by (rule tun_choose_cases [OF inv sv, of "st 0" orc], rule that) blast+
    obtain sv1 where sv1: "g_server_list_ch s1 t = Some sv1" using frame_ch_Some [OF ch(3) sv] by blast
    show "?Q conv t s y"
    proof (cases r)
      case Try_again
      with body ch(1) have "rec_try conv (\<lambda>i. st (Suc i)) (sub_oracle 1 orc) t s1 = Some y" by simp
      then have "?Q conv t s1 y" using IH ch(2) sv1 by blast
      with ch(3) frame_ch_trans show ?thesis by blast
    qed (use body ch in auto)
  qed
  with assms(2,3) show ?thesis by simp
qed

section \<open>Joining\<close>

definition old_kcps :: "u32 \<Rightarrow> client_ch \<Rightarrow> addr gomap" where
  "old_kcps t s = (case g_server_list_ch s t of None \<Rightarrow> [] | Some sv \<Rightarrow> st_kcps sv)"

definition old_iface :: "u32 \<Rightarrow> client_ch \<Rightarrow> iface option" where
  "old_iface t s = (case g_server_list_ch s t of None \<Rightarrow> None | Some sv \<Rightarrow> st_iface sv)"

lemma st_kcps_ensure_map [simp]: "st_kcps (client_ensure_map_ch sv) = st_kcps sv"
  by (simp add: client_ensure_map_ch_def st_kcps_def)

lemma ensure_map_fields [simp]:
  "st_iface (client_ensure_map_ch sv) = st_iface sv" "st_base_convid (client_ensure_map_ch sv) = st_base_convid sv"
  "st_server_kcps (client_ensure_map_ch sv) \<noteq> None"
  by (simp_all add: client_ensure_map_ch_def)

lemma client_prepare_ch_facts:
  assumes "client_prepare_ch G E t s = (s2, b)"
  obtains sv2 effs where "g_server_list_ch s2 = (g_server_list_ch s)(t \<mapsto> sv2)" "st_kcps sv2 = old_kcps t s"
    "b \<longleftrightarrow> old_iface t s = None" "b \<Longrightarrow> st_base_convid sv2 = t"
    "b \<Longrightarrow> st_iface sv2 = (case cx_tun E of Inl e \<Rightarrow> None | Inr i \<Rightarrow> Some i)"
    "\<not> b \<Longrightarrow> \<exists>sv. g_server_list_ch s t = Some sv \<and> st_base_convid sv2 = st_base_convid sv \<and> st_iface sv2 = st_iface sv"
    "cc_heap s2 = cc_heap s" "cc_next s2 = cc_next s" "cc_mem s2 = cc_mem s" "cc_out s2 = cc_out s @ map Eff effs"
proof -
  define sv where "sv = (case g_server_list_ch s t of None \<Rightarrow> new_serverType_ch | Some sv \<Rightarrow> sv)"
  have sv: "st_kcps sv = old_kcps t s" "st_iface sv = old_iface t s"
    by (simp_all add: sv_def old_kcps_def old_iface_def new_serverType_ch_def st_kcps_def split: option.splits)
  show thesis
  proof (cases "old_iface t s")
    case None
    obtain i eff where c: "createTun_ch (g_client_tun_ip_ch G) t (cx_tun E) = (i, eff)" by fastforce
    then have i: "i = (case cx_tun E of Inl e \<Rightarrow> None | Inr i \<Rightarrow> Some i)"
      by (auto simp: createTun_ch_def Let_def split: sum.splits)
    let ?f = "\<lambda>sv. sv\<lparr>st_iface := i, st_tun_ip := g_client_tun_ip_ch G, st_ifname := ''tun'' @ dec_u32 t, st_base_convid := t\<rparr>"
    have "s2 = upd_st t client_ensure_map_ch (upd_st t ?f (emit_ch (map Eff eff) (s\<lparr>g_server_list_ch := (g_server_list_ch s)(t \<mapsto> sv)\<rparr>)))" "b"
      using assms None sv(2) c by (simp_all add: client_prepare_ch_def client_ensure_tun_ch_def sv_def [symmetric] Let_def)
    moreover have "st_kcps (?f sv) = old_kcps t s" using sv(1) by (simp add: st_kcps_def)
    ultimately show thesis using None i by (intro that [of "client_ensure_map_ch (?f sv)" eff]) simp_all
  next
    case (Some j)
    then have "g_server_list_ch s t = Some sv" by (simp add: sv_def old_iface_def split: option.splits)
    moreover have "s2 = upd_st t client_ensure_map_ch (s\<lparr>g_server_list_ch := (g_server_list_ch s)(t \<mapsto> sv)\<rparr>)" "\<not> b"
      using assms Some sv(2) by (simp_all add: client_prepare_ch_def client_ensure_tun_ch_def sv_def [symmetric] Let_def)
    ultimately show thesis using Some sv(1) by (intro that [of "client_ensure_map_ch sv" "[]"]) simp_all
  qed
qed

text \<open>A call that returns has either changed the tunnel's own fields only, or entered one link.\<close>

lemma connect_ch_cases:
  assumes "client_connect_server_ch X G E t src ifname s = Ret s'" "client_prepare_ch G E t s = (s2, b)"
  obtains (none) "s' = s2"
    | (link) k h u c m where "find_avail (\<lambda>k. kcp_tbl t s2 k \<noteq> None) (t + 10) t = Some k" "k \<noteq> t + 10"
        "dc_conn3 (cx_dial E) k = Inr h" "(c, m) = chan_make 100 (cc_mem s2)"
        "cc_heap s' = (cc_heap s2)(cc_next s2 \<mapsto> new_server_kcp k h u c src ifname)" "cc_next s' = Suc (cc_next s2)"
        "cc_mem s' = m"
        "g_server_list_ch s' = (g_server_list_ch s2)(t := map_option (\<lambda>sv. sv\<lparr>st_last_convid := 0,
            st_server_kcps := Some (gm_put k (cc_next s2) (st_kcps sv))\<rparr>) (g_server_list_ch s2 t))"
        "\<exists>es. cc_out s' = cc_out s2 @ es \<and> spawned es = [Writer_proc t (cc_next s2) c Wr_waiting, Reader_proc t (cc_next s2) True] @
            (if b then [Tun_proc t Tun_start] else [])"
        "\<forall>sv. g_server_list_ch s2 t = Some sv \<longrightarrow> \<not> client_connection_by_src_exists src sv s2"
proof -
  from assms obtain sv2 where sv2: "g_server_list_ch s2 t = Some sv2"
    by (cases "g_server_list_ch s2 t") (auto simp: client_connect_server_ch_def)
  show thesis
  proof (cases "s' = s2")
    case False
    with assms sv2 obtain k kcp u eff where
      f: "find_avail (\<lambda>k. kcp_tbl t s2 k \<noteq> None) (t + 10) t = Some k" "k \<noteq> t + 10" "\<not> client_connection_by_src_exists src sv2 s2"
        "create_udp_conn X G (cx_dial E) k src = Inr (kcp, u, eff)"
      and e: "client_enter_ch G t src ifname k kcp u b (emit_ch (map Eff eff) (upd_st t (\<lambda>sv. sv\<lparr>st_last_convid := 0\<rparr>) s2)) = Ret s'"
      by (auto simp: client_connect_server_ch_def split: if_splits option.splits sum.splits)
    obtain h where h: "kcp = Some h" using e by (cases kcp) (simp_all add: client_enter_ch_def)
    have "dc_conn3 (cx_dial E) k = Inr h"
      using f(4) h by (auto simp: create_udp_conn_def split: sum.splits)
    moreover obtain c m where cm: "chan_make 100 (cc_mem s2) = (c, m)" by fastforce
    ultimately show thesis
      using link [of k h c m u] f sv2 e h
      by (auto simp: client_enter_ch_def Let_def option.map_comp o_def cong: map_option_cong)
  qed (rule none)
qed

lemma kcp_ok_mono: "kcp_ok conv m c \<Longrightarrow> mem_le m m' \<Longrightarrow> kcp_ok conv m' c"
  by (auto simp: kcp_ok_def mem_le_def)

lemma client_ch_inv_mem:
  assumes "client_ch_inv conv s" "mem_le (cc_mem s) m" "mem_inv m"
  shows "client_ch_inv conv (s\<lparr>cc_mem := m\<rparr>)"
  using assms kcp_ok_mono by (fastforce simp: client_ch_inv_def tun_ok_def)

lemma client_prepare_ch_inv:
  assumes "client_ch_inv conv s" "unat t + 11 < 2 ^ 32" "client_prepare_ch G E t s = (s2, b)"
  shows "client_ch_inv conv s2"
proof -
  obtain sv2 effs where f: "g_server_list_ch s2 = (g_server_list_ch s)(t \<mapsto> sv2)" "st_kcps sv2 = old_kcps t s"
    "b \<Longrightarrow> st_base_convid sv2 = t"
    "\<not> b \<Longrightarrow> \<exists>sv. g_server_list_ch s t = Some sv \<and> st_base_convid sv2 = st_base_convid sv \<and> st_iface sv2 = st_iface sv"
    "cc_heap s2 = cc_heap s" "cc_next s2 = cc_next s" "cc_mem s2 = cc_mem s"
    by (rule client_prepare_ch_facts [OF assms(3)], rule that) blast+
  have base: "st_base_convid sv2 = t" using f(3,4) client_ch_inv_base [OF assms(1)] by (cases b) auto
  have "tun_ok s t sv2"
    using client_ch_inv_tun [OF assms(1), of t] base f(2) assms(2)
    by (cases "g_server_list_ch s t") (auto simp: tun_ok_def old_kcps_def)
  moreover have "tun_ok s2 = tun_ok s" using f(5) by (intro ext) (simp add: tun_ok_def)
  ultimately show ?thesis using assms(1) f by (auto simp: client_ch_inv_def)
qed

lemma connect_ch_inv:
  assumes "client_ch_inv conv s" "unat t + 11 < 2 ^ 32" "conv_law conv (cx_dial E)"
    and ret: "client_connect_server_ch X G E t src ifname s = Ret s'"
  shows "client_ch_inv conv s'"
proof -
  obtain s2 b where p: "client_prepare_ch G E t s = (s2, b)" by fastforce
  note inv = client_prepare_ch_inv [OF assms(1,2) p]
  from ret p show ?thesis
  proof (cases rule: connect_ch_cases)
    case (link k h u c m)
    note range = lowest_free_id [OF link(1) assms(2)]
    have "unat k \<noteq> unat t + 10" using link(2) unat_plus_10 [OF assms(2)] by (simp add: word_unat_eq_iff)
    moreover have "unat k \<noteq> unat t + 11"
    proof
      assume "unat k = unat t + 11"
      then have "t \<le> t + 10" "t + 10 < k" using unat_plus_10 [OF assms(2)] by (simp_all add: word_le_nat_alt word_less_nat_alt)
      then obtain a where "kcp_tbl t s2 (t + 10) = Some a" using range by blast
      from client_ch_inv_entry [OF inv this] unat_plus_10 [OF assms(2)] show False by auto
    qed
    ultimately have k: "t \<le> k" "unat k < unat t + 10" using range by auto
    note mem = chan_make_inv [OF client_ch_inv_memory [OF inv] link(4)]
    have new: "kcp_ok conv m (new_server_kcp k h u c src ifname)"
      using link(3) assms(3) mem(3) by (simp add: kcp_ok_def new_server_kcp_def conv_law_def)
    have fresh: "cc_heap s2 (cc_next s2) = None"
      using inv by (cases "cc_heap s2 (cc_next s2)") (auto simp: client_ch_inv_def)
    have "tun_ok s' t' sv" if sv: "g_server_list_ch s' t' = Some sv" for t' sv
    proof -
      obtain sv0 where sv0: "g_server_list_ch s2 t' = Some sv0" "sv = (if t' = t then sv0\<lparr>st_last_convid := 0,
          st_server_kcps := Some (gm_put k (cc_next s2) (st_kcps sv0))\<rparr> else sv0)"
        using sv link(8) by (auto split: if_splits)
      have "tun_ok s2 t' sv0" using client_ch_inv_tun [OF inv sv0(1)] .
      moreover have "map_option sk_convid (cc_heap s' a) = Some j" if "map_option sk_convid (cc_heap s2 a) = Some j" for a j
        using that link(5) fresh by auto
      moreover have "map_option sk_convid (cc_heap s' (cc_next s2)) = Some k" using link(5) by (simp add: new_server_kcp_def)
      ultimately show ?thesis using sv0(2) k by (auto simp: tun_ok_def st_kcps_def)
    qed
    moreover have "a < cc_next s' \<and> kcp_ok conv (cc_mem s') d" if "cc_heap s' a = Some d" for a d
      using that link(5-7) new inv kcp_ok_mono [OF _ mem(2)] by (fastforce simp: client_ch_inv_def split: if_splits)
    ultimately show ?thesis using mem(1) link(7) by (simp add: client_ch_inv_def)
  qed (use inv in simp)
qed

section \<open>The goroutines\<close>

text \<open>Nothing a goroutine holds on to goes away: links, tunnels, channels, buffers.\<close>

definition grows :: "client_ch \<Rightarrow> client_ch \<Rightarrow> bool" where
  "grows s s' \<longleftrightarrow>
     (\<forall>a c. cc_heap s a = Some c \<longrightarrow> map_option sk_writer_channel (cc_heap s' a) = Some (sk_writer_channel c)) \<and>
     (\<forall>t sv. g_server_list_ch s t = Some sv \<longrightarrow> g_server_list_ch s' t \<noteq> None) \<and>
     (\<forall>t i. old_iface t s = Some i \<longrightarrow> old_iface t s' = Some i) \<and> mem_le (cc_mem s) (cc_mem s')"

lemma grows_refl [simp]: "grows s s"
  by (simp add: grows_def)

lemma grows_trans: "grows s s' \<Longrightarrow> grows s' s'' \<Longrightarrow> grows s s''"
  unfolding grows_def by (auto dest: mem_le_trans) fastforce+

lemma frame_ch_grows:
  assumes "frame_ch t s s'"
  shows "grows s s'"
proof -
  have "rel_option same_tun (g_server_list_ch s t') (g_server_list_ch s' t')" for t'
    using assms by (cases "t' = t") (auto simp: frame_ch_def intro: option.rel_refl)
  then have "(g_server_list_ch s t' = None) = (g_server_list_ch s' t' = None) \<and> old_iface t' s' = old_iface t' s" for t'
    by (cases "g_server_list_ch s t'"; cases "g_server_list_ch s' t'")
       (force simp: old_iface_def same_tun_def dest: spec [of _ t'])+
  then have "g_server_list_ch s t' = Some sv \<Longrightarrow> \<exists>sv'. g_server_list_ch s' t' = Some sv'" "old_iface t' s' = old_iface t' s" for t' sv
    by (metis not_None_eq)+
  with assms show ?thesis by (auto simp: grows_def frame_ch_def)
qed

lemma grows_emit [simp]: "grows s (emit_ch es s)"
  by (simp add: grows_def old_iface_def)

lemma grows_upd_kcp:
  assumes "\<And>c. sk_writer_channel (f c) = sk_writer_channel c"
  shows "grows s (upd_kcp a f s)"
  using assms by (auto simp: grows_def old_iface_def)

lemma grows_mem: "mem_le (cc_mem s) m \<Longrightarrow> grows s (s\<lparr>cc_mem := m\<rparr>)"
  by (simp add: grows_def old_iface_def)

lemma connect_ch_grows:
  assumes "client_ch_inv conv s" "unat t + 11 < 2 ^ 32" "client_connect_server_ch X G E t src ifname s = Ret s'"
  shows "grows s s'"
proof -
  obtain s2 b where p: "client_prepare_ch G E t s = (s2, b)" by fastforce
  obtain sv2 where f: "g_server_list_ch s2 = (g_server_list_ch s)(t \<mapsto> sv2)" "b \<longleftrightarrow> old_iface t s = None"
    "\<not> b \<Longrightarrow> \<exists>sv. g_server_list_ch s t = Some sv \<and> st_iface sv2 = st_iface sv"
    "cc_heap s2 = cc_heap s" "cc_mem s2 = cc_mem s"
    by (rule client_prepare_ch_facts [OF p], rule that) blast+
  have g2: "grows s s2" using f by (auto simp: grows_def old_iface_def split: if_splits)
  note inv = client_prepare_ch_inv [OF assms(1,2) p]
  from assms(3) p show ?thesis
  proof (cases rule: connect_ch_cases)
    case (link k h u c m)
    have fresh: "cc_heap s2 (cc_next s2) = None"
      using inv by (cases "cc_heap s2 (cc_next s2)") (auto simp: client_ch_inv_def)
    have "mem_le (cc_mem s2) m" using chan_make_inv [OF client_ch_inv_memory [OF inv] link(4)] by blast
    then have "grows s2 s'" using fresh link(5,7,8) by (auto simp: grows_def old_iface_def split: option.splits)
    with g2 show ?thesis by (rule grows_trans)
  qed (use g2 in simp)
qed

text \<open>A goroutine's step: it returns, the state stays well formed, nothing goes away, the channels are not touched.\<close>

definition calm :: "(handle \<Rightarrow> u32) \<Rightarrow> client_ch \<Rightarrow> client_ch \<Rightarrow> bool" where
  "calm conv s s' \<longleftrightarrow> client_ch_inv conv s' \<and> grows s s' \<and> m_chans (cc_mem s') = m_chans (cc_mem s) \<and>
     m_next (cc_mem s) \<le> m_next (cc_mem s')"

lemma calm_trans: "calm conv s s' \<Longrightarrow> calm conv s' s'' \<Longrightarrow> calm conv s s''"
  by (auto simp: calm_def intro: grows_trans)

lemma calm_frame: "client_ch_inv conv s' \<Longrightarrow> frame_ch t s s' \<Longrightarrow> calm conv s s'"
  by (auto simp: calm_def dest: frame_ch_grows) (auto simp: frame_ch_def)

lemma calm_refl: "client_ch_inv conv s \<Longrightarrow> calm conv s s"
  by (simp add: calm_def)

lemma calm_emit: "client_ch_inv conv s \<Longrightarrow> calm conv s (emit_ch es s)"
  by (simp add: calm_def)

lemma calm_upd_kcp:
  assumes "client_ch_inv conv s" "\<And>c. sk_writer_channel (f c) = sk_writer_channel c" "\<And>c. sk_convid (f c) = sk_convid c"
    "\<And>c. sk_kcp (f c) = sk_kcp c" "\<And>c. sk_udp_conn (f c) = sk_udp_conn c" "\<And>c. sk_alive (f c) = sk_alive c"
  shows "calm conv s (upd_kcp a f s)"
  using assms by (auto simp: calm_def kcp_ok_def intro!: client_ch_inv_upd_kcp grows_upd_kcp)

lemma calm_disconnect:
  assumes "client_ch_inv conv s" "g_server_list_ch s t = Some sv"
  shows "\<exists>s'. client_disconnect_session_by_convid_ch orc t d s = Ret s' \<and> calm conv s s'"
  using disconnect_by_convid_ch [OF assms, of orc d] calm_frame by blast

lemma kcp_begin_ch_calm:
  assumes "client_ch_inv conv s" "g_server_list_ch s t = Some sv" "cc_heap s a = Some c"
  shows "\<exists>f s'. client_handle_kcp_begin_ch conv orc t a st s = Ret (f, s') \<and> calm conv s s'"
proof -
  obtain h where "sk_kcp c = Some h" using client_ch_inv_heap [OF assms(1,3)] by blast
  moreover obtain s' where "client_disconnect_session_by_convid_ch orc t (conv h) s = Ret s'" "calm conv s s'"
    using calm_disconnect [OF assms(1,2)] by blast
  ultimately show ?thesis
    using assms calm_refl client_ch_inv_base [OF assms(1,2)] by (auto simp: client_handle_kcp_begin_ch_def)
qed

lemma kcp_read_ch_calm:
  assumes "client_ch_inv conv s" "g_server_list_ch s t = Some sv" "cc_heap s a = Some c"
  shows "\<exists>f s'. client_handle_kcp_read_ch X G conv orc t a result s = Ret (f, s') \<and> calm conv s s'"
proof -
  obtain h where h: "sk_kcp c = Some h" using client_ch_inv_heap [OF assms(1,3)] by blast
  show ?thesis
  proof (cases result)
    case (Inl e)
    then show ?thesis
      using calm_disconnect [OF assms(1,2), of orc "conv h"] h assms client_ch_inv_base [OF assms(1,2)]
      by (auto simp: client_handle_kcp_read_ch_def)
  next
    case (Inr m)
    let ?s1 = "upd_kcp a (\<lambda>c. c\<lparr>sk_rxcounter := sk_rxcounter c + 1\<rparr>) s"
    have c1: "calm conv s ?s1" by (rule calm_upd_kcp) (use assms(1) in auto)
    then have inv1: "client_ch_inv conv ?s1" by (simp add: calm_def)
    have "calm conv s (emit_ch es (emit_ch es' ?s1))" "calm conv s (emit_ch es ?s1)" for es es'
      using calm_trans [OF c1 calm_emit [OF inv1]] calm_trans [OF calm_trans [OF c1 calm_emit [OF inv1]]]
        calm_emit [OF client_ch_inv_emit [OF inv1]] by blast+
    with c1 show ?thesis using Inr h assms(2,3)
      by (auto simp: client_handle_kcp_read_ch_def Let_def split: option.splits)
  qed
qed

lemma writer_write_calm:
  assumes "client_ch_inv conv s" "g_server_list_ch s t = Some sv" "cc_heap s a = Some c" "pkt_ok (cc_mem s) p"
  shows "\<exists>f s'. calm conv s s' \<and> (f = Ends \<longleftrightarrow> a_write (orc []) \<noteq> None) \<and> client_kcp_writer_write X G orc t a p s =
    (if g_trace_ch G \<and> f = Goes_on then obind (case st_iface sv of None \<Rightarrow> nil_iface_Name X | Some i \<Rightarrow> Ret i) (\<lambda>_. Ret (f, s'))
     else Ret (f, s'))"
proof -
  obtain h where h: "sk_kcp c = Some h" using client_ch_inv_heap [OF assms(1,3)] by blast
  obtain data where data: "buf_slice (pt_buff p) (pt_len p) (cc_mem s) = Ret data"
    using assms(4) by (auto simp: pkt_ok_def buf_slice_def)
  let ?s1 = "emit_ch [Eff (KcpWriteDeadline h 10), Eff (KcpWrite h data)] s"
  have c1: "calm conv s ?s1" "client_ch_inv conv ?s1" using calm_emit assms(1) by auto
  obtain u where u: "client_disconnect_session_by_convid_ch (sub_oracle 0 orc) t (sk_convid c) ?s1 = Ret u" "calm conv ?s1 u"
    using calm_disconnect [OF c1(2), of t sv] assms(2) by auto
  let ?s2 = "upd_kcp a (\<lambda>c. c\<lparr>sk_txcounter := sk_txcounter c + 1\<rparr>) ?s1"
  have c2: "calm conv ?s1 ?s2" by (rule calm_upd_kcp) (use c1 in auto)
  then have c3: "calm conv ?s2 (emit_ch es ?s2)" for es by (intro calm_emit) (simp add: calm_def)
  have all: "calm conv s u" "calm conv s ?s2" "calm conv s (emit_ch es ?s2)" for es
    using calm_trans [OF c1(1) u(2)] calm_trans [OF c1(1) c2] calm_trans [OF calm_trans [OF c1(1) c2] c3] by blast+
  note run = client_kcp_writer_write_def [of X G orc t a p s] assms(2,3) h data client_ch_inv_base [OF assms(1,2)]
  show ?thesis
  proof (cases "a_write (orc [])")
    case None
    then show ?thesis using all(2,3) by (cases "g_trace_ch G") (fastforce simp: run Let_def)+
  next
    case (Some e)
    then show ?thesis using all(1) u(1) by (intro exI [of _ Ends] exI [of _ u]) (simp add: run Let_def)
  qed
qed

lemma tun_read_ch_calm:
  assumes "client_ch_inv conv s" "g_server_list_ch s t = Some sv" "client_handle_tun_read_ch conv st orc t b result s = Ret (pc, s')"
    and "map_option length (m_buffs (cc_mem s) b) = Some 1500" "\<And>data. result = Inr data \<Longrightarrow> length data \<le> 1500"
  shows "calm conv s s' \<and>
    (pc = Tun_ended \<or> pc = Tun_loop b \<or> (\<exists>c p. pc = Tun_sending (Some c) p \<and> pt_buff p = b \<and> is_chan 100 c (cc_mem s') \<and> pkt_ok (cc_mem s') p))"
proof (cases result)
  case (Inl e)
  with assms(1,3) show ?thesis by (simp add: client_handle_tun_read_ch_def calm_refl)
next
  case (Inr data)
  let ?s1 = "s\<lparr>cc_mem := buf_read b data (cc_mem s)\<rparr>"
  note m = buf_read_inv [OF client_ch_inv_memory [OF assms(1)], of b data]
  have c1: "calm conv s ?s1" using client_ch_inv_mem [OF assms(1) m(2,1)] grows_mem [OF m(2)] by (simp add: calm_def)
  then have inv1: "client_ch_inv conv ?s1" by (simp add: calm_def)
  have sv1: "g_server_list_ch ?s1 t = Some sv" using assms(2) by simp
  obtain y where y: "client_tun_try conv st orc t ?s1 = Some y"
    using assms(3) Inr by (cases "client_tun_try conv st orc t ?s1") (auto simp: client_handle_tun_read_ch_def Let_def)
  obtain r u where u: "y = Ret (r, u)" "client_ch_inv conv u" "frame_ch t ?s1 u" "\<And>a. r = Some a \<Longrightarrow> \<exists>k. kcp_tbl t u k = Some a"
    using tun_try_keeps [OF y inv1 sv1] by blast
  have cu: "calm conv s u" using calm_trans [OF c1 calm_frame [OF u(2,3)]] .
  have pkt: "pkt_ok (cc_mem u) \<lparr>pt_sequence = 0, pt_len = int (length data), pt_buff = b\<rparr>"
    using assms(4) assms(5) [OF Inr] u(3) by (auto simp: pkt_ok_def frame_ch_def)
  show ?thesis
  proof (cases r)
    case None
    then show ?thesis using assms(3) Inr y u(1) cu by (simp add: client_handle_tun_read_ch_def Let_def)
  next
    case (Some a)
    then obtain k where "kcp_tbl t u k = Some a" using u(4) by blast
    then obtain c where c: "cc_heap u a = Some c" using client_ch_inv_entry [OF u(2)] by blast
    obtain ch where "sk_writer_channel c = Some ch" "is_chan 100 ch (cc_mem u)" using client_ch_inv_heap [OF u(2) c] by blast
    with pkt cu show ?thesis using assms(3) Inr y u(1) Some c by (auto simp: client_handle_tun_read_ch_def Let_def)
  qed
qed

lemma tun_read_ch_total:
  assumes "client_ch_inv conv s" "g_server_list_ch s t = Some sv" "covers orc (dom (kcp_tbl t s))"
  shows "\<exists>r. client_handle_tun_read_ch conv st orc t b result s = Ret r"
proof (cases result)
  case (Inr data)
  let ?s1 = "s\<lparr>cc_mem := buf_read b data (cc_mem s)\<rparr>"
  note m = buf_read_inv [OF client_ch_inv_memory [OF assms(1)], of b data]
  have "kcp_tbl t ?s1 = kcp_tbl t s" by (simp add: kcp_tbl_def)
  then have "\<exists>r s'. client_tun_try conv st orc t ?s1 = Some (Ret (r, s')) \<and> client_ch_inv conv s' \<and>
      (case r of None \<Rightarrow> kcp_tbl t s' = Map.empty | Some a \<Rightarrow> \<exists>k. kcp_tbl t s' k = Some a)"
    using tun_try_total [OF client_ch_inv_mem [OF assms(1) m(2,1)], of t sv orc st] assms(2,3) by auto
  then obtain r s' where u: "client_tun_try conv st orc t ?s1 = Some (Ret (r, s'))" "client_ch_inv conv s'"
    "case r of None \<Rightarrow> kcp_tbl t s' = Map.empty | Some a \<Rightarrow> \<exists>k. kcp_tbl t s' k = Some a" by blast
  show ?thesis
  proof (cases r)
    case (Some a)
    with u(3) obtain k where "kcp_tbl t s' k = Some a" by auto
    then obtain c where "cc_heap s' a = Some c" by (rule client_ch_inv_entry [OF u(2)])
    with Inr u(1) Some show ?thesis by (simp add: client_handle_tun_read_ch_def)
  qed (use Inr u(1) in \<open>simp add: client_handle_tun_read_ch_def\<close>)
qed (simp add: client_handle_tun_read_ch_def)

lemma tun_start_ch_calm:
  assumes "client_ch_inv conv s" "g_server_list_ch s t = Some sv"
  shows "\<exists>pc s'. client_handle_tun_start_ch t s = Ret (pc, s') \<and> calm conv s s' \<and>
    (pc = Tun_ended \<or> (\<exists>b. pc = Tun_loop b \<and> map_option length (m_buffs (cc_mem s') b) = Some 1500))"
proof -
  obtain b m where bm: "(b, m) = buf_make 1500 (cc_mem s)" by (metis surj_pair)
  note f = buf_make_inv [OF client_ch_inv_memory [OF assms(1)] bm]
  have "m_chans m = m_chans (cc_mem s)" "m_next (cc_mem s) \<le> m_next m"
    using buf_make_fields [OF bm [symmetric]] by simp_all
  then have "calm conv s (s\<lparr>cc_mem := m\<rparr>)"
    using client_ch_inv_mem [OF assms(1) f(2,1)] grows_mem [OF f(2)] by (simp add: calm_def)
  then show ?thesis using assms(2) f(3) bm [symmetric] by (auto simp: client_handle_tun_start_ch_def Let_def)
qed

lemma send_server_pings_ch_calm:
  assumes "client_ch_inv conv s" "client_send_server_pings_ch orc s = Ret s'"
  shows "calm conv s s'"
proof -
  have one: "calm conv s u'" if "calm conv s u" "client_hello_body_ch k a u = Ret u'" for u u' k a
    using that calm_trans [OF that(1) calm_emit] by (auto simp: client_hello_body_ch_def outcome_simps calm_def split: option.splits)
  have inner: "calm conv s u'" if "calm conv s u"
    "for_range (kcp_tbl t) client_hello_body_ch ks (emit_ch es u) = Ret u'" for u u' t ks es
  proof -
    have "calm conv s (emit_ch es u)" using that(1) calm_trans [OF that(1) calm_emit] by (simp add: calm_def)
    then show ?thesis by (rule for_range_keeps [where I = "calm conv s", OF _ _ that(2), rotated]) (rule one)
  qed
  show ?thesis
    by (rule for_range_keeps [where I = "calm conv s", OF _ calm_refl [OF assms(1)] assms(2) [unfolded client_send_server_pings_ch_def]])
       (rule inner)
qed

lemma ping_server_calm:
  assumes "client_ch_inv conv s" "client_ping_server orc t s = Ret s'"
  shows "calm conv s s'"
proof -
  have one: "calm conv s u'" if "calm conv s u" "client_ping_body_ch t k a u = Ret u'" for u u' k a
    using that calm_trans [OF that(1) calm_emit] by (auto simp: client_ping_body_ch_def outcome_simps calm_def)
  show ?thesis
    by (rule for_range_keeps [where I = "calm conv s", OF _ calm_refl [OF assms(1)] assms(2) [unfolded client_ping_server_def]])
       (rule one)
qed

lemma disconnect_ifname_ch_calm:
  assumes "client_ch_inv conv s" "client_disconnect_session_by_ifname_ch orc t i s = Ret s'"
  shows "calm conv s s'"
  using disconnect_where_ch [OF assms(1), of True orc t "\<lambda>c. sk_ifname c = i"] assms calm_refl calm_frame
  by (fastforce simp: client_disconnect_session_by_ifname_ch_def split: option.splits)

lemma disconnect_src_ch_calm:
  assumes "client_ch_inv conv s" "client_disconnect_session_by_src_ch orc t src s = Ret s'"
  shows "calm conv s s'"
  using disconnect_where_ch [OF assms(1), of True orc t "\<lambda>c. sk_src_address c = src"] assms calm_frame
  by (fastforce simp: client_disconnect_session_by_src_ch_def split: option.splits)

end
