(* ===== verification/Channel_Client_Steps.thy ===== *)
theory Channel_Client_Steps
  imports Channel_Client_Bond
begin

text \<open>
  The goroutines of the variant's client as a transition system. A state is the client and the list of the goroutines that have been
  started; a step is what one of them does between two points at which it waits, labelled with what it does to the channels.
\<close>

section \<open>The system\<close>

type_synonym client_sys = "client_ch sys"

definition init_client_sys :: client_sys where
  "init_client_sys = \<lparr>sy_state = init_client_ch, sy_procs = []\<rparr>"

abbreviation cs_mem :: "client_sys \<Rightarrow> memory" where
  "cs_mem S \<equiv> cc_mem (sy_state S)"

text \<open>What has been added to the effects.\<close>

definition news :: "client_ch \<Rightarrow> client_ch \<Rightarrow> effect_ch list" where
  "news c c' = drop (length (cc_out c)) (cc_out c')"

inductive client_sys_step ::
  "'r ext \<Rightarrow> globals_ch \<Rightarrow> (handle \<Rightarrow> u32) \<Rightarrow> client_sys \<Rightarrow> chan_event \<Rightarrow> client_sys \<Rightarrow> bool"
for X G conv where
  join: "client_connect_server_ch X G E t src ifname (sy_state S) = Ret c \<Longrightarrow> unat t + 11 < 2 ^ 32 \<Longrightarrow> conv_law conv (cx_dial E) \<Longrightarrow>
    client_sys_step X G conv S Quiet \<lparr>sy_state = c, sy_procs = sy_procs S @ spawned (news (sy_state S) c)\<rparr>"
| by_ifname: "client_disconnect_session_by_ifname_ch orc t ifname (sy_state S) = Ret c \<Longrightarrow>
    client_sys_step X G conv S Quiet (S\<lparr>sy_state := c\<rparr>)"
| by_src: "client_disconnect_session_by_src_ch orc t src (sy_state S) = Ret c \<Longrightarrow>
    client_sys_step X G conv S Quiet (S\<lparr>sy_state := c\<rparr>)"
| hello_round: "client_send_server_pings_ch orc (sy_state S) = Ret c \<Longrightarrow> client_sys_step X G conv S Quiet (S\<lparr>sy_state := c\<rparr>)"
| ping: "client_ping_server orc t (sy_state S) = Ret c \<Longrightarrow> client_sys_step X G conv S Quiet (S\<lparr>sy_state := c\<rparr>)"
| kcp_begin: "is_proc S i (Reader_proc t a True) \<Longrightarrow> client_handle_kcp_begin_ch conv orc t a st (sy_state S) = Ret (f, c) \<Longrightarrow>
    client_sys_step X G conv S Quiet (proceed i (Reader_proc t a (f = Goes_on)) c S)"
| kcp_read: "is_proc S i (Reader_proc t a True) \<Longrightarrow> client_handle_kcp_read_ch X G conv orc t a result (sy_state S) = Ret (f, c) \<Longrightarrow>
    client_sys_step X G conv S Quiet (proceed i (Reader_proc t a (f = Goes_on)) c S)"
| tun_start: "is_proc S i (Tun_proc t Tun_start) \<Longrightarrow> client_handle_tun_start_ch t (sy_state S) = Ret (pc, c) \<Longrightarrow>
    client_sys_step X G conv S Quiet (proceed i (Tun_proc t pc) c S)"
| tun_read: "is_proc S i (Tun_proc t (Tun_loop b)) \<Longrightarrow> (\<And>data. result = Inr data \<Longrightarrow> length data \<le> 1500) \<Longrightarrow>
    client_handle_tun_read_ch conv st orc t b result (sy_state S) = Ret (pc, c) \<Longrightarrow>
    client_sys_step X G conv S Quiet (proceed i (Tun_proc t pc) c S)"
| tun_send: "is_proc S i (Tun_proc t (Tun_sending (Some ch) p)) \<Longrightarrow> tun_send_ch (Some ch) p (cs_mem S) = Some m \<Longrightarrow>
    client_sys_step X G conv S (Put ch p) (proceed i (Tun_proc t (Tun_loop (pt_buff p))) ((sy_state S)\<lparr>cc_mem := m\<rparr>) S)"
| receive: "is_proc S i (Writer_proc t a ch Wr_waiting) \<Longrightarrow> chan_recv ch (cs_mem S) = Some (p, m) \<Longrightarrow>
    client_sys_step X G conv S (Take ch p) (proceed i (Writer_proc t a ch (Wr_writing p)) ((sy_state S)\<lparr>cc_mem := m\<rparr>) S)"
| written: "is_proc S i (Writer_proc t a ch (Wr_writing p)) \<Longrightarrow> client_kcp_writer_write X G orc t a p (sy_state S) = Ret (f, c) \<Longrightarrow>
    client_sys_step X G conv S Quiet (proceed i (Writer_proc t a ch (if f = Goes_on then Wr_waiting else Wr_ended)) c S)"

section \<open>The goroutines refer to what exists\<close>

primrec tun_pc_ok :: "memory \<Rightarrow> tun_pc \<Rightarrow> bool" where
  "tun_pc_ok m Tun_start = True"
| "tun_pc_ok m (Tun_loop b) = (map_option length (m_buffs m b) = Some 1500)"
| "tun_pc_ok m (Tun_read b a) = False"
| "tun_pc_ok m (Tun_sending c p) = (pkt_ok m p \<and> (\<exists>ch. c = Some ch \<and> is_chan 100 ch m))"
| "tun_pc_ok m Tun_ended = True"

primrec proc_ok :: "client_ch \<Rightarrow> proc \<Rightarrow> bool" where
  "proc_ok s (Tun_proc t pc) = (g_server_list_ch s t \<noteq> None \<and> tun_pc_ok (cc_mem s) pc)"
| "proc_ok s (Writer_proc t a c pc) = (g_server_list_ch s t \<noteq> None \<and>
     map_option sk_writer_channel (cc_heap s a) = Some (Some c) \<and> is_chan 100 c (cc_mem s) \<and> writer_pc_ok (cc_mem s) pc)"
| "proc_ok s (Reader_proc t a b) = (g_server_list_ch s t \<noteq> None \<and> cc_heap s a \<noteq> None)"
| "proc_ok s (Conn_proc t k a m) = False"

definition client_sys_inv :: "(handle \<Rightarrow> u32) \<Rightarrow> client_sys \<Rightarrow> bool" where
  "client_sys_inv conv S \<longleftrightarrow> client_ch_inv conv (sy_state S) \<and> list_all (proc_ok (sy_state S)) (sy_procs S) \<and>
     distinct (writer_chans (sy_procs S))"

lemma proc_ok_mono:
  assumes "proc_ok s p" "grows s s'"
  shows "proc_ok s' p"
proof -
  have le: "mem_le (cc_mem s) (cc_mem s')" using assms(2) by (simp add: grows_def)
  have pc: "tun_pc_ok (cc_mem s') pc" if "tun_pc_ok (cc_mem s) pc" for pc
    using that le by (cases pc) (auto simp: pkt_ok_mono [OF _ le] mem_le_def)
  have wr: "writer_pc_ok (cc_mem s') pc" if "writer_pc_ok (cc_mem s) pc" for pc
    using that by (cases pc) (auto simp: pkt_ok_mono [OF _ le])
  show ?thesis
    using assms le by (cases p) (fastforce simp: grows_def mem_le_def dest: pc wr)+
qed

lemma client_sys_inv_init: "client_sys_inv conv init_client_sys"
  by (simp add: client_sys_inv_def init_client_sys_def client_ch_inv_init writer_chans_def)

lemma client_sys_inv_proc: "client_sys_inv conv S \<Longrightarrow> is_proc S i p \<Longrightarrow> proc_ok (sy_state S) p"
  by (auto simp: client_sys_inv_def is_proc_def list_all_length)

lemma client_sys_inv_client: "client_sys_inv conv S \<Longrightarrow> client_ch_inv conv (sy_state S)"
  by (simp add: client_sys_inv_def)

lemma client_sys_inv_grow:
  assumes "client_sys_inv conv S" "client_ch_inv conv c" "grows (sy_state S) c" "list_all (proc_ok c) ps"
    "distinct (writer_chans (sy_procs S @ ps))"
  shows "client_sys_inv conv \<lparr>sy_state = c, sy_procs = sy_procs S @ ps\<rparr>"
  using assms proc_ok_mono [OF _ assms(3)] by (auto simp: client_sys_inv_def list_all_iff)

lemma client_sys_inv_proceed:
  assumes "client_sys_inv conv S" "client_ch_inv conv c" "grows (sy_state S) c" "proc_ok c p"
    "is_proc S i q" "writer_chan q = writer_chan p"
  shows "client_sys_inv conv (proceed i p c S)"
proof -
  have "list_all (proc_ok c) (sy_procs (proceed i p c S))"
    by (rule list_all_proceed [where Q = "proc_ok (sy_state S)"]) (use assms(1,3,4) proc_ok_mono in \<open>auto simp: client_sys_inv_def\<close>)
  moreover have "sy_state (proceed i p c S) = c" by (simp add: proceed_def)
  ultimately show ?thesis using assms(1,2) writer_chans_proceed [OF assms(5,6), of c] by (simp add: client_sys_inv_def)
qed

lemma connect_ch_news:
  assumes "client_ch_inv conv s" "unat t + 11 < 2 ^ 32" "conv_law conv (cx_dial E)"
    "client_connect_server_ch X G E t src ifname s = Ret s'"
  shows "length (writer_chans (spawned (news s s'))) \<le> 1 \<and> list_all (proc_ok s') (spawned (news s s')) \<and>
    (\<forall>t a c pc. Writer_proc t a c pc \<in> set (spawned (news s s')) \<longrightarrow> m_chans (cc_mem s) c = None) \<and>
    (\<forall>c ch. m_chans (cc_mem s) c = Some ch \<longrightarrow> m_chans (cc_mem s') c = Some ch) \<and> m_next (cc_mem s) \<le> m_next (cc_mem s')"
proof -
  obtain s2 b where p: "client_prepare_ch G E t s = (s2, b)" by fastforce
  obtain sv2 effs where f: "g_server_list_ch s2 = (g_server_list_ch s)(t \<mapsto> sv2)" "cc_mem s2 = cc_mem s" "cc_out s2 = cc_out s @ map Eff effs"
    by (rule client_prepare_ch_facts [OF p], rule that) blast+
  note inv = connect_ch_inv [OF assms]
  from assms(4) p show ?thesis
  proof (cases rule: connect_ch_cases)
    case none
    then show ?thesis using f by (simp add: news_def writer_chans_def)
  next
    case (link k h u c m)
    note new = chan_make_fields [OF link(4) [symmetric]]
    have mk: "mem_ok (cc_mem s)" using client_ch_inv_memory [OF assms(1)] by (simp add: mem_inv_def)
    obtain es where es: "cc_out s' = cc_out s2 @ es" "spawned es = [Writer_proc t (cc_next s2) c Wr_waiting, Reader_proc t (cc_next s2) True] @
        (if b then [Tun_proc t Tun_start] else [])" using link(9) by blast
    then have sp: "spawned (news s s') = spawned es" using f(3) by (simp add: news_def)
    have "is_chan 100 c (cc_mem s')" using new(2) link(7) by (simp add: is_chan_def)
    then have "list_all (proc_ok s') (spawned es)"
      using link(5,8) f(1) by (auto simp: es(2) new_server_kcp_def)
    moreover have "m_chans (cc_mem s) c = None" using mem_ok_next [OF mk] new(1) f(2) by simp
    ultimately show ?thesis using new link(7) f(2) sp es(2) by (auto simp: writer_chans_def)
  qed
qed

lemma connect_ch_spawned:
  assumes "client_ch_inv conv s" "unat t + 11 < 2 ^ 32" "conv_law conv (cx_dial E)"
    "client_connect_server_ch X G E t src ifname s = Ret s'"
  shows "list_all (proc_ok s') (spawned (news s s'))"
    and "Writer_proc u a c pc \<in> set (spawned (news s s')) \<Longrightarrow> m_chans (cc_mem s) c = None"
    and "mem_event Quiet (cc_mem s) (cc_mem s')" and "length (writer_chans (spawned (news s s'))) \<le> 1"
proof -
  note n = connect_ch_news [OF assms]
  show "list_all (proc_ok s') (spawned (news s s'))" using n by (elim conjE)
  show "length (writer_chans (spawned (news s s'))) \<le> 1" using n by (rule conjunct1)
  from n have "\<forall>t a c pc. Writer_proc t a c pc \<in> set (spawned (news s s')) \<longrightarrow> m_chans (cc_mem s) c = None" by (elim conjE)
  then show "Writer_proc u a c pc \<in> set (spawned (news s s')) \<Longrightarrow> m_chans (cc_mem s) c = None" by (elim allE) (erule mp)
  show "mem_event Quiet (cc_mem s) (cc_mem s')" using n by simp
qed

lemma connect_ch_distinct:
  assumes "client_sys_inv conv S" "unat t + 11 < 2 ^ 32" "conv_law conv (cx_dial E)"
    "client_connect_server_ch X G E t src ifname (sy_state S) = Ret s'"
  shows "distinct (writer_chans (sy_procs S @ spawned (news (sy_state S) s')))"
proof -
  let ?new = "spawned (news (sy_state S) s')"
  note sp = connect_ch_spawned [OF client_sys_inv_client [OF assms(1)] assms(2-4)]
  have "m_chans (cs_mem S) c \<noteq> None" if "c \<in> set (writer_chans (sy_procs S))" for c
  proof -
    from that obtain p where "p \<in> set (sy_procs S)" "c \<in> set (writer_chan p)" by (auto simp: writer_chans_def)
    moreover from this have "proc_ok (sy_state S) p" using assms(1) by (simp add: client_sys_inv_def list_all_iff)
    ultimately show ?thesis by - (cases p, auto simp: is_chan_def)
  qed
  moreover have "m_chans (cs_mem S) c = None" if new: "c \<in> set (writer_chans ?new)" for c
  proof -
    from new obtain p where p: "p \<in> set ?new" "c \<in> set (writer_chan p)" by (auto simp: writer_chans_def)
    from p(2) obtain u a pc where "p = Writer_proc u a c pc" by - (cases p, auto)
    with p sp(2) show ?thesis by blast
  qed
  ultimately have "set (writer_chans (sy_procs S)) \<inter> set (writer_chans ?new) = {}" by (meson disjoint_iff)
  moreover have "distinct (writer_chans ?new)" using sp(4) by (cases "writer_chans ?new") auto
  ultimately show ?thesis using assms(1) by (auto simp: client_sys_inv_def)
qed

section \<open>Every step keeps the system in order\<close>

lemma calm_proceed:
  assumes "client_sys_inv conv S" "calm conv (sy_state S) c" "proc_ok c p" "is_proc S i q" "writer_chan q = writer_chan p"
  shows "client_sys_inv conv (proceed i p c S)"
  using assms client_sys_inv_proceed by (simp add: calm_def)

lemma calm_mem_event: "calm conv s s' \<Longrightarrow> mem_event Quiet (cc_mem s) (cc_mem s')"
  by (simp add: calm_def)

lemma proc_ok_calm: "proc_ok s p \<Longrightarrow> calm conv s s' \<Longrightarrow> proc_ok s' p"
  using proc_ok_mono by (auto simp: calm_def)

lemma calm_goes_on:
  assumes "client_sys_inv conv S" "calm conv (sy_state S) c"
  shows "client_sys_inv conv (S\<lparr>sy_state := c\<rparr>)"
  using client_sys_inv_grow [OF assms(1), of c "[]"] assms by (cases S) (simp add: calm_def client_sys_inv_def)

text \<open>What each rule does: the state of the goroutine that moved, and the change of the client.\<close>

lemma reader_moves:
  assumes "client_sys_inv conv S" "is_proc S i (Reader_proc t a b)"
    and "client_handle_kcp_begin_ch conv orc t a st (sy_state S) = Ret (f, c) \<or>
      client_handle_kcp_read_ch X G conv orc t a result (sy_state S) = Ret (f, c)"
  shows "calm conv (sy_state S) c \<and> proc_ok c (Reader_proc t a b')"
proof -
  have ok: "proc_ok (sy_state S) (Reader_proc t a b')" using client_sys_inv_proc [OF assms(1,2)] by simp
  then obtain sv k where "g_server_list_ch (sy_state S) t = Some sv" "cc_heap (sy_state S) a = Some k" by auto
  note cs = kcp_begin_ch_calm [OF client_sys_inv_client [OF assms(1)] this, of orc st]
    kcp_read_ch_calm [OF client_sys_inv_client [OF assms(1)] this, of X G orc result]
  have "calm conv (sy_state S) c" using cs assms(3) by auto
  with ok proc_ok_calm show ?thesis by blast
qed

lemma tun_starts:
  assumes "client_sys_inv conv S" "is_proc S i (Tun_proc t Tun_start)" "client_handle_tun_start_ch t (sy_state S) = Ret (pc, c)"
  shows "calm conv (sy_state S) c \<and> proc_ok c (Tun_proc t pc)"
proof -
  have ok: "proc_ok (sy_state S) (Tun_proc t Tun_start)" by (rule client_sys_inv_proc [OF assms(1,2)])
  then obtain sv where "g_server_list_ch (sy_state S) t = Some sv" by auto
  from tun_start_ch_calm [OF client_sys_inv_client [OF assms(1)] this] assms(3)
  have "calm conv (sy_state S) c" "tun_pc_ok (cc_mem c) pc" by auto
  with proc_ok_calm [OF ok] show ?thesis by auto
qed

lemma tun_reads:
  assumes "client_sys_inv conv S" "is_proc S i (Tun_proc t (Tun_loop b))" "\<And>data. result = Inr data \<Longrightarrow> length data \<le> 1500"
    "client_handle_tun_read_ch conv st orc t b result (sy_state S) = Ret (pc, c)"
  shows "calm conv (sy_state S) c \<and> proc_ok c (Tun_proc t pc)"
proof -
  have ok: "proc_ok (sy_state S) (Tun_proc t (Tun_loop b))" by (rule client_sys_inv_proc [OF assms(1,2)])
  then obtain sv where "g_server_list_ch (sy_state S) t = Some sv" by auto
  from tun_read_ch_calm [OF client_sys_inv_client [OF assms(1)] this assms(4)] ok assms(3)
  have c: "calm conv (sy_state S) c" "pc = Tun_ended \<or> pc = Tun_loop b \<or>
      (\<exists>c' p. pc = Tun_sending (Some c') p \<and> is_chan 100 c' (cc_mem c) \<and> pkt_ok (cc_mem c) p)" by auto
  with proc_ok_calm [OF ok c(1)] show ?thesis by auto
qed

lemma writer_writes:
  assumes "client_sys_inv conv S" "is_proc S i (Writer_proc t a ch (Wr_writing p))"
    "client_kcp_writer_write X G orc t a p (sy_state S) = Ret (f, c)"
  shows "calm conv (sy_state S) c \<and> proc_ok c (Writer_proc t a ch (if f = Goes_on then Wr_waiting else Wr_ended))"
proof -
  have ok: "proc_ok (sy_state S) (Writer_proc t a ch (Wr_writing p))" by (rule client_sys_inv_proc [OF assms(1,2)])
  then obtain sv k where "g_server_list_ch (sy_state S) t = Some sv" "cc_heap (sy_state S) a = Some k" "pkt_ok (cs_mem S) p" by auto
  from writer_write_calm [OF client_sys_inv_client [OF assms(1)] this, of orc X G] obtain f' c' where
    "calm conv (sy_state S) c'" "client_kcp_writer_write X G orc t a p (sy_state S) =
      (if g_trace_ch G \<and> f' = Goes_on then obind (case st_iface sv of None \<Rightarrow> nil_iface_Name X | Some i \<Rightarrow> Ret i) (\<lambda>_. Ret (f', c'))
       else Ret (f', c'))" by blast
  with assms(3) have "calm conv (sy_state S) c" by (simp add: outcome_simps split: if_splits)
  with proc_ok_calm [OF ok] show ?thesis by auto
qed

lemma proceed_step:
  assumes "client_sys_inv conv S" "is_proc S i q" "calm conv (sy_state S) c \<and> proc_ok c p" "writer_chan q = writer_chan p"
  shows "client_sys_inv conv (proceed i p c S) \<and> mem_event Quiet (cs_mem S) (cs_mem (proceed i p c S))"
  using calm_proceed [OF assms(1) _ _ assms(2,4)] calm_mem_event [of conv "sy_state S" c] assms(3) by (simp add: proceed_def)

lemma client_step_quiet:
  assumes "client_sys_inv conv S" "calm conv (sy_state S) c"
  shows "client_sys_inv conv (S\<lparr>sy_state := c\<rparr>) \<and> mem_event Quiet (cs_mem S) (cs_mem (S\<lparr>sy_state := c\<rparr>))"
  using calm_goes_on [OF assms] calm_mem_event [OF assms(2)] by simp

lemma client_sys_step_inv:
  assumes "client_sys_inv conv S" "client_sys_step X G conv S e S'"
  shows "client_sys_inv conv S' \<and> mem_event e (cs_mem S) (cs_mem S')"
  using assms(2)
proof cases
  case (join E t src ifname c)
  note i = client_sys_inv_client [OF assms(1)]
  have "client_sys_inv conv S'"
    using client_sys_inv_grow [OF assms(1) connect_ch_inv [OF i join(4,5,3)] connect_ch_grows [OF i join(4,3)]]
      connect_ch_spawned(1) [OF i join(4,5,3)] connect_ch_distinct [OF assms(1) join(4,5,3)] join(2) by simp
  then show ?thesis using connect_ch_spawned(3) [OF i join(4,5,3)] join(1,2) by simp
next
  case (tun_send i t ch p m)
  have ok: "proc_ok (sy_state S) (Tun_proc t (Tun_sending (Some ch) p))" by (rule client_sys_inv_proc [OF assms(1) tun_send(3)])
  have send: "chan_send ch p (cs_mem S) = Some m" using tun_send(4) by (simp add: tun_send_ch_def)
  note i = client_sys_inv_client [OF assms(1)]
  have m: "mem_inv m" "mem_le (cs_mem S) m" using chan_send_inv [OF client_ch_inv_memory [OF i] send] ok by simp_all
  have "client_sys_inv conv S'"
    unfolding tun_send(2) using client_ch_inv_mem [OF i m(2,1)] grows_mem [OF m(2)] proc_ok_mono [OF ok grows_mem [OF m(2)]]
    by (intro client_sys_inv_proceed [OF assms(1) _ _ _ tun_send(3)]) (auto simp: pkt_ok_def)
  then show ?thesis using send tun_send(1,2) by (simp add: proceed_def)
next
  case (receive i t a ch p m)
  have ok: "proc_ok (sy_state S) (Writer_proc t a ch Wr_waiting)" by (rule client_sys_inv_proc [OF assms(1) receive(3)])
  note i = client_sys_inv_client [OF assms(1)]
  note m = chan_recv_inv [OF client_ch_inv_memory [OF i] receive(4)]
  have "client_sys_inv conv S'"
    unfolding receive(2)
    using client_ch_inv_mem [OF i m(2,1)] grows_mem [OF m(2)] proc_ok_mono [OF ok grows_mem [OF m(2)]] pkt_ok_mono [OF m(3,2)]
    by (intro client_sys_inv_proceed [OF assms(1) _ _ _ receive(3)]) auto
  then show ?thesis using receive by (simp add: proceed_def)
next
  case (by_ifname orc t ifname c)
  show ?thesis unfolding by_ifname(1,2) by (rule client_step_quiet [OF assms(1) disconnect_ifname_ch_calm [OF client_sys_inv_client [OF assms(1)] by_ifname(3)]])
next
  case (by_src orc t src c)
  show ?thesis unfolding by_src(1,2) by (rule client_step_quiet [OF assms(1) disconnect_src_ch_calm [OF client_sys_inv_client [OF assms(1)] by_src(3)]])
next
  case (hello_round orc c)
  show ?thesis unfolding hello_round(1,2) by (rule client_step_quiet [OF assms(1) send_server_pings_ch_calm [OF client_sys_inv_client [OF assms(1)] hello_round(3)]])
next
  case (ping orc t c)
  show ?thesis unfolding ping(1,2) by (rule client_step_quiet [OF assms(1) ping_server_calm [OF client_sys_inv_client [OF assms(1)] ping(3)]])
next
  case (kcp_begin i t a orc st f c)
  show ?thesis unfolding kcp_begin(1,2) by (rule proceed_step [OF assms(1) kcp_begin(3) reader_moves [OF assms(1) kcp_begin(3) disjI1 [OF kcp_begin(4)]]]) simp_all
next
  case (kcp_read i t a orc result f c)
  show ?thesis unfolding kcp_read(1,2) by (rule proceed_step [OF assms(1) kcp_read(3) reader_moves [OF assms(1) kcp_read(3) disjI2 [OF kcp_read(4)]]]) simp_all
next
  case (tun_start i t pc c)
  show ?thesis unfolding tun_start(1,2) by (rule proceed_step [OF assms(1) tun_start(3) tun_starts [OF assms(1) tun_start(3,4)]]) simp_all
next
  case (tun_read i t b result st orc pc c)
  show ?thesis unfolding tun_read(1,2) by (rule proceed_step [OF assms(1) tun_read(3) tun_reads [OF assms(1) tun_read(3,4,5)]]) simp_all
next
  case (written i t a ch p orc f c)
  show ?thesis unfolding written(1,2) by (rule proceed_step [OF assms(1) written(3) writer_writes [OF assms(1) written(3,4)]]) simp_all
qed

lemma client_sys_step_grows:
  assumes "client_sys_inv conv S" "client_sys_step X G conv S e S'"
  shows "grows (sy_state S) (sy_state S')"
proof -
  note i = client_sys_inv_client [OF assms(1)]
  have calm: "calm conv (sy_state S) c \<Longrightarrow> grows (sy_state S) c" for c by (simp add: calm_def)
  from assms(2) show ?thesis
  proof cases
    case (join E t src ifname c)
    then show ?thesis using connect_ch_grows [OF i join(4,3)] by simp
  next
    case (tun_send k t ch p m)
    have "pkt_ok (cs_mem S) p" using client_sys_inv_proc [OF assms(1) tun_send(3)] by simp
    then show ?thesis using tun_send(2,4) chan_send_inv(2) [OF client_ch_inv_memory [OF i]] grows_mem by (simp add: tun_send_ch_def proceed_def)
  next
    case (receive k t a ch p m)
    then show ?thesis using chan_recv_inv(2) [OF client_ch_inv_memory [OF i]] grows_mem by (simp add: proceed_def)
  next
    case (kcp_begin k t a orc st f c)
    then show ?thesis using calm reader_moves [OF assms(1) kcp_begin(3) disjI1 [OF kcp_begin(4)]] by (simp add: proceed_def)
  next
    case (kcp_read k t a orc result f c)
    then show ?thesis using calm reader_moves [OF assms(1) kcp_read(3) disjI2 [OF kcp_read(4)]] by (simp add: proceed_def)
  next
    case (tun_start k t pc c)
    then show ?thesis using calm tun_starts [OF assms(1) tun_start(3,4)] by (simp add: proceed_def)
  next
    case (tun_read k t b result st orc pc c)
    then show ?thesis using calm tun_reads [OF assms(1) tun_read(3,4,5)] by (simp add: proceed_def)
  next
    case (written k t a ch p orc f c)
    then show ?thesis using calm writer_writes [OF assms(1) written(3,4)] by (simp add: proceed_def)
  qed (use calm disconnect_ifname_ch_calm [OF i] disconnect_src_ch_calm [OF i] send_server_pings_ch_calm [OF i] ping_server_calm [OF i] in auto)
qed

section \<open>Packets in the channels\<close>

text \<open>A channel nobody receives from any more, and a tun reader that is about to send on a channel.\<close>

definition cs_deaf :: "client_sys \<Rightarrow> mem_addr \<Rightarrow> bool" where
  "cs_deaf S c \<longleftrightarrow> m_chans (cs_mem S) c \<noteq> None \<and> deaf (sy_procs S) c"

lemma client_sys_step_deaf:
  assumes "client_sys_inv conv S" "client_sys_step X G conv S e S'" "cs_deaf S c"
  shows "cs_deaf S' c"
proof -
  have "m_chans (cs_mem S') c \<noteq> None"
    using client_sys_step_inv [OF assms(1,2)] assms(3)
    by (cases e) (auto simp: cs_deaf_def chan_send_Some chan_recv_Some)
  moreover from assms(2) have "deaf (sy_procs S') c"
  proof cases
    case (join E t src ifname d)
    have "Writer_proc u a c pc \<notin> set (spawned (news (sy_state S) d))" for u a pc
    proof
      assume "Writer_proc u a c pc \<in> set (spawned (news (sy_state S) d))"
      then have "m_chans (cs_mem S) c = None"
        by (rule connect_ch_spawned(2) [OF client_sys_inv_client [OF assms(1)] join(4,5,3)])
      then show False using assms(3) by (simp add: cs_deaf_def)
    qed
    then show ?thesis using assms(3) join(2) by (auto simp: cs_deaf_def deaf_def)
  qed (use assms(3) in \<open>auto simp: cs_deaf_def proceed_def is_proc_def intro!: deaf_update dest: deaf_update_writer\<close>)
  ultimately show ?thesis by (simp add: cs_deaf_def)
qed

lemma client_sys_step_waits:
  assumes "client_sys_step X G conv S e S'" "sys_waits S i c"
  shows "sys_waits S' i c \<or> put_on c e \<noteq> []"
  using assms(1)
  by cases (use assms(2) in \<open>auto simp: sys_waits_def waits_on_def proceed_def is_proc_def nth_append nth_list_update\<close>)

lemma client_sys_take:
  assumes "client_sys_step X G conv S (Take c p) S'"
  shows "\<not> cs_deaf S c"
  using assms by cases (auto simp: cs_deaf_def deaf_def is_proc_def in_set_conv_nth; fastforce)

interpretation cpipe: piped_system "client_sys_step X G conv" cs_mem "client_sys_inv conv" cs_deaf sys_waits for X G conv
  by unfold_locales
     (blast dest: client_sys_step_inv client_sys_step_deaf client_sys_step_waits client_sys_take)+

text \<open>A goroutine of the tun device stays one of its tunnel.\<close>

lemma proc_kept:
  assumes "run (client_sys_step X G conv) S es S'" "is_proc S i (Tun_proc t pc)"
  shows "\<exists>pc'. is_proc S' i (Tun_proc t pc')"
  using assms
proof (induction rule: run.induct)
  case (more S es S' e S'')
  then obtain pc' where "is_proc S' i (Tun_proc t pc')" by blast
  with more(2) show ?case
    by cases (auto simp: proceed_def is_proc_def nth_append nth_list_update)
qed blast

end
