(* ===== verification/Channel_Pipe.thy ===== *)
theory Channel_Pipe
  imports Channel_Client_Steps Scenario
begin

text \<open>
  A tunnel of the variant's client with one link: the moves of the goroutine that reads the tun device and of the one that writes to the link, and
  a run that gets there from the start.
\<close>

section \<open>A tunnel with one link\<close>

text \<open>
  Tunnel \<open>t\<close> has the one link \<open>k\<close> with session \<open>h\<close> and channel \<open>ch\<close>; goroutine \<open>i\<close> reads the tun device into buffer \<open>b\<close>, goroutine \<open>j\<close>
  writes to the link; the channel holds \<open>q\<close>, the buffer \<open>bs\<close>.
\<close>

record pipe =
  pi_tunnel :: u32
  pi_link :: u32
  pi_addr :: addr
  pi_session :: handle
  pi_chan :: mem_addr
  pi_buffer :: mem_addr
  pi_tun :: nat
  pi_writer :: nat

definition in_pipe ::
  "(handle \<Rightarrow> u32) \<Rightarrow> pipe \<Rightarrow> client_sys \<Rightarrow> tun_pc \<Rightarrow> writer_pc \<Rightarrow> packetType list \<Rightarrow> u8 list \<Rightarrow> bool"
where
  "in_pipe conv P S tp wp q bs \<longleftrightarrow> client_sys_inv conv S \<and>
     is_proc S (pi_tun P) (Tun_proc (pi_tunnel P) tp) \<and>
     is_proc S (pi_writer P) (Writer_proc (pi_tunnel P) (pi_addr P) (pi_chan P) wp) \<and>
     kcp_tbl (pi_tunnel P) (sy_state S) = [pi_link P \<mapsto> pi_addr P] \<and>
     map_option sk_kcp (cc_heap (sy_state S) (pi_addr P)) = Some (Some (pi_session P)) \<and>
     queue_of (pi_chan P) (cs_mem S) = q \<and> m_buffs (cs_mem S) (pi_buffer P) = Some bs \<and> length bs = 1500"

definition tun_packet :: "mem_addr \<Rightarrow> u8 list \<Rightarrow> packetType" where
  "tun_packet b data = \<lparr>pt_sequence = 0, pt_len = int (length data), pt_buff = b\<rparr>"

lemma in_pipe_procs:
  assumes "in_pipe conv P S tp wp q bs"
  shows "pi_tun P \<noteq> pi_writer P" "pi_tun P < length (sy_procs S)" "pi_writer P < length (sy_procs S)"
  using assms by (auto simp: in_pipe_def is_proc_def)

lemma in_pipe_link:
  assumes "in_pipe conv P S tp wp q bs"
  obtains sv c where "g_server_list_ch (sy_state S) (pi_tunnel P) = Some sv" "cc_heap (sy_state S) (pi_addr P) = Some c"
    "sk_kcp c = Some (pi_session P)" "sk_writer_channel c = Some (pi_chan P)" "is_chan 100 (pi_chan P) (cs_mem S)"
    "sk_convid c = pi_link P" "client_ch_inv conv (sy_state S)"
proof -
  have inv: "client_ch_inv conv (sy_state S)" using assms by (simp add: in_pipe_def client_sys_inv_def)
  have "proc_ok (sy_state S) (Writer_proc (pi_tunnel P) (pi_addr P) (pi_chan P) wp)"
    using assms client_sys_inv_proc by (fastforce simp: in_pipe_def)
  moreover obtain c where "cc_heap (sy_state S) (pi_addr P) = Some c" "sk_convid c = pi_link P"
    using client_ch_inv_entry [OF inv, of "pi_tunnel P" "pi_link P" "pi_addr P"] assms by (auto simp: in_pipe_def)
  ultimately show thesis using that inv assms by (auto simp: in_pipe_def)
qed

lemma in_pipe_chan:
  assumes "in_pipe conv P S tp wp q bs"
  obtains ch where "m_chans (cs_mem S) (pi_chan P) = Some ch" "ch_cap ch = 100" "ch_queue ch = q" "length q \<le> 100"
proof -
  have "is_chan 100 (pi_chan P) (cs_mem S)" by (rule in_pipe_link [OF assms])
  moreover have "queue_of (pi_chan P) (cs_mem S) = q" using assms by (simp add: in_pipe_def)
  ultimately show thesis using that by (auto simp: is_chan_def queue_of_def)
qed

definition sole_order :: "u32 \<Rightarrow> go_error option \<Rightarrow> answers" where
  "sole_order k e = (\<lambda>p. \<lparr>a_order = [k], a_write = e, a_now = 0\<rparr>)"

lemma sole_order_covers: "covers (sole_order k e) (dom [k \<mapsto> a])"
  by (simp add: covers_def sole_order_def)

lemma in_pipe_frame:
  assumes "in_pipe conv P S tp wp q bs" "client_sys_step X G conv S e S'"
    and "is_proc S' (pi_tun P) (Tun_proc (pi_tunnel P) tp')"
    and "is_proc S' (pi_writer P) (Writer_proc (pi_tunnel P) (pi_addr P) (pi_chan P) wp')"
    and "kcp_tbl (pi_tunnel P) (sy_state S') = kcp_tbl (pi_tunnel P) (sy_state S)"
    and "map_option sk_kcp (cc_heap (sy_state S') (pi_addr P)) = map_option sk_kcp (cc_heap (sy_state S) (pi_addr P))"
    and "queue_of (pi_chan P) (cs_mem S') = q'" "m_buffs (cs_mem S') (pi_buffer P) = Some bs'" "length bs' = 1500"
  shows "in_pipe conv P S' tp' wp' q' bs'"
  using assms client_sys_step_inv [of conv S X G e S'] by (simp add: in_pipe_def)

text \<open>The four moves of the two goroutines.\<close>

lemma pipe_read:
  assumes "in_pipe conv P S (Tun_loop (pi_buffer P)) wp q bs" "length data \<le> 1500"
  shows "\<exists>S'. client_sys_step X G conv S Quiet S' \<and> cc_out (sy_state S') = cc_out (sy_state S) \<and>
    in_pipe conv P S' (Tun_sending (Some (pi_chan P)) (tun_packet (pi_buffer P) data)) wp q (overwrite data bs)"
proof -
  let ?t = "pi_tunnel P" and ?b = "pi_buffer P" and ?i = "pi_tun P"
  let ?s1 = "(sy_state S)\<lparr>cc_mem := buf_read ?b data (cs_mem S)\<rparr>"
  obtain sv c where l: "g_server_list_ch (sy_state S) ?t = Some sv" "cc_heap (sy_state S) (pi_addr P) = Some c"
    "sk_kcp c = Some (pi_session P)" "sk_writer_channel c = Some (pi_chan P)" "client_ch_inv conv (sy_state S)"
    by (rule in_pipe_link [OF assms(1)])
  note m = buf_read_inv [OF client_ch_inv_memory [OF l(5)], of ?b data]
  have tbl: "kcp_tbl ?t ?s1 = [pi_link P \<mapsto> pi_addr P]" using assms(1) by (simp add: in_pipe_def kcp_tbl_def)
  have "\<exists>k a s'. client_tun_try conv (\<lambda>_. 0) (sole_order (pi_link P) None) ?t ?s1 = Some (Ret (Some a, s')) \<and> kcp_tbl ?t ?s1 k = Some a \<and>
      client_ch_inv conv s' \<and> frame_ch ?t ?s1 s' \<and> kcp_tbl ?t s' = kcp_tbl ?t ?s1 \<and> cc_out s' = cc_out ?s1"
    by (rule tun_try_alive [OF client_ch_inv_mem [OF l(5) m(2,1)]])
       (use l(1) tbl sole_order_covers [of "pi_link P" None "pi_addr P"] in \<open>auto simp: kcp_dead_def\<close>)
  then obtain s' where try_alive: "client_tun_try conv (\<lambda>_. 0) (sole_order (pi_link P) None) ?t ?s1 = Some (Ret (Some (pi_addr P), s'))"
    and s': "frame_ch ?t ?s1 s'" "kcp_tbl ?t s' = kcp_tbl ?t ?s1" "cc_out s' = cc_out ?s1"
    using tbl by (auto split: if_splits)
  have heap: "cc_heap s' = cc_heap (sy_state S)" and mem: "cc_mem s' = buf_read ?b data (cs_mem S)"
    using s'(1) by (simp_all add: frame_ch_def)
  let ?S = "proceed ?i (Tun_proc ?t (Tun_sending (Some (pi_chan P)) (tun_packet ?b data))) s' S"
  have step: "client_sys_step X G conv S Quiet ?S"
  proof (rule client_sys_step.tun_read [where result = "Inr data" and st = "\<lambda>_. 0" and orc = "sole_order (pi_link P) None"])
    show "is_proc S ?i (Tun_proc ?t (Tun_loop ?b))" using assms(1) by (simp add: in_pipe_def)
    show "client_handle_tun_read_ch conv (\<lambda>_. 0) (sole_order (pi_link P) None) ?t ?b (Inr data) (sy_state S) =
        Ret (Tun_sending (Some (pi_chan P)) (tun_packet ?b data), s')"
      using try_alive heap l(2,4) by (simp add: client_handle_tun_read_ch_def tun_packet_def)
  qed (use assms(2) in simp)
  moreover have "in_pipe conv P ?S (Tun_sending (Some (pi_chan P)) (tun_packet ?b data)) wp q (overwrite data bs)"
    by (rule in_pipe_frame [OF assms(1) step])
       (use assms(1) in_pipe_procs [OF assms(1)] heap mem s'(2) tbl in
         \<open>auto simp: in_pipe_def proceed_def is_proc_def queue_of_def\<close>)
  ultimately show ?thesis using s'(3) by (auto simp: proceed_def)
qed

lemma pipe_send:
  assumes "in_pipe conv P S (Tun_sending (Some (pi_chan P)) p) wp q bs" "length q < 100" "pt_buff p = pi_buffer P"
  shows "\<exists>S'. client_sys_step X G conv S (Put (pi_chan P) p) S' \<and> cc_out (sy_state S') = cc_out (sy_state S) \<and>
    in_pipe conv P S' (Tun_loop (pi_buffer P)) wp (q @ [p]) bs"
proof -
  obtain ch where ch: "m_chans (cs_mem S) (pi_chan P) = Some ch" "ch_cap ch = 100" "ch_queue ch = q"
    by (rule in_pipe_chan [OF assms(1)])
  let ?m = "(cs_mem S)\<lparr>m_chans := (m_chans (cs_mem S))(pi_chan P \<mapsto> ch\<lparr>ch_queue := q @ [p]\<rparr>)\<rparr>"
  let ?S = "proceed (pi_tun P) (Tun_proc (pi_tunnel P) (Tun_loop (pt_buff p))) ((sy_state S)\<lparr>cc_mem := ?m\<rparr>) S"
  have step: "client_sys_step X G conv S (Put (pi_chan P) p) ?S"
    by (rule client_sys_step.tun_send) (use assms(1,2) ch in \<open>auto simp: in_pipe_def tun_send_ch_def chan_send_def\<close>)
  moreover have "in_pipe conv P ?S (Tun_loop (pi_buffer P)) wp (q @ [p]) bs"
    by (rule in_pipe_frame [OF assms(1) step])
       (use assms(1,3) in_pipe_procs [OF assms(1)] in \<open>auto simp: in_pipe_def proceed_def is_proc_def queue_of_def kcp_tbl_def\<close>)
  ultimately show ?thesis by (auto simp: proceed_def)
qed

lemma pipe_take:
  assumes "in_pipe conv P S tp Wr_waiting (p # q) bs"
  shows "\<exists>S'. client_sys_step X G conv S (Take (pi_chan P) p) S' \<and> cc_out (sy_state S') = cc_out (sy_state S) \<and>
    in_pipe conv P S' tp (Wr_writing p) q bs"
proof -
  obtain ch where ch: "m_chans (cs_mem S) (pi_chan P) = Some ch" "ch_queue ch = p # q"
    by (rule in_pipe_chan [OF assms])
  let ?m = "(cs_mem S)\<lparr>m_chans := (m_chans (cs_mem S))(pi_chan P \<mapsto> ch\<lparr>ch_queue := q\<rparr>)\<rparr>"
  let ?S = "proceed (pi_writer P) (Writer_proc (pi_tunnel P) (pi_addr P) (pi_chan P) (Wr_writing p)) ((sy_state S)\<lparr>cc_mem := ?m\<rparr>) S"
  have step: "client_sys_step X G conv S (Take (pi_chan P) p) ?S"
    by (rule client_sys_step.receive) (use assms ch in \<open>auto simp: in_pipe_def chan_recv_def\<close>)
  moreover have "in_pipe conv P ?S tp (Wr_writing p) q bs"
    by (rule in_pipe_frame [OF assms step])
       (use assms in_pipe_procs [OF assms] in \<open>auto simp: in_pipe_def proceed_def is_proc_def queue_of_def kcp_tbl_def\<close>)
  ultimately show ?thesis by (auto simp: proceed_def)
qed

text \<open>The writer writes what the buffer holds by then.\<close>

lemma pipe_write:
  assumes "in_pipe conv P S tp (Wr_writing (tun_packet (pi_buffer P) data)) q bs" "length data \<le> 1500" "\<not> g_trace_ch G"
  shows "\<exists>S'. client_sys_step X G conv S Quiet S' \<and> in_pipe conv P S' tp Wr_waiting q bs \<and>
    cc_out (sy_state S') = cc_out (sy_state S) @
      [Eff (KcpWriteDeadline (pi_session P) 10), Eff (KcpWrite (pi_session P) (take (length data) bs))]"
proof -
  let ?p = "tun_packet (pi_buffer P) data" and ?a = "pi_addr P"
  obtain sv c where l: "g_server_list_ch (sy_state S) (pi_tunnel P) = Some sv" "cc_heap (sy_state S) ?a = Some c" "sk_kcp c = Some (pi_session P)"
    by (rule in_pipe_link [OF assms(1)])
  let ?s = "upd_kcp ?a (\<lambda>c. c\<lparr>sk_txcounter := sk_txcounter c + 1\<rparr>) (emit_ch [Eff (KcpWriteDeadline (pi_session P) 10),
    Eff (KcpWrite (pi_session P) (take (length data) bs))] (sy_state S))"
  let ?S = "proceed (pi_writer P) (Writer_proc (pi_tunnel P) ?a (pi_chan P) Wr_waiting) ?s S"
  have "buf_slice (pt_buff ?p) (pt_len ?p) (cs_mem S) = Ret (take (length data) bs)"
    using assms(1,2) by (simp add: in_pipe_def buf_slice_def tun_packet_def)
  then have "client_kcp_writer_write X G (sole_order (pi_link P) None) (pi_tunnel P) ?a ?p (sy_state S) = Ret (Goes_on, ?s)"
    using l assms(3) by (simp add: client_kcp_writer_write_def sole_order_def Let_def)
  then have step: "client_sys_step X G conv S Quiet ?S"
    using client_sys_step.written [of S "pi_writer P" "pi_tunnel P" ?a "pi_chan P" ?p X G "sole_order (pi_link P) None" Goes_on ?s conv] assms(1)
    by (simp add: in_pipe_def)
  moreover have "in_pipe conv P ?S tp Wr_waiting q bs"
    by (rule in_pipe_frame [OF assms(1) step])
       (use assms(1) in_pipe_procs [OF assms(1)] l in \<open>auto simp: in_pipe_def proceed_def is_proc_def queue_of_def kcp_tbl_def\<close>)
  ultimately show ?thesis by (auto simp: proceed_def)
qed

text \<open>When the write fails the writer ends; nobody will receive from its channel.\<close>

lemma pipe_fails:
  assumes "in_pipe conv P S tp (Wr_writing p) q bs"
  shows "\<exists>S'. client_sys_step X G conv S Quiet S' \<and> client_sys_inv conv S' \<and> cs_deaf S' (pi_chan P) \<and>
    is_proc S' (pi_tun P) (Tun_proc (pi_tunnel P) tp) \<and> is_chan 100 (pi_chan P) (cs_mem S') \<and> queue_of (pi_chan P) (cs_mem S') = q"
proof -
  let ?a = "pi_addr P" and ?orc = "sole_order (pi_link P) (Some ''timeout'')"
  obtain sv c where l: "g_server_list_ch (sy_state S) (pi_tunnel P) = Some sv" "cc_heap (sy_state S) ?a = Some c"
    "is_chan 100 (pi_chan P) (cs_mem S)" "client_ch_inv conv (sy_state S)"
    by (rule in_pipe_link [OF assms])
  have writer: "is_proc S (pi_writer P) (Writer_proc (pi_tunnel P) ?a (pi_chan P) (Wr_writing p))"
    and inv: "client_sys_inv conv S" using assms by (simp_all add: in_pipe_def)
  have "pkt_ok (cs_mem S) p" using client_sys_inv_proc [OF inv writer] by simp
  from writer_write_calm [OF l(4,1,2) this, of ?orc X G] obtain s' where
    w: "client_kcp_writer_write X G ?orc (pi_tunnel P) ?a p (sy_state S) = Ret (Ends, s')" and calm: "calm conv (sy_state S) s'"
    by (auto simp: sole_order_def)
  let ?S = "proceed (pi_writer P) (Writer_proc (pi_tunnel P) ?a (pi_chan P) Wr_ended) s' S"
  have step: "client_sys_step X G conv S Quiet ?S"
    using client_sys_step.written [OF writer w, of conv] by simp
  have "deaf (sy_procs ?S) (pi_chan P)"
    using writer_ends_deaf [of "sy_procs S" "pi_writer P"] inv writer by (simp add: proceed_def client_sys_inv_def is_proc_def)
  moreover have "m_chans (cc_mem s') = m_chans (cs_mem S)" using calm by (simp add: calm_def)
  ultimately show ?thesis
    using step client_sys_step_inv [OF inv step] l(3) assms in_pipe_procs [OF assms]
    by (intro exI [of _ ?S]) (auto simp: cs_deaf_def proceed_def is_proc_def is_chan_def queue_of_def in_pipe_def)
qed

section \<open>A run\<close>

text \<open>A client that joins over one uplink and whose tun device is then read: the network answers, sessions are numbered by their conversation id.\<close>

definition demo_conv :: "handle \<Rightarrow> u32" where
  "demo_conv h = of_nat h"

definition demo_dial_ch :: dial_ch where
  "demo_dial_ch = \<lparr>dc_server = (\<lambda>a. Inr a), dc_local = (\<lambda>a. Inr a), dc_listen = (\<lambda>a. Inr 7), dc_conn3 = (\<lambda>k. Inr (unat k))\<rparr>"

definition demo_env_ch :: connect_env_ch where
  "demo_env_ch = \<lparr>cx_tun = Inr ''tun660'', cx_dial = demo_dial_ch\<rparr>"

definition demo_pipe :: pipe where
  "demo_pipe = \<lparr>pi_tunnel = 660, pi_link = 660, pi_addr = 0, pi_session = 660, pi_chan = 0, pi_buffer = 1, pi_tun = 2, pi_writer = 0\<rparr>"

lemma demo_conv_law: "conv_law demo_conv demo_dial_ch"
  by (simp add: conv_law_def demo_conv_def demo_dial_ch_def)

lemma demo_joined:
  "\<exists>c. client_connect_server_ch demo_ext init_globals_ch demo_env_ch 660 ''192.168.1.2'' ''eth0'' init_client_ch = Ret c \<and>
     spawned (news init_client_ch c) = [Writer_proc 660 0 0 Wr_waiting, Reader_proc 660 0 True, Tun_proc 660 Tun_start] \<and>
     kcp_tbl 660 c = [660 \<mapsto> 0] \<and> map_option sk_kcp (cc_heap c 0) = Some (Some 660) \<and> old_iface 660 c = Some ''tun660'' \<and>
     cc_mem c = \<lparr>m_buffs = Map.empty, m_chans = [0 \<mapsto> \<lparr>ch_cap = 100, ch_queue = []\<rparr>], m_next = 1\<rparr>"
  by (simp add: client_connect_server_ch_def client_prepare_ch_def client_ensure_tun_ch_def createTun_ch_def init_client_ch_def
      demo_env_ch_def demo_dial_ch_def new_serverType_ch_def client_ensure_map_ch_def client_connection_by_src_exists_def st_kcps_def
      kcp_tbl_def find_avail_stop create_udp_conn_def client_enter_ch_def chan_make_def init_memory_def new_server_kcp_def
      news_def old_iface_def gm_put_def upd_st_def emit_ch_def setClientConnOptions_ch_def)

lemma demo_pipe_reached:
  "\<exists>S. run (client_sys_step demo_ext init_globals_ch demo_conv) init_client_sys [Quiet, Quiet] S \<and>
     in_pipe demo_conv demo_pipe S (Tun_loop 1) Wr_waiting [] (replicate 1500 0) \<and> (\<forall>c. queue_of c (cs_mem S) = [])"
proof -
  let ?st = "client_sys_step demo_ext init_globals_ch demo_conv"
  let ?ps = "[Writer_proc 660 0 0 Wr_waiting, Reader_proc 660 0 True]"
  obtain c where c: "client_connect_server_ch demo_ext init_globals_ch demo_env_ch 660 ''192.168.1.2'' ''eth0'' init_client_ch = Ret c"
    "spawned (news init_client_ch c) = ?ps @ [Tun_proc 660 Tun_start]"
    "kcp_tbl 660 c = [660 \<mapsto> 0]" "map_option sk_kcp (cc_heap c 0) = Some (Some 660)" "old_iface 660 c = Some ''tun660''"
    "cc_mem c = \<lparr>m_buffs = Map.empty, m_chans = [0 \<mapsto> \<lparr>ch_cap = 100, ch_queue = []\<rparr>], m_next = 1\<rparr>"
    using demo_joined by auto
  let ?S1 = "\<lparr>sy_state = c, sy_procs = ?ps @ [Tun_proc 660 Tun_start]\<rparr>"
  have s1: "?st init_client_sys Quiet ?S1"
    using client_sys_step.join [where X = demo_ext and G = init_globals_ch and conv = demo_conv and S = init_client_sys and E = demo_env_ch
        and t = 660 and src = "''192.168.1.2''" and ifname = "''eth0''" and c = c] c(1,2) demo_conv_law
    by (simp add: init_client_sys_def demo_env_ch_def)
  let ?c2 = "c\<lparr>cc_mem := \<lparr>m_buffs = [1 \<mapsto> replicate 1500 0], m_chans = [0 \<mapsto> \<lparr>ch_cap = 100, ch_queue = []\<rparr>], m_next = 2\<rparr>\<rparr>"
  have start: "client_handle_tun_start_ch 660 c = Ret (Tun_loop 1, ?c2)"
    using c(5,6) by (auto simp: client_handle_tun_start_ch_def buf_make_def Let_def old_iface_def split: option.splits)
  let ?S2 = "proceed 2 (Tun_proc 660 (Tun_loop 1)) ?c2 ?S1"
  have s2: "?st ?S1 Quiet ?S2"
    by (rule client_sys_step.tun_start [where t = 660]) (simp_all add: is_proc_def start)
  have r: "run ?st init_client_sys [Quiet, Quiet] ?S2"
    by (rule run_cons [where step = ?st, OF s1 run_cons [where step = ?st, OF s2 run.stop]])
  have "client_sys_inv demo_conv ?S2" by (rule cpipe.run_inv [OF r client_sys_inv_init])
  then have "in_pipe demo_conv demo_pipe ?S2 (Tun_loop 1) Wr_waiting [] (replicate 1500 0)"
    using c(3,4) by (simp add: in_pipe_def demo_pipe_def is_proc_def proceed_def queue_of_def kcp_tbl_def)
  moreover have "queue_of d (cs_mem ?S2) = []" for d by (simp add: proceed_def queue_of_def)
  ultimately show ?thesis using r by blast
qed

end
