(* ===== verification/Channel_Client_Properties.thy ===== *)
theory Channel_Client_Properties
  imports Channel_Pipe
begin

text \<open>
  Properties of the variant's client: its links and goroutines, what happens to a packet between the tun device and a session,
  and two ways in which handing packets over channels goes wrong: the packets share one buffer, and a writer that gives up leaves
  the reader of the tun device waiting.
\<close>

section \<open>Packets share a buffer\<close>

text \<open>
  C25: the reader of the tun device has one buffer, and a packet waiting in a channel refers to it: if two packets of the same length are read
  before the writer runs, the second is sent twice and the first never.
\<close>

theorem shared_buffer_overwritten:
  assumes "in_pipe conv P S (Tun_loop (pi_buffer P)) Wr_waiting [] bs" "\<not> g_trace_ch G"
    and "length packet2 = length packet1" "length packet1 \<le> 1500"
  shows "\<exists>S'. run (client_sys_step X G conv) S
      [Quiet, Put (pi_chan P) (tun_packet (pi_buffer P) packet1), Quiet, Put (pi_chan P) (tun_packet (pi_buffer P) packet2),
       Take (pi_chan P) (tun_packet (pi_buffer P) packet1), Quiet, Take (pi_chan P) (tun_packet (pi_buffer P) packet2), Quiet] S' \<and>
    cc_out (sy_state S') = cc_out (sy_state S) @
      [Eff (KcpWriteDeadline (pi_session P) 10), Eff (KcpWrite (pi_session P) packet2),
       Eff (KcpWriteDeadline (pi_session P) 10), Eff (KcpWrite (pi_session P) packet2)]"
proof -
  let ?st = "client_sys_step X G conv" and ?b = "pi_buffer P" and ?c = "pi_chan P"
  note rc = run_cons [where step = ?st]
  let ?p1 = "tun_packet ?b packet1" and ?p2 = "tun_packet ?b packet2"
  have b: "pt_buff ?p1 = ?b" "pt_buff ?p2 = ?b" and len: "length packet2 \<le> 1500" using assms(3,4) by (simp_all add: tun_packet_def)
  have bs: "length bs = 1500" using assms(1) by (simp add: in_pipe_def)
  obtain S1 where s1: "?st S Quiet S1" "cc_out (sy_state S1) = cc_out (sy_state S)"
    "in_pipe conv P S1 (Tun_sending (Some ?c) ?p1) Wr_waiting [] (overwrite packet1 bs)"
    using pipe_read [OF assms(1,4)] by blast
  obtain S2 where s2: "?st S1 (Put ?c ?p1) S2" "cc_out (sy_state S2) = cc_out (sy_state S1)"
    "in_pipe conv P S2 (Tun_loop ?b) Wr_waiting [?p1] (overwrite packet1 bs)"
    using pipe_send [OF s1(3) _ b(1)] by auto
  let ?bs = "overwrite packet2 (overwrite packet1 bs)"
  obtain S3 where s3: "?st S2 Quiet S3" "cc_out (sy_state S3) = cc_out (sy_state S2)"
    "in_pipe conv P S3 (Tun_sending (Some ?c) ?p2) Wr_waiting [?p1] ?bs"
    using pipe_read [OF s2(3) len] by blast
  obtain S4 where s4: "?st S3 (Put ?c ?p2) S4" "cc_out (sy_state S4) = cc_out (sy_state S3)"
    "in_pipe conv P S4 (Tun_loop ?b) Wr_waiting [?p1, ?p2] ?bs"
    using pipe_send [OF s3(3) _ b(2)] by auto
  obtain S5 where s5: "?st S4 (Take ?c ?p1) S5" "cc_out (sy_state S5) = cc_out (sy_state S4)"
    "in_pipe conv P S5 (Tun_loop ?b) (Wr_writing ?p1) [?p2] ?bs"
    using pipe_take [OF s4(3)] by blast
  obtain S6 where s6: "?st S5 Quiet S6" "in_pipe conv P S6 (Tun_loop ?b) Wr_waiting [?p2] ?bs" "cc_out (sy_state S6) = cc_out (sy_state S5) @
      [Eff (KcpWriteDeadline (pi_session P) 10), Eff (KcpWrite (pi_session P) (take (length packet1) ?bs))]"
    using pipe_write [OF s5(3) assms(4,2)] by blast
  obtain S7 where s7: "?st S6 (Take ?c ?p2) S7" "cc_out (sy_state S7) = cc_out (sy_state S6)"
    "in_pipe conv P S7 (Tun_loop ?b) (Wr_writing ?p2) [] ?bs"
    using pipe_take [OF s6(2)] by blast
  obtain S8 where s8: "?st S7 Quiet S8" "cc_out (sy_state S8) = cc_out (sy_state S7) @
      [Eff (KcpWriteDeadline (pi_session P) 10), Eff (KcpWrite (pi_session P) (take (length packet2) ?bs))]"
    using pipe_write [OF s7(3) len assms(2)] by blast
  have "take (length packet2) ?bs = packet2" "take (length packet1) ?bs = packet2"
    using take_overwrite [of packet2 "overwrite packet1 bs"] len bs assms(3) by simp_all
  then show ?thesis
    using rc [OF s1(1) rc [OF s2(1) rc [OF s3(1) rc [OF s4(1) rc [OF s5(1) rc [OF s6(1) rc [OF s7(1) rc [OF s8(1) run.stop]]]]]]]]
      s1(2) s2(2) s3(2) s4(2) s5(2) s6(3) s7(2) s8(2) by auto
qed

theorem shared_buffer_overwritten_witness:
  "\<exists>S S' es. run (client_sys_step demo_ext init_globals_ch demo_conv) init_client_sys [Quiet, Quiet] S \<and>
     run (client_sys_step demo_ext init_globals_ch demo_conv) S es S' \<and>
     cc_out (sy_state S') = cc_out (sy_state S) @
       [Eff (KcpWriteDeadline 660 10), Eff (KcpWrite 660 [5, 6]), Eff (KcpWriteDeadline 660 10), Eff (KcpWrite 660 [5, 6])]"
proof -
  obtain S where S: "run (client_sys_step demo_ext init_globals_ch demo_conv) init_client_sys [Quiet, Quiet] S"
    "in_pipe demo_conv demo_pipe S (Tun_loop (pi_buffer demo_pipe)) Wr_waiting [] (replicate 1500 0)"
    using demo_pipe_reached by (auto simp: demo_pipe_def)
  have h: "pi_session demo_pipe = 660" by (simp add: demo_pipe_def)
  show ?thesis
    using shared_buffer_overwritten [OF S(2), of init_globals_ch "[5, 6]" "[3, 4]" demo_ext, unfolded h] S(1)
    by (auto simp: init_globals_ch_def)
qed

section \<open>A writer that gives up\<close>

lemma pipe_fill:
  assumes "in_pipe conv P S (Tun_loop (pi_buffer P)) wp q bs" "length q + n \<le> 100"
  shows "\<exists>es S' q' bs'. run (client_sys_step X G conv) S es S' \<and> in_pipe conv P S' (Tun_loop (pi_buffer P)) wp q' bs' \<and> length q' = length q + n"
  using assms(2)
proof (induction n)
  case 0
  then show ?case using assms(1) run.stop by fastforce
next
  case (Suc n)
  let ?p = "tun_packet (pi_buffer P) []"
  from Suc obtain es S1 q1 bs1 where s1: "run (client_sys_step X G conv) S es S1" "in_pipe conv P S1 (Tun_loop (pi_buffer P)) wp q1 bs1"
    "length q1 = length q + n" by auto
  obtain S2 where s2: "client_sys_step X G conv S1 Quiet S2"
    "in_pipe conv P S2 (Tun_sending (Some (pi_chan P)) ?p) wp q1 (overwrite [] bs1)"
    using pipe_read [OF s1(2), of "[]"] by auto
  obtain S3 where s3: "client_sys_step X G conv S2 (Put (pi_chan P) ?p) S3"
    "in_pipe conv P S3 (Tun_loop (pi_buffer P)) wp (q1 @ [?p]) (overwrite [] bs1)"
    using pipe_send [OF s2(2)] s1(3) Suc.prems by (auto simp: tun_packet_def)
  have "run (client_sys_step X G conv) S ((es @ [Quiet]) @ [Put (pi_chan P) ?p]) S3" 
    using run.more [where step = "client_sys_step X G conv", OF run.more [where step = "client_sys_step X G conv", OF s1(1) s2(1)] s3(1)] .
  with s3(2) s1(3) show ?case by (metis length_append_singleton add_Suc_right)
qed



section \<open>The goroutines\<close>

lemma reached_inv: "run (client_sys_step X G conv) init_client_sys es S \<Longrightarrow> client_sys_inv conv S"
  by (rule cpipe.run_inv [OF _ client_sys_inv_init])





section \<open>The channels\<close>



section \<open>A packet is handed over whole\<close>

text \<open>
  C30: a packet that the tun device delivers is chosen a link of the bond, and when the link's channel is empty and its writer runs before the next packet is
  read, exactly the bytes of the packet are written to the session of that link, under a deadline of 10 ms.
\<close>

theorem channel_hands_over:
  assumes "client_ch_inv conv s" "kcp_tbl t s \<noteq> Map.empty" "covers orc (dom (kcp_tbl t s))" "\<not> kcp_dead (st 0)"
    and "m_buffs (cc_mem s) b = Some bs" "length bs = 1500" "length data \<le> 1500"
    and "\<forall>c. queue_of c (cc_mem s) = []" "\<not> g_trace_ch G" "a_write (orc' []) = None"
  shows "\<exists>k a c h ch p s1 m1 m2 s2. kcp_tbl t s k = Some a \<and> cc_heap s a = Some c \<and> sk_kcp c = Some h \<and> sk_writer_channel c = Some ch \<and>
    client_handle_tun_read_ch conv st orc t b (Inr data) s = Ret (Tun_sending (Some ch) p, s1) \<and>
    tun_send_ch (Some ch) p (cc_mem s1) = Some m1 \<and> chan_recv ch m1 = Some (p, m2) \<and>
    client_kcp_writer_write X G orc' t a p (s1\<lparr>cc_mem := m2\<rparr>) = Ret (Goes_on, s2) \<and>
    cc_out s2 = cc_out s @ [Eff (KcpWriteDeadline h 10), Eff (KcpWrite h data)]"
proof -
  let ?s1 = "s\<lparr>cc_mem := buf_read b data (cc_mem s)\<rparr>" and ?p = "tun_packet b data"
  note m = buf_read_inv [OF client_ch_inv_memory [OF assms(1)], of b data]
  have tbl: "kcp_tbl t ?s1 = kcp_tbl t s" by (simp add: kcp_tbl_def)
  obtain sv where sv: "g_server_list_ch s t = Some sv"
    using assms(2) by (cases "g_server_list_ch s t") (auto simp: kcp_tbl_def)
  have "\<exists>k a s'. client_tun_try conv st orc t ?s1 = Some (Ret (Some a, s')) \<and> kcp_tbl t ?s1 k = Some a \<and> client_ch_inv conv s' \<and>
      frame_ch t ?s1 s' \<and> kcp_tbl t s' = kcp_tbl t ?s1 \<and> cc_out s' = cc_out ?s1"
    by (rule tun_try_alive [OF client_ch_inv_mem [OF assms(1) m(2,1)]]) (use sv assms(2-4) tbl in auto)
  then obtain k a s' where u: "client_tun_try conv st orc t ?s1 = Some (Ret (Some a, s'))" "kcp_tbl t s k = Some a" "frame_ch t ?s1 s'"
    "cc_out s' = cc_out s" using tbl by auto
  have mem: "cc_mem s' = buf_read b data (cc_mem s)" "cc_heap s' = cc_heap s" using u(3) by (simp_all add: frame_ch_def)
  obtain sv' where sv': "g_server_list_ch s' t = Some sv'" by (rule frame_ch_Some [OF u(3)]) (use sv in auto)
  obtain c h where c: "cc_heap s a = Some c" "sk_kcp c = Some h" by (rule frame_ch_inv_entry [OF assms(1) u(2)])
  obtain ch where ch: "sk_writer_channel c = Some ch" "is_chan 100 ch (cc_mem s)" by (rule client_ch_inv_heap [OF assms(1) c(1)])
  have "is_chan 100 ch (cc_mem s')" "queue_of ch (cc_mem s') = []"
    using ch(2) assms(8) mem(1) by (simp_all add: is_chan_def queue_of_def)
  then obtain m1 where m1: "chan_send ch ?p (cc_mem s') = Some m1" "queue_of ch m1 = [?p]" "is_chan 100 ch m1"
    using gochan.snd_room [of 100 ch "cc_mem s'" ?p] by auto
  obtain m2 where m2: "chan_recv ch m1 = Some (?p, m2)" using gochan.rcv_first [OF m1(3,2)] by blast
  have "m_buffs m2 = m_buffs (cc_mem s')" using m1(1) m2 by (auto simp: chan_send_Some chan_recv_Some)
  then have "buf_slice b (int (length data)) m2 = Ret data"
    using assms(5-7) by (simp add: buf_slice_def mem(1))
  then have "\<exists>s2. client_kcp_writer_write X G orc' t a ?p (s'\<lparr>cc_mem := m2\<rparr>) = Ret (Goes_on, s2) \<and>
      cc_out s2 = cc_out s @ [Eff (KcpWriteDeadline h 10), Eff (KcpWrite h data)]"
    using c sv' assms(9,10) u(4) mem(2) by (simp add: client_kcp_writer_write_def tun_packet_def Let_def)
  then obtain s2 where s2: "client_kcp_writer_write X G orc' t a ?p (s'\<lparr>cc_mem := m2\<rparr>) = Ret (Goes_on, s2)"
    "cc_out s2 = cc_out s @ [Eff (KcpWriteDeadline h 10), Eff (KcpWrite h data)]" by blast
  have "client_handle_tun_read_ch conv st orc t b (Inr data) s = Ret (Tun_sending (Some ch) ?p, s')"
    using u(1) c(1) ch(1) mem(2) by (simp add: client_handle_tun_read_ch_def tun_packet_def)
  with u(2) c ch(1) m1(1) m2 s2 show ?thesis unfolding tun_send_ch_def option.case by (intro exI conjI)
qed

theorem channel_hands_over_witness:
  "\<exists>s k a c h ch p s1 m1 m2 s2. kcp_tbl 660 s k = Some a \<and> cc_heap s a = Some c \<and> sk_kcp c = Some h \<and> sk_writer_channel c = Some ch \<and>
     client_handle_tun_read_ch demo_conv (\<lambda>_. 0) (sole_order 660 None) 660 1 (Inr [69, 0, 0]) s = Ret (Tun_sending (Some ch) p, s1) \<and>
     tun_send_ch (Some ch) p (cc_mem s1) = Some m1 \<and> chan_recv ch m1 = Some (p, m2) \<and>
     client_kcp_writer_write demo_ext init_globals_ch (sole_order 660 None) 660 a p (s1\<lparr>cc_mem := m2\<rparr>) = Ret (Goes_on, s2) \<and>
     cc_out s2 = cc_out s @ [Eff (KcpWriteDeadline h 10), Eff (KcpWrite h [69, 0, 0])]"
proof -
  obtain S where S: "run (client_sys_step demo_ext init_globals_ch demo_conv) init_client_sys [Quiet, Quiet] S"
    "in_pipe demo_conv demo_pipe S (Tun_loop 1) Wr_waiting [] (replicate 1500 0)"
    and q: "\<forall>c. queue_of c (cs_mem S) = []"
    using demo_pipe_reached by auto
  have i: "client_ch_inv demo_conv (sy_state S)" "kcp_tbl 660 (sy_state S) = [660 \<mapsto> 0]" "m_buffs (cs_mem S) 1 = Some (replicate 1500 0)"
    using S(2) by (simp_all add: in_pipe_def demo_pipe_def client_sys_inv_def)
  show ?thesis
    using channel_hands_over [where conv = demo_conv and s = "sy_state S" and t = 660 and orc = "sole_order 660 None" and st = "\<lambda>_. 0" and b = 1
        and bs = "replicate 1500 0" and data = "[69, 0, 0]" and G = init_globals_ch and orc' = "sole_order 660 None" and X = demo_ext]
      i q sole_order_covers [of 660 None 0]
    by (intro exI [of _ "sy_state S"]) (simp add: init_globals_ch_def kcp_dead_def sole_order_def)
qed

section \<open>Joining\<close>

definition linked_from :: "string \<Rightarrow> u32 \<Rightarrow> client_ch \<Rightarrow> bool" where
  "linked_from src t s \<longleftrightarrow> client_connection_by_src_exists src (new_serverType_ch\<lparr>st_server_kcps := Some (old_kcps t s)\<rparr>) s"

lemma by_src_old:
  assumes "st_kcps sv = old_kcps t s" "cc_heap s2 = cc_heap s"
  shows "client_connection_by_src_exists src sv s2 = linked_from src t s"
  using assms by (simp add: linked_from_def client_connection_by_src_exists_def st_kcps_def new_serverType_ch_def)

lemma kcp_tbl_old: "kcp_tbl t s = map_of (old_kcps t s)"
  by (simp add: kcp_tbl_def old_kcps_def split: option.splits)

lemma client_enter_next: "client_enter_ch G t src ifname k kcp u b s = Ret s' \<Longrightarrow> cc_next s' = Suc (cc_next s)"
  by (cases "chan_make 100 (cc_mem s)") (auto simp: client_enter_ch_def outcome_simps Let_def)

lemma ten_links:
  assumes "client_ch_inv conv s"
  shows "card (dom (kcp_tbl t s)) \<le> 10"
proof -
  have "unat ` dom (kcp_tbl t s) \<subseteq> {unat t ..< unat t + 10}"
    using client_ch_inv_entry [OF assms, of t] by (fastforce simp: word_le_nat_alt)
  then have "card (unat ` dom (kcp_tbl t s)) \<le> 10" using card_mono [of "{unat t ..< unat t + 10}"] by fastforce
  moreover have "inj_on unat (dom (kcp_tbl t s))" by (simp add: inj_on_def word_unat_eq_iff)
  ultimately show ?thesis by (simp add: card_image)
qed

text \<open>
  A join on a well-formed client adds at most one link: if the source address has none yet and one of the ten ids from the tunnel id on is free, the lowest free
  one is taken; otherwise the bond is left as it is. So a bond has at most ten links.
\<close>

theorem channel_join_bounded:
  assumes "client_ch_inv conv s" "unat t + 11 < 2 ^ 32" "conv_law conv (cx_dial E)"
    and "client_connect_server_ch X G E t src ifname s = Ret s'"
  shows "card (dom (kcp_tbl t s')) \<le> 10 \<and>
    (if linked_from src t s \<or> (\<forall>j. t \<le> j \<and> unat j < unat t + 10 \<longrightarrow> kcp_tbl t s j \<noteq> None) then kcp_tbl t s' = kcp_tbl t s
     else \<exists>k. t \<le> k \<and> unat k < unat t + 10 \<and> kcp_tbl t s k = None \<and> (\<forall>j. t \<le> j \<and> j < k \<longrightarrow> kcp_tbl t s j \<noteq> None) \<and>
       kcp_tbl t s' = (kcp_tbl t s)(k \<mapsto> cc_next s))"
proof -
  obtain s2 b where p: "client_prepare_ch G E t s = (s2, b)" by fastforce
  obtain sv2 where f: "g_server_list_ch s2 = (g_server_list_ch s)(t \<mapsto> sv2)" "st_kcps sv2 = old_kcps t s"
    "cc_heap s2 = cc_heap s" "cc_next s2 = cc_next s"
    by (rule client_prepare_ch_facts [OF p], rule that) blast+
  have tbl: "kcp_tbl t s2 = kcp_tbl t s" using f(1,2) by (simp add: kcp_tbl_Some [of s2 t sv2] kcp_tbl_old [of t s])
  note lim = unat_plus_10 [OF assms(2)]
  have plus: "t + 10 \<noteq> j" if "unat j < unat t + 10" for j using that lim by auto
  obtain k where k: "find_avail (\<lambda>k. kcp_tbl t s2 k \<noteq> None) (t + 10) t = Some k"
    using find_avail_range [of "t + 10" t "\<lambda>k. kcp_tbl t s2 k \<noteq> None"] lim assms(2) by auto
  note free = lowest_free_id [OF k assms(2), unfolded tbl]
  have top: "kcp_tbl t s (t + 10) = None"
  proof (rule ccontr)
    assume "kcp_tbl t s (t + 10) \<noteq> None"
    then obtain a where "kcp_tbl t s (t + 10) = Some a" by blast
    from client_ch_inv_entry [OF assms(1) this] lim show False by auto
  qed
  have k10: "unat k \<le> unat t + 10"
  proof (rule ccontr)
    assume "\<not> unat k \<le> unat t + 10"
    then have "t \<le> t + 10 \<and> t + 10 < k" using lim by (simp add: word_le_nat_alt word_less_nat_alt)
    with free top show False by blast
  qed
  have all: "(\<forall>j. t \<le> j \<and> unat j < unat t + 10 \<longrightarrow> kcp_tbl t s j \<noteq> None) \<longleftrightarrow> k = t + 10"
  proof
    assume "\<forall>j. t \<le> j \<and> unat j < unat t + 10 \<longrightarrow> kcp_tbl t s j \<noteq> None"
    then have "\<not> unat k < unat t + 10" using free k10 by blast
    with k10 lim show "k = t + 10" by (simp add: word_unat_eq_iff)
  next
    assume "k = t + 10"
    with free lim show "\<forall>j. t \<le> j \<and> unat j < unat t + 10 \<longrightarrow> kcp_tbl t s j \<noteq> None" by (simp add: word_less_nat_alt)
  qed
  have card: "card (dom (kcp_tbl t s')) \<le> 10" by (rule ten_links [OF connect_ch_inv [OF assms]])
  have src: "client_connection_by_src_exists src sv2 s2 = linked_from src t s" by (rule by_src_old [OF f(2,3)])
  show ?thesis
  proof (cases "linked_from src t s \<or> k = t + 10")
    case True
    then have "s' = s2" using assms(4) p k src f(1) by (auto simp: client_connect_server_ch_def)
    with True all tbl card show ?thesis by auto
  next
    case False
    then have kk: "unat k < unat t + 10" using k10 lim by (metis le_neq_implies_less word_unat_eq_iff)
    from assms(4) p have "kcp_tbl t s' = (kcp_tbl t s)(k \<mapsto> cc_next s)"
    proof (cases rule: connect_ch_cases)
      case none
      then show ?thesis using False assms(4) p k src f(1)
        by (auto simp: client_connect_server_ch_def split: sum.splits dest!: client_enter_next)
    next
      case (link k' h u c m)
      then show ?thesis using k f(1,2,4)
        by (simp add: kcp_tbl_Some [of s' t] kcp_tbl_old [of t s]) (simp add: st_kcps_def)
    qed
    with False all card free kk k10 show ?thesis by auto
  qed
qed

theorem channel_join_bounded_witness:
  "\<exists>c k. client_connect_server_ch demo_ext init_globals_ch demo_env_ch 660 ''192.168.1.2'' ''eth0'' init_client_ch = Ret c \<and>
     card (dom (kcp_tbl 660 c)) \<le> 10 \<and> unat k < 670 \<and> kcp_tbl 660 c = [k \<mapsto> 0]"
proof -
  obtain c where c: "client_connect_server_ch demo_ext init_globals_ch demo_env_ch 660 ''192.168.1.2'' ''eth0'' init_client_ch = Ret c"
    using demo_joined by blast
  have lim: "unat (660 :: u32) + 11 < 2 ^ 32" by simp
  have "conv_law demo_conv (cx_dial demo_env_ch)" using demo_conv_law by (simp add: demo_env_ch_def)
  note j = channel_join_bounded [OF client_ch_inv_init lim this c]
  have e: "\<not> linked_from ''192.168.1.2'' 660 init_client_ch" "kcp_tbl 660 init_client_ch = Map.empty" "cc_next init_client_ch = 0"
    by (simp_all add: linked_from_def client_connection_by_src_exists_def old_kcps_def init_client_ch_def kcp_tbl_def st_kcps_def)
  moreover have "\<exists>j :: u32. 660 \<le> j \<and> unat j < 670" by (rule exI [of _ 660]) simp
  ultimately have n: "\<not> (linked_from ''192.168.1.2'' 660 init_client_ch \<or>
      (\<forall>j :: u32. 660 \<le> j \<and> unat j < unat (660 :: u32) + 10 \<longrightarrow> kcp_tbl 660 init_client_ch j \<noteq> None))" by auto
  from j have "card (dom (kcp_tbl 660 c)) \<le> 10" "\<exists>k. unat k < 670 \<and> kcp_tbl 660 c = (kcp_tbl 660 init_client_ch)(k \<mapsto> cc_next init_client_ch)"
    unfolding if_not_P [OF n] by auto
  then show ?thesis using c e by auto
qed

section \<open>A device that is never read\<close>

lemma connect_spawns_tun:
  assumes "client_connect_server_ch X G E t src ifname s = Ret s'" "Tun_proc u pc \<in> set (spawned (news s s'))"
  shows "u = t \<and> old_iface t s = None"
proof -
  obtain s2 b where p: "client_prepare_ch G E t s = (s2, b)" by fastforce
  obtain effs where f: "b \<longleftrightarrow> old_iface t s = None" "cc_out s2 = cc_out s @ map Eff effs"
    by (rule client_prepare_ch_facts [OF p], rule that) blast+
  from assms(1) p show ?thesis
  proof (cases rule: connect_ch_cases)
    case none
    then show ?thesis using assms(2) f(2) by (simp add: news_def)
  next
    case (link k h w c m)
    then show ?thesis using assms(2) f by (auto simp: news_def split: if_splits)
  qed
qed

definition unread :: "u32 \<Rightarrow> client_sys \<Rightarrow> bool" where
  "unread t S \<longleftrightarrow> old_iface t (sy_state S) \<noteq> None \<and> (\<forall>pc. Tun_proc t pc \<in> set (sy_procs S) \<longrightarrow> pc = Tun_ended)"

lemma proceed_ended:
  assumes "\<forall>pc. Tun_proc t pc \<in> set (sy_procs S) \<longrightarrow> pc = Tun_ended" "\<And>pc. p = Tun_proc t pc \<Longrightarrow> pc = Tun_ended"
  shows "\<forall>pc. Tun_proc t pc \<in> set (sy_procs (proceed i p c S)) \<longrightarrow> pc = Tun_ended"
  using assms set_update_subset_insert [of "sy_procs S" i p] unfolding proceed_def sys.simps by blast

lemma unread_stays:
  assumes "client_sys_inv conv S" "client_sys_step X G conv S e S'" "unread t S"
  shows "unread t S'"
proof -
  have ended: "\<forall>pc. Tun_proc t pc \<in> set (sy_procs S) \<longrightarrow> pc = Tun_ended" using assms(3) by (simp add: unread_def)
  then have notrun: "u \<noteq> t" if "is_proc S i (Tun_proc u pc)" "pc \<noteq> Tun_ended" for i u pc
    using that nth_mem by (fastforce simp: is_proc_def)
  have "grows (sy_state S) (sy_state S')" by (rule client_sys_step_grows [OF assms(1,2)])
  then have "old_iface t (sy_state S') \<noteq> None" using assms(3) by (auto simp: unread_def grows_def)
  moreover from assms(2) have "\<forall>pc. Tun_proc t pc \<in> set (sy_procs S') \<longrightarrow> pc = Tun_ended"
  proof cases
    case (join E t' src ifname c)
    have "Tun_proc t pc \<notin> set (spawned (news (sy_state S) c))" for pc
      using connect_spawns_tun [OF join(3), of t pc] assms(3) by (auto simp: unread_def)
    then show ?thesis using ended join(2) by auto
  next
    case (tun_start i u pc c)
    show ?thesis unfolding tun_start(2) by (rule proceed_ended [OF ended]) (use notrun [OF tun_start(3)] in auto)
  next
    case (tun_read i u b result st orc pc c)
    show ?thesis unfolding tun_read(2) by (rule proceed_ended [OF ended]) (use notrun [OF tun_read(3)] in auto)
  next
    case (tun_send i u ch p m)
    show ?thesis unfolding tun_send(2) by (rule proceed_ended [OF ended]) (use notrun [OF tun_send(3)] in auto)
  next
    case (kcp_begin i u a orc st f c)
    show ?thesis unfolding kcp_begin(2) by (rule proceed_ended [OF ended]) simp
  next
    case (kcp_read i u a orc result f c)
    show ?thesis unfolding kcp_read(2) by (rule proceed_ended [OF ended]) simp
  next
    case (receive i u a ch p m)
    show ?thesis unfolding receive(2) by (rule proceed_ended [OF ended]) simp
  next
    case (written i u a ch p orc f c)
    show ?thesis unfolding written(2) by (rule proceed_ended [OF ended]) simp
  qed (use ended in simp_all)
  ultimately show ?thesis by (simp add: unread_def)
qed

text \<open>
  If the tun device could not be made at the first join, a later join from the same source address makes it but returns before it starts the goroutine
  that reads it; and since the tunnel has a device from then on, no later step starts one: the client never reads from its tun device.
\<close>

theorem tun_device_never_read:
  assumes "client_sys_inv conv S" "old_iface t (sy_state S) = None" "linked_from src t (sy_state S)" "cx_tun E = Inr i"
    and "\<forall>pc. Tun_proc t pc \<in> set (sy_procs S) \<longrightarrow> pc = Tun_ended" "unat t + 11 < 2 ^ 32" "conv_law conv (cx_dial E)"
  shows "\<exists>c. client_connect_server_ch X G E t src ifname (sy_state S) = Ret c \<and> old_iface t c = Some i \<and>
    client_sys_step X G conv S Quiet (S\<lparr>sy_state := c\<rparr>) \<and>
    (\<forall>es S'. run (client_sys_step X G conv) (S\<lparr>sy_state := c\<rparr>) es S' \<longrightarrow> unread t S')"
proof -
  let ?s = "sy_state S"
  obtain c b where p: "client_prepare_ch G E t ?s = (c, b)" by fastforce
  obtain sv2 effs where f: "g_server_list_ch c = (g_server_list_ch ?s)(t \<mapsto> sv2)" "st_kcps sv2 = old_kcps t ?s" "b \<longleftrightarrow> old_iface t ?s = None"
    "b \<Longrightarrow> st_iface sv2 = (case cx_tun E of Inl e \<Rightarrow> None | Inr i \<Rightarrow> Some i)" "cc_heap c = cc_heap ?s" "cc_out c = cc_out ?s @ map Eff effs"
    by (rule client_prepare_ch_facts [OF p], rule that) blast+
  have ret: "client_connect_server_ch X G E t src ifname ?s = Ret c"
    using p f(1) by_src_old [OF f(2,5), of src] assms(3) by (simp add: client_connect_server_ch_def)
  have iface: "old_iface t c = Some i" using f(1,3,4) assms(2,4) by (simp add: old_iface_def)
  have step: "client_sys_step X G conv S Quiet (S\<lparr>sy_state := c\<rparr>)"
    using client_sys_step.join [where X = X and G = G and conv = conv and S = S and E = E and t = t and src = src and ifname = ifname and c = c]
      ret assms(6,7) f(6) by (cases S) (simp add: news_def)
  have inv: "client_sys_inv conv (S\<lparr>sy_state := c\<rparr>)" using client_sys_step_inv [OF assms(1) step] by simp
  have start: "unread t (S\<lparr>sy_state := c\<rparr>)" using iface assms(5) by (simp add: unread_def)
  have "unread t S'" if "run (client_sys_step X G conv) (S\<lparr>sy_state := c\<rparr>) es S'" for es S'
    using that inv start
  proof (induction rule: run.induct)
    case (more S1 es S2 e S3)
    then show ?case using unread_stays [OF cpipe.run_inv [OF more(1)]] by blast
  qed
  with ret iface step show ?thesis by blast
qed

lemma demo_joined_without_tun:
  "\<exists>c. client_connect_server_ch demo_ext init_globals_ch (demo_env_ch\<lparr>cx_tun := Inl ''busy''\<rparr>) 660 ''192.168.1.2'' ''eth0'' init_client_ch = Ret c \<and>
     spawned (news init_client_ch c) = [Writer_proc 660 0 0 Wr_waiting, Reader_proc 660 0 True, Tun_proc 660 Tun_start] \<and>
     old_iface 660 c = None \<and> linked_from ''192.168.1.2'' 660 c \<and> g_server_list_ch c 660 \<noteq> None"
  by (simp add: client_connect_server_ch_def client_prepare_ch_def client_ensure_tun_ch_def createTun_ch_def init_client_ch_def
      demo_env_ch_def demo_dial_ch_def new_serverType_ch_def client_ensure_map_ch_def client_connection_by_src_exists_def st_kcps_def
      kcp_tbl_def find_avail_stop create_udp_conn_def client_enter_ch_def chan_make_def init_memory_def new_server_kcp_def
      news_def old_iface_def old_kcps_def linked_from_def gm_put_def upd_st_def emit_ch_def setClientConnOptions_ch_def)

theorem tun_device_never_read_witness:
  "\<exists>es S. run (client_sys_step demo_ext init_globals_ch demo_conv) init_client_sys es S \<and> old_iface 660 (sy_state S) = Some ''tun660'' \<and>
     (\<forall>es S'. run (client_sys_step demo_ext init_globals_ch demo_conv) S es S' \<longrightarrow> unread 660 S')"
proof -
  let ?st = "client_sys_step demo_ext init_globals_ch demo_conv" and ?E = "demo_env_ch\<lparr>cx_tun := Inl ''busy''\<rparr>"
  let ?ps = "[Writer_proc 660 0 0 Wr_waiting, Reader_proc 660 0 True]"
  obtain c where c: "client_connect_server_ch demo_ext init_globals_ch ?E 660 ''192.168.1.2'' ''eth0'' init_client_ch = Ret c"
    "spawned (news init_client_ch c) = ?ps @ [Tun_proc 660 Tun_start]" "old_iface 660 c = None" "linked_from ''192.168.1.2'' 660 c"
    "g_server_list_ch c 660 \<noteq> None"
    using demo_joined_without_tun by auto
  let ?S1 = "\<lparr>sy_state = c, sy_procs = ?ps @ [Tun_proc 660 Tun_start]\<rparr>"
  have s1: "?st init_client_sys Quiet ?S1"
    using client_sys_step.join [where X = demo_ext and G = init_globals_ch and conv = demo_conv and S = init_client_sys and E = ?E
        and t = 660 and src = "''192.168.1.2''" and ifname = "''eth0''" and c = c] c(1,2) demo_conv_law
    by (simp add: init_client_sys_def demo_env_ch_def)
  obtain m where m: "client_handle_tun_start_ch 660 c = Ret (Tun_ended, c\<lparr>cc_mem := m\<rparr>)"
    using c(3,5) by (auto simp: client_handle_tun_start_ch_def buf_make_def Let_def old_iface_def split: option.splits)
  let ?S2 = "proceed 2 (Tun_proc 660 Tun_ended) (c\<lparr>cc_mem := m\<rparr>) ?S1"
  have s2: "?st ?S1 Quiet ?S2"
    by (rule client_sys_step.tun_start [where t = 660]) (simp_all add: is_proc_def m)
  have r: "run ?st init_client_sys [Quiet, Quiet] ?S2"
    by (rule run_cons [where step = ?st, OF s1 run_cons [where step = ?st, OF s2 run.stop]])
  have inv: "client_sys_inv demo_conv ?S2" by (rule cpipe.run_inv [OF r client_sys_inv_init])
  have "old_iface 660 (sy_state ?S2) = None" "linked_from ''192.168.1.2'' 660 (sy_state ?S2)"
    "\<forall>pc. Tun_proc 660 pc \<in> set (sy_procs ?S2) \<longrightarrow> pc = Tun_ended" "unat (660 :: u32) + 11 < 2 ^ 32"
    "conv_law demo_conv (cx_dial demo_env_ch)" "cx_tun demo_env_ch = Inr ''tun660''"
    using c(3,4) demo_conv_law
    by (simp_all add: proceed_def old_iface_def linked_from_def client_connection_by_src_exists_def old_kcps_def demo_env_ch_def)
  from tun_device_never_read [OF inv this(1,2,6,3,4,5), of demo_ext init_globals_ch "''eth0''"]
  obtain d where d: "old_iface 660 d = Some ''tun660''" "?st ?S2 Quiet (?S2\<lparr>sy_state := d\<rparr>)"
    "\<forall>es S'. run ?st (?S2\<lparr>sy_state := d\<rparr>) es S' \<longrightarrow> unread 660 S'" by blast
  from run.more [where step = ?st, OF r d(2)] d(1,3) show ?thesis
    by (intro exI [of _ "[Quiet, Quiet] @ [Quiet]"] exI [of _ "?S2\<lparr>sy_state := d\<rparr>"]) (simp add: proceed_def)
qed

section \<open>Pings\<close>

text \<open>The tunnels of a client carry the client's own address as \<^verbatim>\<open>tun_ip\<close>.\<close>

definition own_tun_ip :: "globals_ch \<Rightarrow> client_ch \<Rightarrow> bool" where
  "own_tun_ip G s \<longleftrightarrow> (\<forall>t sv. g_server_list_ch s t = Some sv \<longrightarrow> st_tun_ip sv = g_client_tun_ip_ch G)"

lemma ping_target:
  assumes "own_tun_ip G s" "client_ping_server orc t s = Ret s'"
  shows "\<exists>n. cc_out s' = cc_out s @ replicate n (Ping (g_client_tun_ip_ch G) 2)"
proof -
  let ?I = "\<lambda>u. own_tun_ip G u \<and> (\<exists>n. cc_out u = cc_out s @ replicate n (Ping (g_client_tun_ip_ch G) 2))"
  have "?I u'" if u: "?I u" and b: "client_ping_body_ch t k a u = Ret u'" for u u' k a
  proof -
    obtain sv where sv: "g_server_list_ch u t = Some sv" "u' = emit_ch [Ping (st_tun_ip sv) 2] u"
      using b by (auto simp: client_ping_body_ch_def outcome_simps)
    obtain n where n: "cc_out u = cc_out s @ replicate n (Ping (g_client_tun_ip_ch G) 2)" using u by blast
    have "cc_out u' = cc_out s @ replicate (Suc n) (Ping (g_client_tun_ip_ch G) 2)"
      using sv u n by (simp add: own_tun_ip_def replicate_append_same)
    moreover have "own_tun_ip G u'" using u sv(2) by (simp add: own_tun_ip_def)
    ultimately show ?thesis by blast
  qed
  moreover have "?I s" using assms(1) by (auto intro: exI [of _ 0])
  ultimately have "?I s'" using for_range_keeps [of ?I "kcp_tbl t" "client_ping_body_ch t"] assms(2) unfolding client_ping_server_def by blast
  then show ?thesis by blast
qed

end
