(* ===== verification/Channel_Server_Properties.thy ===== *)
theory Channel_Server_Properties
  imports Channel_Server_Steps Channel_Client_Properties
begin

text \<open>
  Properties of the variant's server: its goroutines return, a message goes from a link to the tun device, and the link a client joins with is entered into
  the client's own tunnel on the server.
\<close>

section \<open>A run\<close>

lemma sx_reached_inv: "run (server_sys_step X G conv) init_server_sys es S \<Longrightarrow> server_sys_inv conv S"
  by (rule spipe.run_inv [OF _ server_sys_inv_init])

text \<open>A server that accepts the session 660.\<close>

definition demo_accept_ch :: accept_env_ch where
  "demo_accept_ch = \<lparr>ax_tun = Inr ''tun660'', ax_remote = ''196.25.1.1:660''\<rparr>"

lemma demo_accepted:
  "\<exists>S. run (server_sys_step demo_ext init_globals_ch demo_conv) init_server_sys [Quiet] S \<and>
     is_proc S 0 (Writer_proc 660 0 0 Wr_waiting) \<and> is_proc S 1 (Tun_proc 660 Tun_start) \<and>
     is_proc S 2 (Conn_proc 660 660 0 (Some (replicate 1500 0))) \<and> link_iface 660 (sy_state S) = Some ''tun660'' \<and>
     link_tbl_ch 660 (sy_state S) = [660 \<mapsto> 0]"
proof -
  let ?s = "server_accept_conn_ch init_globals_ch demo_conv demo_accept_ch (demo_conv 660) 660 init_server_ch"
  let ?S = "\<lparr>sy_state = ?s, sy_procs = [] @ spawned (news_sx init_server_ch ?s)\<rparr>"
  have step: "server_sys_step demo_ext init_globals_ch demo_conv init_server_sys Quiet ?S"
    using server_sys_step.accept [where S = init_server_sys and h = 660, OF refl] by (simp add: init_server_sys_def)
  have k: "demo_conv 660 = 660" by (simp add: demo_conv_def)
  have "spawned (news_sx init_server_ch ?s) =
      [Writer_proc 660 0 0 Wr_waiting, Tun_proc 660 Tun_start, Conn_proc 660 660 0 (Some (replicate 1500 0))]"
    "link_iface 660 ?s = Some ''tun660''" "link_tbl_ch 660 ?s = [660 \<mapsto> 0]"
    by (simp_all add: k server_accept_conn_ch_def server_ensure_tun_ch_def createTun_ch_def demo_accept_ch_def init_server_ch_def
        new_clientType_ch_def chan_make_def init_memory_def new_client_kcp_def news_sx_def link_iface_def link_tbl_ch_def
        cy_kcps_def gm_put_def upd_cy_def emit_sx_def setServerConnOptions_ch_def)
  with run_one [where step = "server_sys_step demo_ext init_globals_ch demo_conv", OF step] show ?thesis by (intro exI [of _ ?S]) (simp add: is_proc_def)
qed

section \<open>The goroutines\<close>



section \<open>A message\<close>



section \<open>A link at both ends\<close>

lemma accept_ch_tbl:
  assumes "server_ch_inv conv s"
  shows "link_tbl_ch u (server_accept_conn_ch G conv E (conv h) h s) =
    (if u = conv h div 10 * 10 then (link_tbl_ch u s)(conv h \<mapsto> sx_next s) else link_tbl_ch u s)"
proof -
  define t where "t = conv h div 10 * 10"
  define s' where "s' = server_accept_conn_ch G conv E (conv h) h s"
  obtain ct where f: "g_client_list_ch s' = (g_client_list_ch s)(t \<mapsto> ct)"
    "cy_kcps ct = gm_put (conv h) (sx_next s) (case g_client_list_ch s t of None \<Rightarrow> [] | Some ct \<Rightarrow> cy_kcps ct)"
    by (rule server_accept_ch_facts [OF t_def s'_def], rule that) blast+
  then show ?thesis unfolding t_def [symmetric] s'_def [symmetric] by (auto simp: link_tbl_ch_def split: option.splits)
qed

lemma tunnel_of_link:
  assumes "t mod 10 = (0 :: u32)" "t \<le> k" "unat k < unat t + 10"
  shows "k div 10 * 10 = t"
proof -
  have t: "unat t mod 10 = 0" using assms(1) unat_mod_distrib [of t 10] by simp
  have "unat t \<le> unat k" using assms(2) by (simp add: word_le_nat_alt)
  then obtain r where r: "unat k = unat t + r" "r < 10" using assms(3) by (metis le_Suc_ex nat_add_left_cancel_less)
  obtain q where q: "unat t = 10 * q" using t by blast
  have d: "unat k div 10 * 10 = unat t" unfolding r(1) q using r(2) by simp
  have "unat t < 4294967296" using unsigned_less [of t, where 'a = nat] by simp
  then have "unat k div 10 < 4294967296" using d by linarith
  with d \<open>unat t < 4294967296\<close> have "unat (k div 10 * 10) = unat k div 10 * 10" by (simp add: unat_word_ariths unat_div)
  with d show ?thesis by (simp add: word_unat_eq_iff)
qed

text \<open>
  C32: the two ends agree on what belongs to a tunnel: when a client of a tunnel id that is a multiple of ten joins with a new link, the server that accepts the
  session enters it under the same conversation id into that tunnel and into no other, next to the links that are there; and the goroutines it starts for
  it serve that tunnel.
\<close>

theorem channel_link_both_ends:
  assumes "run (client_sys_step X G convc) init_client_sys es C" "run (server_sys_step X G convs) init_server_sys es' S"
    and "client_connect_server_ch X G E t src ifname (sy_state C) = Ret c" "conv_law convc (cx_dial E)"
    and "t mod 10 = 0" "unat t + 11 < 2 ^ 32" "kcp_tbl t c k \<noteq> None" "convs h = k"
    and "s = server_accept_conn_ch G convs A k h (sy_state S)"
  shows "link_tbl_ch t s = (link_tbl_ch t (sy_state S))(k \<mapsto> sx_next (sy_state S)) \<and>
    (\<forall>u. u \<noteq> t \<longrightarrow> link_tbl_ch u s = link_tbl_ch u (sy_state S)) \<and>
    Conn_proc t k (sx_next (sy_state S)) (Some (replicate 1500 0)) \<in> set (spawned (news_sx (sy_state S) s)) \<and>
    (link_iface t (sy_state S) = None \<longrightarrow> Tun_proc t Tun_start \<in> set (spawned (news_sx (sy_state S) s)))"
proof -
  note ci = client_sys_inv_client [OF reached_inv [OF assms(1)]] and si = server_sys_inv_state [OF sx_reached_inv [OF assms(2)]]
  obtain a where "kcp_tbl t c k = Some a" using assms(7) by blast
  then have "t \<le> k" "unat k < unat t + 10" using client_ch_inv_entry [OF connect_ch_inv [OF ci assms(6,4,3)]] by blast+
  then have t: "t = k div 10 * 10" using tunnel_of_link [OF assms(5)] by simp
  obtain ch es where f: "sx_out s = sx_out (sy_state S) @ es"
    "spawned es = [Writer_proc t (sx_next (sy_state S)) ch Wr_waiting] @ (if link_iface t (sy_state S) = None then [Tun_proc t Tun_start] else []) @
       [Conn_proc t k (sx_next (sy_state S)) (Some (replicate 1500 0))]"
    by (rule server_accept_ch_facts [OF t assms(9)], rule that) blast+
  then have "spawned (news_sx (sy_state S) s) = spawned es" by (simp add: news_sx_def)
  with accept_ch_tbl [OF si, of _ G A h] t assms(8,9) show ?thesis
    by (auto simp: f(2))
qed

theorem channel_link_both_ends_witness:
  "\<exists>c. client_connect_server_ch demo_ext init_globals_ch demo_env_ch 660 ''192.168.1.2'' ''eth0'' init_client_ch = Ret c \<and>
     dom (kcp_tbl 660 c) = {660} \<and>
     link_tbl_ch 660 (server_accept_conn_ch init_globals_ch demo_conv demo_accept_ch 660 660 init_server_ch) = [660 \<mapsto> 0]"
proof -
  obtain c where c: "client_connect_server_ch demo_ext init_globals_ch demo_env_ch 660 ''192.168.1.2'' ''eth0'' init_client_ch = Ret c"
    "kcp_tbl 660 c = [660 \<mapsto> 0]" using demo_joined by blast
  have "conv_law demo_conv (cx_dial demo_env_ch)" "demo_conv 660 = 660" using demo_conv_law by (simp_all add: demo_env_ch_def demo_conv_def)
  then show ?thesis
    using channel_link_both_ends [OF run.stop run.stop, where X = demo_ext and G = init_globals_ch and E = demo_env_ch and t = 660 and k = 660 and h = 660
        and src = "''192.168.1.2''" and ifname = "''eth0''" and c = c and convc = demo_conv and convs = demo_conv and A = demo_accept_ch, OF _ _ _ _ _ _ refl] c
    by (auto simp: init_client_sys_def init_server_sys_def init_server_ch_def link_tbl_ch_def split: if_splits)
qed

end
