(* ===== verification/Spec2Isabelle.thy ===== *)
theory Spec2Isabelle
  imports Client_Joins Reader Tunnel_Properties Netlink_Properties Loop_Properties Logging_Properties Aggregator_Properties
    Channel_Server_Properties
begin

text \<open>
  \<^bold>\<open>ratbond\<close> bonds several uplinks of a host into one tunnel. A client opens one KCP session per uplink
  to the server; both ends read packets from a tun device, choose a session for each packet, and write
  what they receive to their tun device. HELLO messages keep the sessions known to be alive, a LINKDOWN
  message takes one out of the bond at once. This development models the program (\<^verbatim>\<open>main.go\<close>, \<^verbatim>\<open>r_*.go\<close>,
  \<^verbatim>\<open>p_*.go\<close>) function by function and proves what makes it work. The older variant \<^verbatim>\<open>t/main_withchannels.go\<close>, in which
  each link has a writer of its own that is fed through a channel, is modelled beside it.

  \<^bold>\<open>Parts of the program, and the theories that model them.\<close>

  \<^item> \<^verbatim>\<open>Prelude\<close>, \<^verbatim>\<open>Go_Net\<close>, \<^verbatim>\<open>Go_Json\<close>: Go's integers, the outcome of a call (a value, a panic, the end of the
    process, or no return), and what the program uses of \<^verbatim>\<open>fmt\<close>, \<^verbatim>\<open>strconv\<close>, \<^verbatim>\<open>net\<close>, \<^verbatim>\<open>net/netip\<close> and
    \<^verbatim>\<open>encoding/json\<close>. \<^verbatim>\<open>Range_Loop\<close>: \<^verbatim>\<open>range\<close> over a map, in any order, with the contracts \<open>closing_loop\<close> and
    \<open>nested_rounds\<close> of the loops that delete what they visit.
  \<^item> \<^verbatim>\<open>Session\<close>: the settings of \<^verbatim>\<open>main.go\<close> (record \<open>globals\<close>), \<^verbatim>\<open>r_tunnel.go\<close> (\<open>RatSession\<close>, \<open>NewSession\<close>,
    \<open>setKCPOptions\<close>, \<open>createListener\<close>), \<^verbatim>\<open>create_session\<close>. The libraries are the fields of the record \<open>ext\<close>,
    what the program asks of the outside are values of type \<open>effect\<close>.
  \<^item> \<^verbatim>\<open>Wire\<close>: the messages and how both ends tell them from packets, the hash keys \<open>ExtractSrc\<close> and
    \<open>ExtractDst\<close>, the two schedulers, and the contracts \<open>hashed_bond\<close> and \<open>bond_pair\<close> of a hash ring that holds
    exactly the conversations of a bond.
  \<^item> \<^verbatim>\<open>Network\<close>, \<^verbatim>\<open>Utils\<close>: \<^verbatim>\<open>p_network.go\<close>, \<^verbatim>\<open>p_runthings.go\<close>, \<^verbatim>\<open>createTun\<close>, \<^verbatim>\<open>get_wan_ip\<close>, the addresses of a
    network and the formatting of byte counts of \<^verbatim>\<open>p_utils.go\<close>.
  \<^item> \<^verbatim>\<open>Free_Id\<close>: the search for a free conversation id, which the program and the variant share.
  \<^item> \<^verbatim>\<open>Client_State\<close> (state, choice of a session, disconnecting), \<^verbatim>\<open>Client_Run\<close> (joining, the goroutines, the HELLO
    round, the default route): the client half of \<^verbatim>\<open>main.go\<close>. \<^verbatim>\<open>g_server_list\<close> is a field of the record
    \<open>client\<close>, a \<^verbatim>\<open>serverConnection\<close> is a heap object the bond refers to by address.
  \<^item> \<^verbatim>\<open>Server_State\<close>: the server half of \<^verbatim>\<open>main.go\<close>, in the same way.
  \<^item> \<^verbatim>\<open>Netlink\<close>: \<^verbatim>\<open>p_netlink.go\<close>, the reactions to the kernel's messages on links and routes.
  \<^item> \<^verbatim>\<open>Status\<close>: the status texts of \<^verbatim>\<open>p_utils.go\<close> and the page of \<^verbatim>\<open>r_http.go\<close>. \<^verbatim>\<open>Program\<close>: the command line, the
    start of each mode, a round of the main loops and the listener. \<^verbatim>\<open>Main_Loop\<close>: the loops themselves.
    \<^verbatim>\<open>Logging\<close>: \<^verbatim>\<open>p_logging.go\<close>.
  \<^item> \<^verbatim>\<open>Aggregator\<close>: \<^verbatim>\<open>p_mqtt.go\<close> and \<^verbatim>\<open>p_aggregator.go\<close>, the mode in which the command line comes from a broker.
  \<^item> \<^verbatim>\<open>Go_Channel\<close>: Go's byte buffers and buffered channels as objects of a memory, what a channel promises (locale
    \<open>bounded_fifo\<close>) and what goroutines promise that talk over channels (locale \<open>piped_system\<close>). \<^verbatim>\<open>Channel_Common\<close>,
    \<^verbatim>\<open>Channel_Client\<close>, \<^verbatim>\<open>Channel_Server\<close>: the variant; names that \<^verbatim>\<open>main.go\<close> has too end in \<open>_ch\<close>.

  \<^bold>\<open>Goroutines.\<close> A goroutine's loop is given by its body, cut where it blocks or releases a lock. \<open>client_step\<close>
  (\<^verbatim>\<open>Client_Steps\<close>), \<open>server_step\<close> (\<^verbatim>\<open>Server_Steps\<close>) and \<open>agg_step\<close> (\<^verbatim>\<open>Aggregator\<close>) have one rule per piece, so the
  reachable states are those of every interleaving at these points. What is between \<^verbatim>\<open>mu.Lock\<close> and
  \<^verbatim>\<open>mu.Unlock\<close> is atomic. The variant has no locks; its goroutines are cut where they wait for a session, the tun device
  or a channel, and \<open>client_sys_step\<close> (\<^verbatim>\<open>Channel_Client_Steps\<close>) and \<open>server_sys_step\<close> (\<^verbatim>\<open>Channel_Server_Steps\<close>) label each piece with what it
  does to the channels; a join and an accept are one piece. Memory is sequentially consistent: data races within a piece are not modelled.

  \<^bold>\<open>What the lemmas show.\<close>

  \<^item> \<^verbatim>\<open>Client_Bond\<close>, \<^verbatim>\<open>Client_Safety\<close>, \<^verbatim>\<open>Client_Steps\<close>, \<^verbatim>\<open>Server_Bond\<close>, \<^verbatim>\<open>Server_Steps\<close>: every operation returns, keeps the
    invariant of the bonds (the connection map and the hash ring have the same members, every entry is an
    object with its own conversation id and an open session) and touches nothing outside its frame; so the
    invariant holds in every reachable state.
  \<^item> \<^verbatim>\<open>Client_Pings\<close>, \<^verbatim>\<open>Server_Pings\<close>: a HELLO round leaves exactly the connections heard from in time.
  \<^item> \<^verbatim>\<open>Bond_Spec\<close>, \<^verbatim>\<open>Bond_Refinement\<close>: the abstract bond, a set of conversations per tunnel that one conversation
    joins or some leave, and the simulation of both ends by it (locale \<open>bond_refinement\<close>).
  \<^item> \<^verbatim>\<open>Traffic\<close>: what each operation sends and what it writes to the tun device; the steps labelled with what they
    take in. \<^verbatim>\<open>Tunnel\<close>: the two ends and what is under way between them as one system, each direction of which is
    an instance of the locale \<open>direction\<close>: nothing is made up, and no control message gets out.
  \<^item> \<^verbatim>\<open>Reader\<close>: the life of a reading goroutine, up to the timeout that ends its session.
  \<^item> \<^verbatim>\<open>Main_Loop\<close>: the loops run forever without a crash and carry out a HELLO round in time, once for both ends
    (locale \<open>main_loop\<close>).
  \<^item> \<^verbatim>\<open>Channel_Client_Bond\<close>, \<^verbatim>\<open>Channel_Client_Steps\<close>, \<^verbatim>\<open>Channel_Server_Bond\<close>, \<^verbatim>\<open>Channel_Server_Steps\<close>: the operations of the variant return and keep
    its links, goroutines, buffers and channels in order; every goroutine refers to what exists and every channel has one writer.
    \<^verbatim>\<open>Channel_Pipe\<close>: the moves of a packet from the tun device to a link. \<^verbatim>\<open>Channel_Client_Properties\<close>,
    \<^verbatim>\<open>Channel_Server_Properties\<close>: channels keep order, a packet is handed over, a message reaches the tun device, both ends agree on the
    tunnel of a link; and what goes wrong: packets share one buffer, and a writer that ends leaves the reader of the tun device waiting.
  \<^item> \<^verbatim>\<open>Client_Properties\<close>, \<^verbatim>\<open>Client_Joins\<close>, \<^verbatim>\<open>Server_Properties\<close>, \<^verbatim>\<open>Netlink_Properties\<close>, \<^verbatim>\<open>Program_Properties\<close>,
    \<^verbatim>\<open>Tunnel_Properties\<close>, \<^verbatim>\<open>Loop_Properties\<close>, \<^verbatim>\<open>Logging_Properties\<close>, \<^verbatim>\<open>Aggregator_Properties\<close>: the properties of each part. Below: those of
    the two ends together. Each that has hypotheses is applied to the run of \<^verbatim>\<open>Scenario\<close>, a client with two
    uplinks and its server.

  \<^bold>\<open>Assumptions.\<close> \<open>ring_laws\<close> says what the hash ring promises (the members are those added and not removed,
  and an answer is a member); \<open>ring_consistent\<close>, that the answer depends on the members only. \<open>snmp_matches\<close> says
  that KCP's statistics have a value for each name, \<open>conv_law\<close> that a new session has the conversation id it was made for. \<open>int_bits\<close> is the width of \<^verbatim>\<open>int\<close> on the host, at least 32.
  Of the network it is assumed, in \<^verbatim>\<open>Tunnel\<close> only, that what a session delivers was written by the peer, whole; the
  program puts KCP into stream mode, in which the library does not promise the latter.

  \<^bold>\<open>Loops and bounds.\<close> There is no fuel. The search for a free id (\<open>find_avail\<close>), the enumeration of a network
  (\<open>hosts_loop\<close>) and the loop that \<^verbatim>\<open>goto tryagain\<close> makes (\<open>client_tun_try\<close>) may run forever, so not returning is a value (\<open>None\<close>, then \<open>Diverge\<close>) and returning is proved. The
  other loops are structural or have a measure; the endless loops of the goroutines are sequences of rounds
  of any length. Ids, counters and ports wrap at their width.

  \<^bold>\<open>Not modelled.\<close> The libraries: KCP and its error correction, the tun device, netlink, the MQTT client, the
  flag parser, the logger, \<^verbatim>\<open>net/http\<close>, \<^verbatim>\<open>os/exec\<close>; they are arguments or effects. The texts of log messages, except
  those that are computed by the program and can crash it (the housekeeping texts of the main loops). The
  digits of floating-point numbers: bandwidths and quotients stay symbolic, so how \<^verbatim>\<open>%.2f\<close> rounds is not
  covered. \<^verbatim>\<open>ratbond_something\<close>, which only logs and is never called. Of the variant: the status texts in its log, and
  \<^verbatim>\<open>netlink_get_routes\<close>, which is an argument of its main loop.
\<close>

section \<open>The two ends of a tunnel\<close>

interpretation tunnel: bond_pair X
  "conn_tbl t" "\<lambda>s. Option.bind (g_server_list s t) sv_consistent" "client_hash_choice X" "client_inv X"
  "link_tbl t" "\<lambda>s. Option.bind (g_client_list s t) ct_consistent" "server_hash_choice X" "server_inv X"
  for X :: "'r ext" and t
  by unfold_locales

text \<open>
  C1: with consistent hashing, a packet and its answer travel over the same link: whenever both
  ends have the same conversations in a tunnel, the client's choice for a packet and the server's
  choice for the answer are the same conversation, a member of the bond, and choosing changes
  neither state.
\<close>

theorem flow_stays_on_link:
  assumes "ring_laws X" "ring_consistent X" "client_reachable X G s" "server_reachable X G' s'"
    and "g_use_consistent_hashing G" "g_use_consistent_hashing G'"
    and "conn_tbl t s k = Some a" "dom (link_tbl t s') = dom (conn_tbl t s)" "fits_int X (dom (conn_tbl t s))"
    and "reply_of X p q" "24 \<le> n" "24 \<le> n'"
  shows "\<exists>c \<in> dom (conn_tbl t s).
    client_choose_kcp_conn X G orc (Some (p, n)) t s = Ret ((c, None), s) \<and>
    server_choose_kcp_conn X G' orc' (Some (q, n')) t s' = Ret ((c, None), s')"
proof -
  note ci = client_reachable_inv [OF assms(1,3)] and si = server_reachable_inv [OF assms(1,4)]
  obtain key where key: "ExtractSrc X p n = Ret key" "ExtractDst X q n' = Ret key"
    using ExtractDst_reply [OF assms(10-12)] by blast
  obtain b where b: "link_tbl t s' k = Some b" using assms(7,8) by (metis domD domI)
  obtain sv r where sv: "g_server_list s t = Some sv" "sv_consistent sv = Some r"
    using ch.sync [OF ci assms(7)] by (auto simp: bind_eq_Some_conv)
  obtain ct r' where ct: "g_client_list s' t = Some ct" "ct_consistent ct = Some r'"
    using sh.sync [OF si b] by (auto simp: bind_eq_Some_conv)
  have "Option.bind (g_server_list s t) sv_consistent = Some r" "Option.bind (g_client_list s' t) ct_consistent = Some r'"
    using sv ct by simp_all
  from tunnel.same_choice [OF assms(1,2) ci si assms(7,8,9) this] obtain c where
    "c \<in> dom (conn_tbl t s)" "client_hash_choice X r key = (c, None)" "server_hash_choice X r' key = (c, None)"
    by blast
  with key sv ct assms(5,6) show ?thesis
    by (auto simp: client_choose_kcp_conn_def server_choose_kcp_conn_def)
qed

theorem flow_stays_on_link_witness:
  "\<exists>c \<in> {660, 661}.
     client_choose_kcp_conn demo_ext demo_globals demo_orc (Some (demo_packet, 28)) 660 demo_client2 =
       Ret ((c, None), demo_client2) \<and>
     server_choose_kcp_conn demo_ext demo_globals demo_orc (Some (demo_answer, 28)) 660 demo_server2 =
       Ret ((c, None), demo_server2)"
proof -
  have "reply_of demo_ext demo_packet demo_answer"
    by (simp add: reply_of_def demo_packet_def demo_answer_def demo_ext_def demo_ParseHeader_def)
  moreover have "dom (conn_tbl 660 demo_client2) = {660, 661}" "dom (link_tbl 660 demo_server2) = {660, 661}"
    "conn_tbl 660 demo_client2 660 = Some 0" by (auto simp: demo_conn_tbl demo_link_tbl)
  moreover have "g_use_consistent_hashing demo_globals" by (simp add: demo_globals_def init_globals_def)
  ultimately show ?thesis
    using flow_stays_on_link [OF demo_ring_laws demo_ring_consistent demo_reachable demo_server_reachable _ _ _ _ demo_fits,
        of 660 660 0 demo_packet demo_answer 28 28 demo_orc demo_orc] by simp
qed

text \<open>
  C7: when the client drops one of several links of a tunnel, the last thing it writes is a message
  on which the server, whichever link carries it, drops the same link and only that: both ends have
  the same conversations again. The conversation id must be below 65536.
\<close>

theorem linkdown_end_to_end:
  assumes "ring_laws X" "client_inv X s" "covers orc (dom (conn_tbl t s))"
    and "conn_tbl t s d = Some a" "conn_tbl t s k = Some b" "k \<noteq> d" "unat d < 65536"
    and "server_inv X s'" "covers orc' (dom (link_tbl t s'))" "dom (link_tbl t s') = dom (conn_tbl t s)"
  shows "\<exists>u h m u'. client_disconnect_session_by_convid X G orc t d s = Ret u \<and>
    last (cl_out u) = KcpWrite h m \<and>
    server_accept_read X orc' t j a' (Inr m) now1 now2 tun_err s' = Ret (Continue, u') \<and>
    link_tbl t u' = (link_tbl t s')(d := None) \<and> dom (link_tbl t u') = dom (conn_tbl t u)"
proof -
  obtain u and r r' :: RatSession where u: "client_disconnect_session_by_convid X G orc t d s = Ret u"
    "conn_tbl t u = (conn_tbl t s)(d := None)"
    "cl_out u = cl_out s @ fst (RatSession_Close (Some r) None) @
      [KcpWriteDeadline (rs_kcp r') g_write_deadline, KcpWrite (rs_kcp r') (linkdown_msg d)]"
    using disconnect_tells [OF assms(1-6), of G] by blast
  have "link_tbl t s' \<noteq> Map.empty" using assms(4,10) by auto
  then obtain ct where ct: "g_client_list s' t = Some ct" by (cases "g_client_list s' t") (auto simp: link_tbl_def)
  have "of_nat (unat d mod 65536) = d" using assms(7) by simp
  then obtain u' where "server_accept_read X orc' t j a' (Inr (linkdown_msg d)) now1 now2 tun_err s' = Ret (Continue, u')"
    "link_tbl t u' = (link_tbl t s')(d := None)"
    using linkdown_removes [OF assms(1,8,9) ct, of j a' d now1 now2 tun_err] by metis
  then show ?thesis using u assms(10) by auto
qed

theorem linkdown_end_to_end_witness:
  "\<exists>u h m u'. client_disconnect_session_by_convid demo_ext demo_globals demo_orc 660 661 demo_client2 = Ret u \<and>
     last (cl_out u) = KcpWrite h m \<and>
     server_accept_read demo_ext demo_orc 660 660 0 (Inr m) 0 0 None demo_server2 = Ret (Continue, u') \<and>
     dom (link_tbl 660 u') = dom (conn_tbl 660 u) \<and> link_tbl 660 u' = [660 \<mapsto> 0]"
proof -
  have "dom (conn_tbl 660 demo_client2) = {660, 661}" "dom (link_tbl 660 demo_server2) = {660, 661}"
    "conn_tbl 660 demo_client2 660 = Some 0" "conn_tbl 660 demo_client2 661 = Some 1"
    "(link_tbl 660 demo_server2)(661 := None) = [660 \<mapsto> 0]"
    by (auto simp: demo_conn_tbl demo_link_tbl fun_eq_iff)
  with linkdown_end_to_end [OF demo_ring_laws demo_inv demo_covers_tbl _ _ _ _ demo_server_inv demo_covers_links,
      of 660 661 1 660 0 demo_globals 660 0 0 0 None]
  show ?thesis by auto
qed

section \<open>Messages\<close>

text \<open>
  C10: the server reads back the conversation id of a LINKDOWN message exactly when the id fits 16
  bits; a larger id is cut to its low 16 bits on the wire.
\<close>

theorem linkdown_round_trip:
  "(server_message (linkdown_msg d) = Linkdown d) = (unat d < 65536)"
proof -
  have "(of_nat (unat d mod 65536) = d) = (unat d mod 65536 = unat d)"
    by (simp add: word_unat_eq_iff unat_of_nat)
  then show ?thesis by (simp add: ucast_u16_u32 mod_eq_self_iff_div_eq_0 div_eq_0_iff)
qed

text \<open>
  Neither end takes an IPv4 packet for a control message, whatever its length, and both take
  a HELLO for what it is.
\<close>

theorem packets_are_data:
  assumes "m \<noteq> []" "unat (m ! 0) div 16 = 4"
  shows "server_message m = Data \<and> client_message m = Data \<and>
    server_message g_hello = Hello \<and> client_message g_hello = Hello"
proof -
  have "m ! 0 \<noteq> 0" using assms(2) by auto
  then show ?thesis by (simp add: server_message_def [of m] client_message_def [of m] is_hello_def)
qed

theorem packets_are_data_witness: "server_message demo_packet = Data \<and> server_message [69, 0, 0] = Data"
  using packets_are_data [of demo_packet] packets_are_data [of "[69, 0, 0]"] by (simp add: demo_packet_def)

section \<open>KCP sessions\<close>

text \<open>Some defaults of the KCP library.\<close>

definition default_opts :: kcp_opts where
  "default_opts = \<lparr>ko_stream = False, ko_wdelay = False, ko_nodelay = (0, 100, 0, 0), ko_mtu = 1400,
     ko_wnd = (32, 32), ko_acknodelay = False, ko_deadlink = 20\<rparr>"

lemma replay_append [simp]: "replay_options h (xs @ ys) o1 = replay_options h ys (replay_options h xs o1)"
  by (induction h xs o1 rule: replay_options.induct) simp_all

lemma ensure_tun_out:
  assumes "server_ensure_tun X G E t ct s = Ret (s', b)"
  shows "\<exists>es. se_out s' = se_out s @ es \<and> (\<forall>o1. replay_options h es o1 = o1)"
  using assms
  by (cases "ae_tun E") (auto simp: server_ensure_tun_def createTun_def outcome_simps Let_def split: if_splits)

text \<open>The option calls on an accepted session, in their order.\<close>

lemma accept_out:
  assumes "server_accept_conn X G E t k s = Ret (Some a, s')"
  shows "\<exists>es. se_out s' = se_out s @ es \<and> (\<forall>o1. replay_options (ae_kcp E) es o1 =
    replay_options (ae_kcp E) (setServerConnOptions G (ae_kcp E) @ setKCPOptions G (Some (ae_kcp E))) o1)"
proof -
  define ct where "ct = (case g_client_list s t of None \<Rightarrow> new_clientType | Some ct \<Rightarrow> ct)"
  define s0 where "s0 = effects (setServerConnOptions G (ae_kcp E)) (s\<lparr>g_client_list := (g_client_list s)(t \<mapsto> ct)\<rparr>)"
  obtain s1 b where e: "server_ensure_tun X G E t ct s0 = Ret (s1, b)"
    and out: "se_out s' = se_out s1 @ setKCPOptions G (Some (ae_kcp E)) @ (if b then [Spawn (Go_server_handle_tun t)] else [])"
    using assms unfolding server_accept_conn_def Let_def ct_def [symmetric] s0_def [symmetric]
    by (auto simp: outcome_simps split: if_splits)
  obtain es where es: "se_out s1 = se_out s0 @ es" "\<forall>o1. replay_options (ae_kcp E) es o1 = o1"
    using ensure_tun_out [OF e] by blast
  have "se_out s' = se_out s @ setServerConnOptions G (ae_kcp E) @ es @ setKCPOptions G (Some (ae_kcp E)) @
      (if b then [Spawn (Go_server_handle_tun t)] else [])"
    by (simp add: out es(1) s0_def)
  then show ?thesis using es(2) by auto
qed

text \<open>
  The KCP session the client creates and the one the server accepts end up with the same
  options, whatever the library's defaults are: stream mode, no write delay, the same retransmission
  parameters, MTU and windows, and a dead-link limit of 1000.
\<close>

theorem kcp_options_agree:
  assumes "create_session X G D convid src = Ret (Inr (r, eff))"
    and "server_accept_conn X G E t k s = Ret (Some a, s')"
  shows "\<exists>es. se_out s' = se_out s @ es \<and>
    replay_options (rs_kcp r) eff o1 = replay_options (ae_kcp E) es o2 \<and>
    ko_mtu (replay_options (ae_kcp E) es o2) = g_kcp_mtu G \<and> ko_deadlink (replay_options (ae_kcp E) es o2) = 1000"
proof -
  let ?c = "\<lparr>ko_stream = True, ko_wdelay = False, ko_nodelay = (1, 10, 2, 1), ko_mtu = g_kcp_mtu G,
    ko_wnd = (1024, 1024), ko_acknodelay = False, ko_deadlink = 1000\<rparr>"
  have "replay_options (rs_kcp r) eff o1 = ?c"
    using assms(1) by (cases o1) (auto simp: create_session_def NewSession_def setKCPOptions_def
        setClientConnOptions_def Let_def outcome_simps split: sum.splits if_splits)
  moreover have "replay_options (ae_kcp E) (setServerConnOptions G (ae_kcp E) @ setKCPOptions G (Some (ae_kcp E))) o2 = ?c"
    by (cases o2) (simp add: setServerConnOptions_def setKCPOptions_def)
  ultimately show ?thesis using accept_out [OF assms(2)] by auto
qed

theorem kcp_options_agree_witness:
  "\<exists>r eff es. create_session demo_ext demo_globals (ce_dial (demo_env 5)) 660 ''192.168.1.2'' = Ret (Inr (r, eff)) \<and>
     se_out demo_server2 = se_out demo_server1 @ es \<and>
     replay_options (rs_kcp r) eff default_opts = replay_options 2 es default_opts"
proof -
  have "\<exists>r eff. create_session demo_ext demo_globals (ce_dial (demo_env 5)) 660 ''192.168.1.2'' = Ret (Inr (r, eff))"
    by (simp add: create_session_def NewSession_def demo_env_def)
  then obtain r eff where c: "create_session demo_ext demo_globals (ce_dial (demo_env 5)) 660 ''192.168.1.2'' = Ret (Inr (r, eff))"
    by blast
  have "ae_kcp (demo_accept 2) = 2" by (simp add: demo_accept_def)
  with kcp_options_agree [OF c demo_server2_eq, of default_opts default_opts] c show ?thesis by auto
qed

end
